(* ===== verification/Prelude.thy ===== *)
theory Prelude
  imports Main "HOL-Library.AList" "HOL-Library.Char_ord" "HOL-Library.List_Lexorder"
begin

text \<open>
  Shared vocabulary of the development: the exceptions of the program, the state-and-exception
  monad every effectful operation is written in, the result class
  \<^verbatim>\<open>tq::ParseResult\<close> (include/taskqueue/parse_result.h), and finite maps kept as association
  lists sorted by key (the iteration order of \<^verbatim>\<open>std::map\<close>).
\<close>

named_theorems io_simps \<open>unfolding of the state-and-exception monad\<close>
named_theorems key_simps \<open>the Redis key names and which of them are equal\<close>

section \<open>Exceptions and the state-and-exception monad\<close>

text \<open>
  \<^item> \<open>RedisError\<close>: \<^verbatim>\<open>sw::redis::Error\<close>, thrown by every client call;
  \<^item> \<open>LuaError\<close>: a Lua run-time error inside a script; the server turns it into an error reply;
  \<^item> \<open>JsonError\<close>: an exception of \<^verbatim>\<open>nlohmann::json\<close>;
  \<^item> \<open>InvalidArgument\<close>, \<open>OutOfRange\<close>: the exceptions of the C++ standard library;
  \<^item> \<open>UndefinedBehaviour\<close>: the C++ expression has no defined value at this input
    (signed overflow, a conversion of an unrepresentable floating-point value);
  \<^item> \<open>Terminated\<close>: not an exception but the end of the process by \<^verbatim>\<open>std::terminate\<close>, where an
    exception leaves a thread function;
  \<^item> \<open>ProcessExit\<close>: the end of the process by \<^verbatim>\<open>std::exit\<close> with an exit code.
\<close>

datatype exn =
    RedisError string
  | LuaError string
  | JsonError string
  | InvalidArgument string
  | OutOfRange string
  | UndefinedBehaviour string
  | Terminated
  | ProcessExit int

type_synonym ('s, 'a) io = "'s \<Rightarrow> (exn + 'a) \<times> 's"

definition ret :: "'a \<Rightarrow> ('s, 'a) io" where
  [io_simps]: "ret a = (\<lambda>s. (Inr a, s))"

definition throw :: "exn \<Rightarrow> ('s, 'a) io" where
  [io_simps]: "throw e = (\<lambda>s. (Inl e, s))"

definition bind_io :: "('s, 'a) io \<Rightarrow> ('a \<Rightarrow> ('s, 'b) io) \<Rightarrow> ('s, 'b) io" where
  "bind_io m f = (\<lambda>s. case m s of (Inl e, s') \<Rightarrow> (Inl e, s') | (Inr a, s') \<Rightarrow> f a s')"

definition then_io :: "('s, 'a) io \<Rightarrow> ('s, 'b) io \<Rightarrow> ('s, 'b) io" where
  "then_io m n = bind_io m (\<lambda>_. n)"

definition catch_io :: "('s, 'a) io \<Rightarrow> (exn \<Rightarrow> ('s, 'a) io) \<Rightarrow> ('s, 'a) io" where
  "catch_io m h = (\<lambda>s. case m s of (Inl e, s') \<Rightarrow> h e s' | (Inr a, s') \<Rightarrow> (Inr a, s'))"

definition lift_io :: "exn + 'a \<Rightarrow> ('s, 'a) io" where
  [io_simps]: "lift_io r = (\<lambda>s. (r, s))"

definition bind_sum :: "exn + 'a \<Rightarrow> ('a \<Rightarrow> exn + 'b) \<Rightarrow> exn + 'b" where
  "bind_sum r f = (case r of Inl e \<Rightarrow> Inl e | Inr a \<Rightarrow> f a)"

lemma bind_sum_simps [simp]:
  "bind_sum (Inl e) f = Inl e" "bind_sum (Inr a) f = f a"
  by (simp_all add: bind_sum_def)

lemma bind_io_simps [io_simps]:
  "m s = (Inr a, s') \<Longrightarrow> bind_io m f s = f a s'"
  "m s = (Inl e, s') \<Longrightarrow> bind_io m f s = (Inl e, s')"
  by (simp_all add: bind_io_def)

lemma then_io_simps [io_simps]:
  "m s = (Inr a, s') \<Longrightarrow> then_io m n s = n s'"
  "m s = (Inl e, s') \<Longrightarrow> then_io m n s = (Inl e, s')"
  by (simp_all add: then_io_def bind_io_def)

lemma catch_io_simps [io_simps]:
  "m s = (Inr a, s') \<Longrightarrow> catch_io m h s = (Inr a, s')"
  "m s = (Inl e, s') \<Longrightarrow> catch_io m h s = h e s'"
  by (simp_all add: catch_io_def)

lemma bind_io_ret [simp]: "bind_io (ret a) f = f a" "bind_io (throw e) f = throw e"
  by (simp_all add: bind_io_def ret_def throw_def fun_eq_iff)

text \<open>
  A predicate on states that every step of a computation keeps is kept by the whole
  computation, whatever exceptions are thrown and caught on the way: the rule behind every
  invariant of an effectful operation.
\<close>

definition keeps :: "('s \<Rightarrow> bool) \<Rightarrow> ('s, 'a) io \<Rightarrow> bool" where
  "keeps I m \<longleftrightarrow> (\<forall>s. I s \<longrightarrow> I (snd (m s)))"

lemma keepsI: "(\<And>s. I s \<Longrightarrow> I (snd (m s))) \<Longrightarrow> keeps I m"
  by (simp add: keeps_def)

lemma keepsD: "keeps I m \<Longrightarrow> I s \<Longrightarrow> I (snd (m s))"
  by (simp add: keeps_def)

named_theorems keeps_intros \<open>rules that lift an invariant through the monad\<close>

lemma keeps_ret [keeps_intros, simp]: "keeps I (ret a)" "keeps I (throw e)" "keeps I (lift_io r)"
  by (simp_all add: keeps_def ret_def throw_def lift_io_def)

lemma keeps_bind [keeps_intros]:
  "keeps I m \<Longrightarrow> (\<And>a. keeps I (f a)) \<Longrightarrow> keeps I (bind_io m f)"
  by (fastforce simp: keeps_def bind_io_def split: prod.splits sum.splits)

lemma keeps_then [keeps_intros]: "keeps I m \<Longrightarrow> keeps I n \<Longrightarrow> keeps I (then_io m n)"
  by (simp add: then_io_def keeps_bind)

lemma keeps_catch [keeps_intros]:
  "keeps I m \<Longrightarrow> (\<And>e. keeps I (h e)) \<Longrightarrow> keeps I (catch_io m h)"
  by (fastforce simp: keeps_def catch_io_def split: prod.splits sum.splits)

section \<open>ParseResult\<close>

text \<open>
  \<^verbatim>\<open>ParseResult<T>\<close> keeps a value and an error text; it is \<open>Ok\<close> when the text is empty.
  \<^verbatim>\<open>Fail\<close> stores the value-initialised \<open>T{}\<close>, which is the first argument of
  \<open>PR_Fail\<close> here.
\<close>

record 'a ParseResult =
  pr_value :: 'a
  pr_error :: string

definition PR_Ok :: "'a \<Rightarrow> 'a ParseResult" where
  "PR_Ok v = \<lparr>pr_value = v, pr_error = ''''\<rparr>"

definition PR_Fail :: "'a \<Rightarrow> string \<Rightarrow> 'a ParseResult" where
  "PR_Fail dflt message = \<lparr>pr_value = dflt, pr_error = message\<rparr>"

definition pr_Ok :: "'a ParseResult \<Rightarrow> bool" where
  "pr_Ok r \<longleftrightarrow> pr_error r = ''''"

lemma pr_simps [simp]:
  "pr_value (PR_Ok v) = v" "pr_error (PR_Ok v) = ''''" "pr_Ok (PR_Ok v)"
  "pr_value (PR_Fail d m) = d" "pr_error (PR_Fail d m) = m" "pr_Ok (PR_Fail d m) \<longleftrightarrow> m = ''''"
  by (simp_all add: PR_Ok_def PR_Fail_def pr_Ok_def)

lemma PR_Ok_eq [simp]: "PR_Ok v = PR_Ok w \<longleftrightarrow> v = w"
  by (simp add: PR_Ok_def)

lemma PR_Fail_eq [simp]: "PR_Fail d m = PR_Fail d' m' \<longleftrightarrow> d = d' \<and> m = m'"
  by (simp add: PR_Fail_def)

lemma PR_Fail_neq_Ok [simp]:
  "m \<noteq> '''' \<Longrightarrow> PR_Fail d m \<noteq> PR_Ok v" "m \<noteq> '''' \<Longrightarrow> PR_Ok v \<noteq> PR_Fail d m"
  by (auto simp: PR_Ok_def PR_Fail_def)

lemma pr_Ok_iff: "pr_Ok r \<longleftrightarrow> r = PR_Ok (pr_value r)"
  by (cases r) (auto simp: pr_Ok_def PR_Ok_def)

section \<open>Finite maps as association lists sorted by key\<close>

fun sput :: "'k::linorder \<Rightarrow> 'v \<Rightarrow> ('k \<times> 'v) list \<Rightarrow> ('k \<times> 'v) list" where
  "sput k v [] = [(k, v)]"
| "sput k v ((k', v') # m) =
     (if k = k' then (k, v) # m
      else if k < k' then (k, v) # (k', v') # m
      else (k', v') # sput k v m)"

fun sdel :: "'k \<Rightarrow> ('k \<times> 'v) list \<Rightarrow> ('k \<times> 'v) list" where
  "sdel k [] = []"
| "sdel k ((k', v') # m) = (if k = k' then m else (k', v') # sdel k m)"

definition smap :: "('k::linorder \<times> 'v) list \<Rightarrow> bool" where
  "smap m \<longleftrightarrow> sorted_wrt (<) (map fst m)"

definition sbuild :: "('k::linorder \<times> 'v) list \<Rightarrow> ('k \<times> 'v) list" where
  "sbuild kvs = foldl (\<lambda>m (k, v). sput k v m) [] kvs"

lemma map_of_sput [simp]: "map_of (sput k v m) = (map_of m)(k \<mapsto> v)"
  by (induction m) auto

lemma set_fst_sput [simp]: "fst ` set (sput k v m) = insert k (fst ` set m)"
proof -
  have "dom (map_of (sput k v m)) = insert k (dom (map_of m))" by simp
  then show ?thesis by (simp only: dom_map_of_conv_image_fst)
qed

lemma set_sput_subset: "set (sput k v m) \<subseteq> insert (k, v) (set m)"
  by (induction m) (auto split: if_splits)

lemma smap_Nil [simp]: "smap []"
  by (simp add: smap_def)

lemma smap_Cons: "smap ((k, v) # m) \<longleftrightarrow> (\<forall>k' \<in> fst ` set m. k < k') \<and> smap m"
  by (auto simp: smap_def)

lemma smap_sput [simp]: "smap m \<Longrightarrow> smap (sput k v m)"
proof (induction m)
  case Nil
  then show ?case by (simp add: smap_def)
next
  case (Cons p m)
  obtain k' v' where [simp]: "p = (k', v')" by (cases p)
  from Cons show ?case
    by (auto simp: smap_Cons)
qed

lemma smap_map_of_None: "smap ((k, v) # m) \<Longrightarrow> map_of m k = None"
  by (auto simp: smap_Cons map_of_eq_None_iff)

lemma map_of_sdel [simp]: "smap m \<Longrightarrow> map_of (sdel k m) = (map_of m)(k := None)"
proof (induction m)
  case Nil
  then show ?case by simp
next
  case (Cons p m)
  obtain k' v' where [simp]: "p = (k', v')" by (cases p)
  from Cons.prems have "smap m" and "map_of m k' = None"
    by (auto simp: smap_Cons intro: smap_map_of_None)
  with Cons.IH show ?case by (auto simp: fun_upd_twist)
qed

lemma set_sdel_subset: "set (sdel k m) \<subseteq> set m"
  by (induction m) (auto split: if_splits)

lemma smap_sdel [simp]: "smap m \<Longrightarrow> smap (sdel k m)"
proof (induction m)
  case Nil
  then show ?case by simp
next
  case (Cons p m)
  obtain k' v' where [simp]: "p = (k', v')" by (cases p)
  from Cons show ?case
    using set_sdel_subset [of k m] by (auto simp: smap_Cons)
qed

lemma foldl_sput_smap:
  "smap m \<Longrightarrow> smap (foldl (\<lambda>m (k, v). sput k v m) m kvs)"
  by (induction kvs arbitrary: m) auto

lemma smap_sbuild [simp]: "smap (sbuild kvs)"
  by (simp add: sbuild_def foldl_sput_smap)

text \<open>Two sorted maps with the same entries are the same list.\<close>

lemma smap_ext: "smap m \<Longrightarrow> smap m' \<Longrightarrow> map_of m = map_of m' \<Longrightarrow> m = m'"
proof (induction m arbitrary: m')
  case Nil
  then show ?case by (cases m') (auto simp: fun_eq_iff split: if_splits)
next
  case (Cons p m)
  obtain k v where [simp]: "p = (k, v)" by (cases p)
  from Cons.prems(3) obtain q r where m': "m' = q # r"
    by (cases m') (auto simp: fun_eq_iff split: if_splits)
  obtain k' v' where [simp]: "q = (k', v')" by (cases q)
  have eq: "(map_of m)(k \<mapsto> v) = (map_of r)(k' \<mapsto> v')"
    using Cons.prems(3) unfolding m' by (auto simp: fun_eq_iff fun_upd_def)
  have lt: "\<forall>x \<in> fst ` set m. k < x" "\<forall>x \<in> fst ` set r. k' < x"
    using Cons.prems(1,2) by (auto simp: m' smap_Cons)
  have doms: "insert k (fst ` set m) = insert k' (fst ` set r)"
    using arg_cong [OF eq, of dom] by (simp add: dom_map_of_conv_image_fst)
  have kk: "k = k'"
  proof (rule antisym)
    show "k \<le> k'" using doms lt(1) by (metis insert_iff less_imp_le order_refl)
    show "k' \<le> k" using doms lt(2) by (metis insert_iff less_imp_le order_refl)
  qed
  have nm: "map_of m k = None" "map_of r k' = None"
    using lt by (auto simp: map_of_eq_None_iff)
  have "v = v'" using fun_cong [OF eq, of k] kk by simp
  moreover have "map_of m = map_of r"
  proof
    fix x show "map_of m x = map_of r x"
      using fun_cong [OF eq, of x] nm kk by (auto split: if_splits)
  qed
  ultimately show ?case
    using Cons.IH [of r] Cons.prems(1,2) kk by (simp add: m' smap_Cons)
qed

section \<open>Association lists used as hash tables\<close>

lemma map_of_AList_update [simp]: "map_of (AList.update k v al) = (map_of al)(k \<mapsto> v)"
  by (rule update_conv')

lemma map_of_AList_delete [simp]: "map_of (AList.delete k al) = (map_of al)(k := None)"
  by (rule delete_conv')

lemma distinct_AList [simp]:
  "distinct (map fst al) \<Longrightarrow> distinct (map fst (AList.update k v al))"
  "distinct (map fst al) \<Longrightarrow> distinct (map fst (AList.delete k al))"
  by (simp_all add: distinct_update distinct_delete)

lemma set_AList_update_subset: "set (AList.update k v al) \<subseteq> insert (k, v) (set al)"
  by (induction al) auto

lemma set_AList_delete_subset: "set (AList.delete k al) \<subseteq> set al"
  by (auto simp: AList.delete_eq)

lemma length_AList_delete:
  "distinct (map fst al) \<Longrightarrow> map_of al k = Some v \<Longrightarrow> Suc (length (AList.delete k al)) = length al"
proof (induction al)
  case Nil
  then show ?case by simp
next
  case (Cons p al)
  obtain k' v' where [simp]: "p = (k', v')" by (cases p)
  have nk: "k \<notin> fst ` set al \<Longrightarrow> AList.delete k al = al"
    by (force simp: AList.delete_eq filter_id_conv)
  from Cons nk show ?case by (auto split: if_splits)
qed

section \<open>Counting in lists\<close>

lemma length_filter_update:
  "i < length xs \<Longrightarrow>
     length (filter P (xs[i := y])) + of_bool (P (xs ! i)) = length (filter P xs) + of_bool (P y)"
proof (induction xs arbitrary: i)
  case Nil
  then show ?case by simp
next
  case (Cons x xs)
  then show ?case by (cases i) auto
qed

lemma length_filter_pos: "x \<in> set xs \<Longrightarrow> P x \<Longrightarrow> 0 < length (filter P xs)"
  by (metis filter_empty_conv length_greater_0_conv)

lemma sum_list_map_update:
  "i < length xs \<Longrightarrow>
     sum_list (map f (xs[i := y])) + f (xs ! i) = sum_list (map f xs) + (f y :: nat)"
proof (induction xs arbitrary: i)
  case Nil
  then show ?case by simp
next
  case (Cons x xs)
  then show ?case by (cases i) auto
qed

end
