(* ===== verification/Cxx_Numbers.thy ===== *)
theory Cxx_Numbers
  imports Prelude Complex_Main "HOL-Library.Log_Nat" "HOL-Library.Word"
begin

text \<open>
  What the program uses of the C++ language and its standard library on numbers: the ranges of
  the signed types with their overflow, \<^verbatim>\<open>std::to_string\<close>, \<^verbatim>\<open>std::stoll\<close> and
  \<^verbatim>\<open>std::stoull\<close>, and IEEE binary64 values (\<^verbatim>\<open>double\<close>) with round-to-nearest-even.
\<close>

section \<open>Signed integers\<close>

definition in_i32 :: "int \<Rightarrow> bool" where
  "in_i32 i \<longleftrightarrow> - (2 ^ 31) \<le> i \<and> i < 2 ^ 31"

definition in_i64 :: "int \<Rightarrow> bool" where
  "in_i64 i \<longleftrightarrow> - (2 ^ 63) \<le> i \<and> i < 2 ^ 63"

text \<open>Signed arithmetic is undefined on overflow; conversions are modular (C++20).\<close>

definition add_i32 :: "int \<Rightarrow> int \<Rightarrow> exn + int" where
  "add_i32 a b = (if in_i32 (a + b) then Inr (a + b) else Inl (UndefinedBehaviour ''int overflow''))"

definition add_i64 :: "int \<Rightarrow> int \<Rightarrow> exn + int" where
  "add_i64 a b =
     (if in_i64 (a + b) then Inr (a + b) else Inl (UndefinedBehaviour ''int64 overflow''))"

definition to_i32 :: "int \<Rightarrow> int" where
  "to_i32 i = (i + 2 ^ 31) mod 2 ^ 32 - 2 ^ 31"

definition to_i64 :: "int \<Rightarrow> int" where
  "to_i64 i = (i + 2 ^ 63) mod 2 ^ 64 - 2 ^ 63"

lemma to_i32_id [simp]: "in_i32 i \<Longrightarrow> to_i32 i = i"
  by (simp add: to_i32_def in_i32_def)

lemma to_i64_id [simp]: "in_i64 i \<Longrightarrow> to_i64 i = i"
  by (simp add: to_i64_def in_i64_def)

lemma in_i32_to_i32 [simp]: "in_i32 (to_i32 i)"
proof -
  have "0 \<le> (i + 2 ^ 31) mod 2 ^ 32 \<and> (i + 2 ^ 31) mod 2 ^ 32 < (2::int) ^ 32"
    by (simp add: pos_mod_bound)
  then show ?thesis by (simp add: to_i32_def in_i32_def)
qed

lemma in_i64_to_i64 [simp]: "in_i64 (to_i64 i)"
proof -
  have "0 \<le> (i + 2 ^ 63) mod 2 ^ 64 \<and> (i + 2 ^ 63) mod 2 ^ 64 < (2::int) ^ 64"
    by (simp add: pos_mod_bound)
  then show ?thesis by (simp add: to_i64_def in_i64_def)
qed

lemma in_i32_i64: "in_i32 i \<Longrightarrow> in_i64 i"
  by (simp add: in_i32_def in_i64_def)

type_synonym size_t = "64 word"

section \<open>Decimal text\<close>

definition digit :: "nat \<Rightarrow> char" where
  "digit d = char_of (48 + d)"

fun show_nat :: "nat \<Rightarrow> string" where
  "show_nat n = (if n < 10 then [digit n] else show_nat (n div 10) @ [digit (n mod 10)])"

declare show_nat.simps [simp del]

definition to_string :: "int \<Rightarrow> string" where
  "to_string i = (if i < 0 then CHR ''-'' # show_nat (nat (- i)) else show_nat (nat i))"

definition is_digit :: "char \<Rightarrow> bool" where
  "is_digit c \<longleftrightarrow> 48 \<le> (of_char c :: nat) \<and> (of_char c :: nat) \<le> 57"

definition digit_value :: "char \<Rightarrow> nat" where
  "digit_value c = of_char c - 48"

definition digits_value :: "string \<Rightarrow> nat" where
  "digits_value ds = foldl (\<lambda>a c. 10 * a + digit_value c) 0 ds"

definition is_space :: "char \<Rightarrow> bool" where
  "is_space c \<longleftrightarrow> of_char c = (32::nat) \<or> 9 \<le> (of_char c :: nat) \<and> (of_char c :: nat) \<le> 13"

text \<open>The sign and the digits of the longest numeric prefix, as \<^verbatim>\<open>strtoll\<close> reads it.\<close>

definition strto_prefix :: "string \<Rightarrow> (bool \<times> string)" where
  "strto_prefix s =
     (let t = dropWhile is_space s
      in case t of
           c # u \<Rightarrow> if c = CHR ''-'' then (True, takeWhile is_digit u)
                    else if c = CHR ''+'' then (False, takeWhile is_digit u)
                    else (False, takeWhile is_digit t)
         | [] \<Rightarrow> (False, []))"

definition stoll :: "string \<Rightarrow> exn + int" where
  "stoll s =
     (let (neg, ds) = strto_prefix s;
          v = (if neg then - int (digits_value ds) else int (digits_value ds))
      in if ds = [] then Inl (InvalidArgument ''stoll'')
         else if in_i64 v then Inr v else Inl (OutOfRange ''stoll''))"

text \<open>\<^verbatim>\<open>strtoull\<close> negates a signed number modulo \<open>2^64\<close>.\<close>

definition stoull :: "string \<Rightarrow> exn + size_t" where
  "stoull s =
     (let (neg, ds) = strto_prefix s; v = digits_value ds
      in if ds = [] then Inl (InvalidArgument ''stoull'')
         else if 2 ^ 64 \<le> v then Inl (OutOfRange ''stoull'')
         else Inr (if neg then - of_nat v else of_nat v))"

lemma of_char_digit: "d < 10 \<Longrightarrow> of_char (digit d) = 48 + d"
  by (simp add: digit_def of_char_of)

lemma digit_simps [simp]:
  "d < 10 \<Longrightarrow> is_digit (digit d)" "d < 10 \<Longrightarrow> digit_value (digit d) = d"
  "d < 10 \<Longrightarrow> \<not> is_space (digit d)"
  by (auto simp: is_digit_def digit_value_def is_space_def of_char_digit)

lemma digits_value_snoc: "digits_value (ds @ [c]) = 10 * digits_value ds + digit_value c"
  by (simp add: digits_value_def)

lemma show_nat_digits: "\<forall>c \<in> set (show_nat n). is_digit c"
proof (induction n rule: show_nat.induct)
  case (1 n)
  show ?case
  proof (cases "n < 10")
    case True then show ?thesis by (simp add: show_nat.simps [of n])
  next
    case False
    have eq: "show_nat n = show_nat (n div 10) @ [digit (n mod 10)]"
      using False by (simp add: show_nat.simps [of n])
    show ?thesis using "1" [OF False] by (auto simp: eq)
  qed
qed

lemma show_nat_value [simp]: "digits_value (show_nat n) = n"
proof (induction n rule: show_nat.induct)
  case (1 n)
  show ?case
  proof (cases "n < 10")
    case True then show ?thesis by (simp add: show_nat.simps [of n] digits_value_def)
  next
    case False
    have eq: "show_nat n = show_nat (n div 10) @ [digit (n mod 10)]"
      using False by (simp add: show_nat.simps [of n])
    show ?thesis using "1" [OF False] by (simp add: eq digits_value_snoc)
  qed
qed

lemma show_nat_nonempty [simp]: "show_nat n \<noteq> []"
  by (simp add: show_nat.simps [of n])

lemma show_nat_hd: "\<exists>c r. show_nat n = c # r \<and> is_digit c"
  using show_nat_digits [of n] show_nat_nonempty [of n] by (cases "show_nat n") auto

lemma is_digit_not: "is_digit c \<Longrightarrow> \<not> is_space c \<and> c \<noteq> CHR ''-'' \<and> c \<noteq> CHR ''+''"
  by (auto simp: is_digit_def is_space_def)

lemma takeWhile_show_nat [simp]: "takeWhile is_digit (show_nat n) = show_nat n"
  using show_nat_digits by (simp add: takeWhile_eq_all_conv)

lemma strto_prefix_show_nat [simp]: "strto_prefix (show_nat n) = (False, show_nat n)"
proof -
  obtain c r where cr: "show_nat n = c # r" and "is_digit c" using show_nat_hd by blast
  moreover have "takeWhile is_digit (c # r) = c # r"
    using takeWhile_show_nat [of n] by (simp add: cr)
  ultimately show ?thesis
    using is_digit_not [of c] by (simp add: strto_prefix_def Let_def)
qed

lemma strto_prefix_minus [simp]:
  "strto_prefix (CHR ''-'' # show_nat n) = (True, show_nat n)"
  by (simp add: strto_prefix_def is_space_def Let_def)

lemma stoll_to_string [simp]: "in_i64 i \<Longrightarrow> stoll (to_string i) = Inr i"
  by (auto simp: stoll_def to_string_def Let_def)

lemma unat_size_t_less: "unat (w :: size_t) < 2 ^ 64"
  using unsigned_less [of w] by simp

lemma stoull_to_string [simp]: "stoull (to_string (uint w)) = Inr w"
proof -
  have "nat (uint w) < 2 ^ 64" using unat_size_t_less [of w] by simp
  then show ?thesis
    by (simp add: stoull_def to_string_def Let_def not_le)
qed

lemma to_string_nonempty [simp]: "to_string i \<noteq> []"
  by (simp add: to_string_def)

lemma to_string_inject [simp]: "to_string i = to_string j \<longleftrightarrow> i = j"
proof
  have hd_digit: "CHR ''-'' # u \<noteq> show_nat n" for u n
    using show_nat_hd [of n] is_digit_not by fastforce
  have inj: "show_nat m = show_nat n \<Longrightarrow> m = n" for m n
    using show_nat_value by metis
  assume "to_string i = to_string j"
  then show "i = j"
    using hd_digit [of "show_nat (nat (- i))" "nat j"] hd_digit [of "show_nat (nat (- j))" "nat i"]
    by (auto simp: to_string_def split: if_splits dest!: inj)
qed simp

section \<open>IEEE binary64\<close>

text \<open>
  A finite \<^verbatim>\<open>double\<close> is the rational it denotes (the two zeros are one value); arithmetic is
  exact arithmetic followed by \<open>rnd\<close>, round to nearest with ties to even, 53 significant
  bits, gradual underflow at \<open>2^-1074\<close> and overflow to infinity at \<open>2^1024\<close>.
\<close>

datatype double = DFin rat | DInf | DNegInf | DNaN

definition ilog2 :: "rat \<Rightarrow> int" where
  "ilog2 q =
     (let (n, d) = quotient_of q; k = bitlen n - bitlen d
      in if 2 powi k \<le> q then k else k - 1)"

definition round_half_even :: "rat \<Rightarrow> int" where
  "round_half_even x =
     (let f = \<lfloor>x\<rfloor>; r = x - of_int f
      in if r < 1 / 2 then f else if 1 / 2 < r then f + 1 else if even f then f else f + 1)"

definition ulp_exp :: "rat \<Rightarrow> int" where
  "ulp_exp q = max (- 1074) (ilog2 \<bar>q\<bar> - 52)"

definition rnd :: "rat \<Rightarrow> double" where
  "rnd q =
     (if q = 0 then DFin 0
      else let u = 2 powi ulp_exp q; r = of_int (round_half_even (q / u)) * u
           in if 2 ^ 1024 \<le> \<bar>r\<bar> then (if 0 < q then DInf else DNegInf) else DFin r)"

definition double_of_int :: "int \<Rightarrow> double" where
  "double_of_int i = rnd (of_int i)"

fun dneg :: "double \<Rightarrow> double" where
  "dneg (DFin a) = DFin (- a)"
| "dneg DInf = DNegInf"
| "dneg DNegInf = DInf"
| "dneg DNaN = DNaN"

fun dsub :: "double \<Rightarrow> double \<Rightarrow> double" where
  "dsub (DFin a) (DFin b) = rnd (a - b)"
| "dsub DNaN _ = DNaN"
| "dsub _ DNaN = DNaN"
| "dsub DInf DInf = DNaN"
| "dsub DNegInf DNegInf = DNaN"
| "dsub DInf _ = DInf"
| "dsub DNegInf _ = DNegInf"
| "dsub _ b = dneg b"

fun dmul :: "double \<Rightarrow> double \<Rightarrow> double" where
  "dmul (DFin a) (DFin b) = rnd (a * b)"
| "dmul DNaN _ = DNaN"
| "dmul _ DNaN = DNaN"
| "dmul (DFin a) b = (if a = 0 then DNaN else if 0 < a then b else dneg b)"
| "dmul b (DFin a) = (if a = 0 then DNaN else if 0 < a then b else dneg b)"
| "dmul DInf b = b"
| "dmul DNegInf b = dneg b"

text \<open>
  \<^verbatim>\<open>std::pow(x, n)\<close> for an integral exponent \<open>n \<ge> 0\<close>, correctly rounded. The C++ standard does not promise
  correct rounding; where \<open>x^n\<close> is a double, as for powers of two, the libraries return it.
\<close>

fun dpow :: "double \<Rightarrow> nat \<Rightarrow> double" where
  "dpow x 0 = DFin 1"
| "dpow (DFin a) n = rnd (a ^ n)"
| "dpow DInf n = DInf"
| "dpow DNegInf n = (if even n then DInf else DNegInf)"
| "dpow DNaN n = DNaN"

fun dle :: "double \<Rightarrow> double \<Rightarrow> bool" where
  "dle DNaN _ = False"
| "dle _ DNaN = False"
| "dle DNegInf _ = True"
| "dle _ DInf = True"
| "dle (DFin a) (DFin b) = (a \<le> b)"
| "dle _ _ = False"

fun dneg_p :: "double \<Rightarrow> bool" where
  "dneg_p (DFin a) = (a < 0)"
| "dneg_p DNegInf = True"
| "dneg_p _ = False"

text \<open>
  \<^verbatim>\<open>static_cast<std::int64_t>(d)\<close> truncates towards zero and is undefined when the truncated
  value is not representable.
\<close>

definition truncate_rat :: "rat \<Rightarrow> int" where
  "truncate_rat q = (if 0 \<le> q then \<lfloor>q\<rfloor> else \<lceil>q\<rceil>)"

fun double_to_i64 :: "double \<Rightarrow> exn + int" where
  "double_to_i64 (DFin q) =
     (if in_i64 (truncate_rat q) then Inr (truncate_rat q)
      else Inl (UndefinedBehaviour ''double to int64''))"
| "double_to_i64 _ = Inl (UndefinedBehaviour ''double to int64'')"

lemma round_half_even_int [simp]: "round_half_even (of_int i) = i"
  by (simp add: round_half_even_def)

lemma round_half_even_nonneg: "0 \<le> x \<Longrightarrow> 0 \<le> round_half_even x"
  by (simp add: round_half_even_def Let_def)

lemma round_half_even_near: "\<bar>of_int (round_half_even x) - x\<bar> \<le> 1 / 2"
proof -
  have "of_int \<lfloor>x\<rfloor> \<le> x" "x < of_int \<lfloor>x\<rfloor> + 1" by linarith+
  then show ?thesis by (auto simp: round_half_even_def Let_def abs_le_iff)
qed

text \<open>A value that is a multiple of its unit in the last place is represented exactly.\<close>

lemma rnd_multiple:
  assumes "q = of_int n * 2 powi ulp_exp q" and "q \<noteq> 0"
  shows "rnd q = (if 2 ^ 1024 \<le> \<bar>q\<bar> then (if 0 < q then DInf else DNegInf) else DFin q)"
proof -
  have u: "(2::rat) powi ulp_exp q \<noteq> 0" by simp
  have "q / 2 powi ulp_exp q = of_int n"
    using assms(1) u by (metis nonzero_mult_div_cancel_right)
  then have "of_int (round_half_even (q / 2 powi ulp_exp q)) * 2 powi ulp_exp q = q"
    using assms(1) by simp
  with assms(2) show ?thesis by (simp add: rnd_def Let_def)
qed

lemma rnd_nonneg: "0 \<le> q \<Longrightarrow> rnd q = DInf \<or> (\<exists>r. rnd q = DFin r \<and> 0 \<le> r)"
proof -
  assume q: "0 \<le> q"
  have "0 \<le> of_int (round_half_even (q / 2 powi ulp_exp q)) * (2::rat) powi ulp_exp q"
    using q by (simp add: round_half_even_nonneg)
  with q show ?thesis by (auto simp: rnd_def Let_def)
qed

lemma rnd_not_neg: "0 \<le> q \<Longrightarrow> \<not> dneg_p (rnd q)"
  using rnd_nonneg [of q] by auto

lemma bitlen_bounds_pos: "0 < (n::int) \<Longrightarrow> 2 powi (bitlen n - 1) \<le> (of_int n :: rat) \<and> of_int n < (2::rat) powi bitlen n"
proof -
  assume n: "0 < n"
  from bitlen_bounds [OF n] have b: "2 ^ nat (bitlen n - 1) \<le> n" "n < 2 ^ nat (bitlen n)" by auto
  have "1 \<le> bitlen n" using n by (auto simp: bitlen_alt_def)
  have "(2::rat) powi (bitlen n - 1) = of_int (2 ^ nat (bitlen n - 1))"
    using \<open>1 \<le> bitlen n\<close> by (simp add: power_int_def)
  moreover have "(2::rat) powi bitlen n = of_int (2 ^ nat (bitlen n))"
    using \<open>1 \<le> bitlen n\<close> by (simp add: power_int_def)
  ultimately show ?thesis using b by (metis of_int_le_iff of_int_less_iff)
qed

lemma ilog2_bounds:
  assumes "0 < q"
  shows "2 powi ilog2 q \<le> q" and "q < 2 powi (ilog2 q + 1)"
proof -
  obtain n d where nd: "quotient_of q = (n, d)" by fastforce
  then have d: "0 < d" and q: "q = of_int n / of_int d" by (auto dest: quotient_of_denom_pos quotient_of_div)
  have n: "0 < n" using assms d by (simp add: q zero_less_divide_iff)
  let ?k = "bitlen n - bitlen d"
  note bn = bitlen_bounds_pos [OF n] and bd = bitlen_bounds_pos [OF d]
  have pow: "(2::rat) powi a * 2 powi b = 2 powi (a + b)" for a b by (simp add: power_int_add)
  have "of_int n < (2::rat) powi (?k + 1) * 2 powi (bitlen d - 1)" using bn by (simp add: pow)
  also have "\<dots> \<le> 2 powi (?k + 1) * of_int d" using bd by (intro mult_left_mono) simp_all
  finally have up: "q < 2 powi (?k + 1)" using d by (simp add: q pos_divide_less_eq)
  have "(2::rat) powi (?k - 1) * of_int d \<le> 2 powi (?k - 1) * 2 powi bitlen d"
    using bd by (intro mult_left_mono) simp_all
  also have "\<dots> \<le> of_int n" using bn by (simp add: pow)
  finally have lo: "2 powi (?k - 1) \<le> q" using d by (simp add: q pos_le_divide_eq)
  show "2 powi ilog2 q \<le> q" "q < 2 powi (ilog2 q + 1)"
    using up lo by (auto simp: ilog2_def nd Let_def)
qed

text \<open>Away from underflow the relative error of rounding is at most \<open>2^-53\<close>, up to overflow.\<close>

lemma rnd_near:
  assumes "1 / 4 \<le> q"
  obtains r where "\<bar>r - q\<bar> \<le> q / 2 ^ 53" "rnd q = (if 2 ^ 1024 \<le> \<bar>r\<bar> then DInf else DFin r)"
proof -
  have q: "0 < q" using assms by simp
  note b = ilog2_bounds [OF q]
  have two: "(2::rat) powi (- 2) = 1 / 4" by (simp add: power_int_def power2_eq_square)
  have "- 2 < ilog2 q + 1"
  proof (rule ccontr)
    assume "\<not> - 2 < ilog2 q + 1"
    then have "(2::rat) powi (ilog2 q + 1) \<le> 2 powi (- 2)" by (intro power_int_increasing) simp_all
    then show False using b(2) assms two by simp
  qed
  then have e: "ulp_exp q = ilog2 q - 52" using q by (simp add: ulp_exp_def)
  let ?u = "(2::rat) powi ulp_exp q"
  define r where "r = of_int (round_half_even (q / ?u)) * ?u"
  have u: "0 < ?u" by simp
  have "2 powi ilog2 q = ?u * 2 ^ 52" by (simp add: e power_int_diff)
  with b(1) have uq: "?u * 2 ^ 52 \<le> q" by simp
  have "r - q = (of_int (round_half_even (q / ?u)) - q / ?u) * ?u" using u by (simp add: r_def left_diff_distrib)
  then have "\<bar>r - q\<bar> = \<bar>of_int (round_half_even (q / ?u)) - q / ?u\<bar> * ?u"
    using u by (simp only: abs_mult abs_of_pos)
  also have "\<dots> \<le> 1 / 2 * ?u" using round_half_even_near u by (intro mult_right_mono) simp_all
  also have "\<dots> \<le> q / 2 ^ 53" using uq by simp
  finally have "\<bar>r - q\<bar> \<le> q / 2 ^ 53" .
  moreover have "rnd q = (if 2 ^ 1024 \<le> \<bar>r\<bar> then DInf else DFin r)"
    using q by (simp add: rnd_def Let_def r_def)
  ultimately show ?thesis by (rule that)
qed

lemma rnd_error: "1 / 4 \<le> q \<Longrightarrow> rnd q = DFin r \<Longrightarrow> \<bar>r - q\<bar> \<le> q / 2 ^ 53"
  by (rule rnd_near [of q]) (auto split: if_splits)

lemma rnd_finite:
  assumes "1 / 4 \<le> q" and "q \<le> 2 ^ 70"
  shows "rnd q \<noteq> DInf"
proof -
  obtain r where r: "\<bar>r - q\<bar> \<le> q / 2 ^ 53" "rnd q = (if 2 ^ 1024 \<le> \<bar>r\<bar> then DInf else DFin r)"
    using rnd_near [OF assms(1)] .
  have "q / 2 ^ 53 \<le> q" using assms(1) by simp
  then have "\<bar>r\<bar> \<le> 2 * 2 ^ 70" using r(1) assms by linarith
  moreover have "(2::rat) * 2 ^ 70 < 2 ^ 1024"
    using power_strict_increasing [of 71 1024 "2::rat"] by simp
  ultimately show ?thesis using r(2) by auto
qed

lemma ilog2_int: "0 < i \<Longrightarrow> ilog2 (of_int i) = bitlen i - 1"
proof -
  assume i: "0 < i"
  have b1: "bitlen 1 = 1" using bitlen_pow2 [of 1 0] by (simp add: bitlen_alt_def)
  have "2 powi (bitlen i - 1) \<le> (of_int i :: rat)" using bitlen_bounds_pos [OF i] by simp
  then show ?thesis by (simp add: ilog2_def b1)
qed

lemma ulp_exp_int: "i \<noteq> 0 \<Longrightarrow> ulp_exp (of_int i) = max (- 1074) (bitlen \<bar>i\<bar> - 53)"
  using ilog2_int [of "\<bar>i\<bar>"] by (simp add: ulp_exp_def)

text \<open>Integers with at most 53 significant bits are represented exactly.\<close>

lemma rnd_int_shift:
  assumes "\<bar>j\<bar> < 2 ^ 53" and "j \<noteq> 0"
  shows "rnd (of_int (j * 2 ^ c)) =
    (if 2 ^ 1024 \<le> \<bar>j * 2 ^ c\<bar> then (if 0 < j then DInf else DNegInf)
     else DFin (of_int (j * 2 ^ c)))"
proof -
  let ?i = "j * 2 ^ c" and ?e = "ulp_exp (of_int (j * 2 ^ c))"
  have bl: "bitlen \<bar>?i\<bar> = bitlen \<bar>j\<bar> + c"
    using assms(2) bitlen_pow2 [of "\<bar>j\<bar>" c] by (simp add: abs_mult)
  have "bitlen \<bar>j\<bar> \<le> 53"
    using assms(1) bitlen_le_iff_power [of "\<bar>j\<bar>" 53] by simp
  then have e: "?e \<le> c" using ulp_exp_int [of ?i] assms(2) bl by (simp del: of_int_mult of_int_power)
  have eq: "(of_int ?i :: rat) = of_int (j * 2 ^ nat (c - ?e)) * 2 powi ?e"
  proof -
    have "(2::rat) ^ c = 2 powi int c" by (simp add: power_int_def)
    also have "\<dots> = 2 powi (c - ?e) * 2 powi ?e" by (simp add: power_int_add [symmetric])
    also have "(2::rat) powi (c - ?e) = 2 ^ nat (c - ?e)" using e by (simp add: power_int_def)
    finally show ?thesis by simp
  qed
  have le: "2 ^ 1024 \<le> \<bar>of_int ?i :: rat\<bar> \<longleftrightarrow> 2 ^ 1024 \<le> \<bar>?i\<bar>"
    by (metis of_int_abs of_int_le_iff of_int_numeral of_int_power)
  have pos: "(0::rat) < of_int ?i \<longleftrightarrow> 0 < j" by (simp add: zero_less_mult_iff)
  have nz: "(of_int ?i :: rat) \<noteq> 0" using assms(2) by simp
  show ?thesis unfolding rnd_multiple [OF eq nz] le pos ..
qed

lemma rnd_int [simp]: "\<bar>j\<bar> < 2 ^ 53 \<Longrightarrow> rnd (of_int j) = DFin (of_int j)"
  using rnd_int_shift [of j 0] by (cases "j = 0") (auto simp: rnd_def)

lemma double_of_int_exact: "\<bar>j\<bar> < 2 ^ 53 \<Longrightarrow> double_of_int j = DFin (of_int j)"
  by (simp add: double_of_int_def)

text \<open>The conversion of a 64-bit integer gives a finite value that is its own rounding.\<close>

lemma rnd_shift_small:
  assumes "\<bar>k\<bar> \<le> 2 ^ 53" and "c \<le> 12"
  shows "rnd (of_int (k * 2 ^ c)) = DFin (of_int (k * 2 ^ c))"
proof -
  have small: "\<bar>j * 2 ^ d\<bar> < 2 ^ 1024" if "\<bar>j\<bar> < 2 ^ 53" "d \<le> 65" for j :: int and d
  proof -
    have "\<bar>j * 2 ^ d\<bar> \<le> 2 ^ 53 * 2 ^ d" using that(1) by (simp add: abs_mult)
    also have "\<dots> \<le> 2 ^ 53 * 2 ^ 65" using that(2) by (intro mult_left_mono power_increasing) auto
    also have "\<dots> < (2::int) ^ 1024" by simp
    finally show ?thesis .
  qed
  have exact: "rnd (of_int (j * 2 ^ d)) = DFin (of_int (j * 2 ^ d))"
    if "\<bar>j\<bar> < 2 ^ 53" "d \<le> 65" for j d
    using rnd_int_shift [OF that(1), of d] small [OF that] by (cases "j = 0") (auto simp: rnd_def)
  show ?thesis
  proof (cases "\<bar>k\<bar> = 2 ^ 53")
    case False
    then show ?thesis using exact [of k c] assms by simp
  next
    case True
    then have "k = sgn k * 2 ^ 53" using abs_mult_sgn [of k] by (simp add: mult.commute)
    then have "k * 2 ^ c = sgn k * 2 ^ (53 + c)" by (metis mult.assoc power_add)
    moreover have "\<bar>sgn k\<bar> < 2 ^ 53" by (simp add: sgn_if)
    ultimately show ?thesis using exact [of "sgn k" "53 + c"] assms(2) by simp
  qed
qed

lemma rnd_int64_idem:
  assumes "\<bar>i\<bar> \<le> 2 ^ 64"
  shows "\<exists>q. rnd (of_int i) = DFin q \<and> rnd q = DFin q"
proof (cases "\<bar>i\<bar> < 2 ^ 53")
  case True
  then show ?thesis by simp
next
  case False
  define c where "c = nat (bitlen \<bar>i\<bar> - 53)"
  have i0: "0 < \<bar>i\<bar>" using False by auto
  have bl: "54 \<le> bitlen \<bar>i\<bar>" using bitlen_le_iff_power [of "\<bar>i\<bar>" 53] False by auto
  have "bitlen \<bar>i\<bar> \<le> 65" using bitlen_le_iff_power [of "\<bar>i\<bar>" 65] assms by simp
  then have c12: "c \<le> 12" by (simp add: c_def)
  have ulp: "ulp_exp (of_int i) = int c" using ulp_exp_int [of i] i0 bl by (auto simp: c_def)
  define k where "k = round_half_even (of_int i / 2 ^ c)"
  have lt: "\<bar>(of_int i :: rat) / 2 ^ c\<bar> < 2 ^ 53"
  proof -
    have "bitlen \<bar>i\<bar> = int (53 + c)" using bl by (simp add: c_def)
    then have "\<bar>i\<bar> < 2 ^ (53 + c)" using bitlen_bounds [OF i0] by (simp add: nat_add_distrib)
    then have "\<bar>of_int i :: rat\<bar> < 2 ^ (53 + c)"
      by (metis of_int_abs of_int_less_iff of_int_numeral of_int_power)
    then show ?thesis by (simp add: power_add divide_less_eq)
  qed
  have near: "\<bar>y\<bar> < b + 1" if "\<bar>y - x\<bar> \<le> 1 / 2" "\<bar>x\<bar> < b" for x y b :: rat
    using that abs_triangle_ineq2 [of y x] by linarith
  have "\<bar>(of_int k :: rat)\<bar> < of_int (2 ^ 53 + 1)"
    using near [OF round_half_even_near lt] by (simp add: k_def)
  then have "\<bar>k\<bar> \<le> 2 ^ 53" by linarith
  note k = rnd_shift_small [OF this c12]
  have "\<bar>k * 2 ^ c\<bar> \<le> 2 ^ 53 * 2 ^ 12"
    unfolding abs_mult using \<open>\<bar>k\<bar> \<le> 2 ^ 53\<close> power_increasing [OF c12, of "2::int"]
    by (intro mult_mono) auto
  then have "\<bar>k * 2 ^ c\<bar> < 2 ^ 1024" by (rule le_less_trans) simp
  then have "\<bar>(of_int (k * 2 ^ c) :: rat)\<bar> < 2 ^ 1024"
    by (metis of_int_abs of_int_less_iff of_int_numeral of_int_power)
  then have "rnd (of_int i) = DFin (of_int (k * 2 ^ c))"
    using i0 by (simp add: rnd_def ulp Let_def k_def not_le)
  with k show ?thesis by blast
qed

end
