(* ===== verification/Task_Id.thy ===== *)
theory Task_Id
  imports Cxx_Numbers
begin

text \<open>
  Task identifiers: include/taskqueue/task_id.h and src/task_id.cc. The sixteen random bytes
  \<^verbatim>\<open>TaskId::Generate\<close> draws are an argument of the model.
\<close>

unbundle bit_operations_syntax

datatype TaskId = TaskId (TaskId_Value: string)

definition IsHexDigit :: "char \<Rightarrow> bool" where
  "IsHexDigit c \<longleftrightarrow>
     (CHR ''0'' \<le> c \<and> c \<le> CHR ''9'') \<or> (CHR ''a'' \<le> c \<and> c \<le> CHR ''f'') \<or>
     (CHR ''A'' \<le> c \<and> c \<le> CHR ''F'')"

definition IsValidUuidFormat :: "string \<Rightarrow> bool" where
  "IsValidUuidFormat value \<longleftrightarrow>
     length value = 36 \<and>
     list_all (\<lambda>i. if i = 8 \<or> i = 13 \<or> i = 18 \<or> i = 23 then value ! i = CHR ''-''
                   else IsHexDigit (value ! i)) [0..<length value]"

definition hex_digit :: "nat \<Rightarrow> char" where
  "hex_digit n = (if n < 10 then char_of (48 + n) else char_of (87 + n))"

text \<open>\<^verbatim>\<open>%02x\<close> of one byte.\<close>

definition fmt_02x :: "8 word \<Rightarrow> string" where
  "fmt_02x b = [hex_digit (unat b div 16), hex_digit (unat b mod 16)]"

definition set_version_bits :: "8 word list \<Rightarrow> 8 word list" where
  "set_version_bits bytes =
     (let bytes = bytes[6 := (bytes ! 6 AND 0x0F) OR 0x40]
      in bytes[8 := (bytes ! 8 AND 0x3F) OR 0x80])"

definition format_uuid :: "8 word list \<Rightarrow> string" where
  "format_uuid b =
     fmt_02x (b ! 0) @ fmt_02x (b ! 1) @ fmt_02x (b ! 2) @ fmt_02x (b ! 3) @ ''-'' @
     fmt_02x (b ! 4) @ fmt_02x (b ! 5) @ ''-'' @
     fmt_02x (b ! 6) @ fmt_02x (b ! 7) @ ''-'' @
     fmt_02x (b ! 8) @ fmt_02x (b ! 9) @ ''-'' @
     fmt_02x (b ! 10) @ fmt_02x (b ! 11) @ fmt_02x (b ! 12) @ fmt_02x (b ! 13) @
     fmt_02x (b ! 14) @ fmt_02x (b ! 15)"

definition TaskId_Generate :: "8 word list \<Rightarrow> TaskId" where
  "TaskId_Generate bytes = TaskId (format_uuid (set_version_bits bytes))"

definition TaskId_Parse :: "string \<Rightarrow> TaskId ParseResult" where
  "TaskId_Parse value =
     (if value = '''' then PR_Fail (TaskId '''') ''task id must not be empty''
      else if \<not> IsValidUuidFormat value then PR_Fail (TaskId '''') ''task id must be a UUID string''
      else PR_Ok (TaskId value))"

lemma IsHexDigit_hex_digit [simp]: "n < 16 \<Longrightarrow> IsHexDigit (hex_digit n)"
proof -
  have "list_all (\<lambda>n. IsHexDigit (hex_digit n)) [0..<16]" by code_simp
  then show "n < 16 \<Longrightarrow> IsHexDigit (hex_digit n)" by (simp add: list_all_iff)
qed

lemma hex_nibbles: "unat (b :: 8 word) div 16 < 16" "unat b mod 16 < 16"
  using unsigned_less [of b] by (simp_all add: div_less_iff_less_mult)

lemma uuid_positions: "[0..<36] = [0,1,2,3,4,5,6,7,8,9,10,11,12,13,14,15,16,17,18,19,20,21,22,23,
    24,25,26,27,28,29,30,31,32,33,34,35::nat]"
  by (simp add: upt_rec [of 0 36] upt_rec [of "Suc 0" 36] numeral_2_eq_2 [symmetric])

lemma format_uuid_valid [simp]: "IsValidUuidFormat (format_uuid b)"
proof -
  have len: "length (format_uuid b) = 36" by (simp add: format_uuid_def fmt_02x_def)
  have "IsHexDigit (hex_digit (unat c div 16))" "IsHexDigit (hex_digit (unat c mod 16))" for c :: "8 word"
    by (simp_all only: hex_nibbles IsHexDigit_hex_digit)
  then show ?thesis
    unfolding IsValidUuidFormat_def len uuid_positions
    by (simp add: format_uuid_def fmt_02x_def)
qed

lemma IsValidUuidFormat_nonempty: "IsValidUuidFormat v \<Longrightarrow> v \<noteq> ''''"
  by (auto simp: IsValidUuidFormat_def)

lemma TaskId_Parse_valid [simp]: "IsValidUuidFormat v \<Longrightarrow> TaskId_Parse v = PR_Ok (TaskId v)"
  using IsValidUuidFormat_nonempty by (auto simp: TaskId_Parse_def)

lemma hex_digit_inject: "m < 16 \<Longrightarrow> n < 16 \<Longrightarrow> hex_digit m = hex_digit n \<longleftrightarrow> m = n"
proof -
  have "list_all (\<lambda>m. list_all (\<lambda>n. hex_digit m = hex_digit n \<longrightarrow> m = n) [0..<16]) [0..<16]"
    by code_simp
  then show "m < 16 \<Longrightarrow> n < 16 \<Longrightarrow> hex_digit m = hex_digit n \<longleftrightarrow> m = n"
    by (auto simp: list_all_iff)
qed

lemma fmt_02x_inject: "fmt_02x b = fmt_02x c \<longleftrightarrow> b = c"
proof
  assume "fmt_02x b = fmt_02x c"
  then have "unat b div 16 = unat c div 16" "unat b mod 16 = unat c mod 16"
    by (simp_all add: fmt_02x_def hex_digit_inject hex_nibbles)
  then have "unat b = unat c" by (metis div_mult_mod_eq)
  then show "b = c" by (simp add: word_unat_eq_iff)
qed simp

lemma less16E: "i < 16 \<Longrightarrow> i \<in> {0, 1, 2, 3, 4, 5, 6, 7, 8, 9, 10, 11, 12, 13, 14, 15 :: nat}"
  by (simp only: insert_iff empty_iff) arith

lemma format_uuid_inject:
  assumes "length bs = 16" and "length cs = 16" and "format_uuid bs = format_uuid cs"
  shows "bs = cs"
proof -
  have split2: "fmt_02x x @ u = fmt_02x y @ v \<longleftrightarrow> x = y \<and> u = v" for x y u v
  proof -
    have "length (fmt_02x x) = length (fmt_02x y)" by (simp add: fmt_02x_def)
    then show ?thesis by (simp add: append_eq_append_conv fmt_02x_inject)
  qed
  have "\<forall>i < 16. bs ! i = cs ! i"
    using assms(3) by (auto simp: format_uuid_def split2 fmt_02x_inject dest!: less16E)
  then show ?thesis using assms(1,2) by (simp add: list_eq_iff_nth_eq)
qed

lemma unat_div_drop_bit: "unat (w :: 8 word) div 2 ^ n = unat (drop_bit n w)"
  by (simp add: unat_drop_bit_eq drop_bit_eq_div [of n "unat w"])

lemma version_nibble: "unat ((b AND 0x0F) OR 0x40 :: 8 word) div 16 = 4"
proof -
  have "drop_bit 4 ((b AND 0x0F) OR 0x40 :: 8 word) = 4"
    by (rule bit_word_eqI) (auto simp: bit_simps numeral_eq_Suc less_Suc_eq)
  then show ?thesis using unat_div_drop_bit [of "(b AND 0x0F) OR 0x40" 4] by simp
qed

lemma variant_nibble: "unat ((b AND 0x3F) OR 0x80 :: 8 word) div 16 \<in> {8, 9, 10, 11}"
proof -
  have "drop_bit 6 ((b AND 0x3F) OR 0x80 :: 8 word) = 2"
    by (rule bit_word_eqI) (auto simp: bit_simps numeral_eq_Suc less_Suc_eq)
  then have "unat ((b AND 0x3F) OR 0x80 :: 8 word) div 64 = 2"
    using unat_div_drop_bit [of "(b AND 0x3F) OR 0x80" 6] by simp
  then show ?thesis by auto
qed

lemma hex_digit_values:
  "hex_digit 4 = CHR ''4''" "hex_digit 8 = CHR ''8''" "hex_digit 9 = CHR ''9''"
  "hex_digit 10 = CHR ''a''" "hex_digit 11 = CHR ''b''"
  by code_simp+

lemma set_version_bits_nth:
  assumes "length bytes = 16"
  shows "set_version_bits bytes ! 6 = (bytes ! 6 AND 0x0F) OR 0x40"
    and "set_version_bits bytes ! 8 = (bytes ! 8 AND 0x3F) OR 0x80"
  using assms by (simp_all add: set_version_bits_def Let_def)

lemma TaskId_Generate_version:
  assumes "length bytes = 16"
  shows "TaskId_Value (TaskId_Generate bytes) ! 14 = CHR ''4''"
  using version_nibble [of "bytes ! 6"] set_version_bits_nth [OF assms]
  by (simp add: TaskId_Generate_def format_uuid_def fmt_02x_def hex_digit_values)

lemma TaskId_Generate_variant:
  assumes "length bytes = 16"
  shows "TaskId_Value (TaskId_Generate bytes) ! 19 \<in> set ''89ab''"
  using variant_nibble [of "bytes ! 8"] set_version_bits_nth [OF assms]
  by (auto simp: TaskId_Generate_def format_uuid_def fmt_02x_def hex_digit_values)

lemma TaskId_Generate_eq_iff:
  assumes "length bytes = 16" and "length bytes' = 16"
  shows "TaskId_Generate bytes = TaskId_Generate bytes' \<longleftrightarrow>
    set_version_bits bytes = set_version_bits bytes'"
  using assms format_uuid_inject [of "set_version_bits bytes" "set_version_bits bytes'"]
  by (auto simp: TaskId_Generate_def set_version_bits_def Let_def)

text \<open>
  C32: an identifier generated from any sixteen bytes is accepted by the parser, carries the
  UUID version 4 and the variant bits at their two positions, and keeps all other bits: two
  byte arrays give the same identifier exactly when they agree outside the six fixed bits.
\<close>

theorem TaskId_Generate_uuid4:
  assumes "length bytes = 16" and "length bytes' = 16"
  shows "TaskId_Parse (TaskId_Value (TaskId_Generate bytes)) = PR_Ok (TaskId_Generate bytes) \<and>
    TaskId_Value (TaskId_Generate bytes) ! 14 = CHR ''4'' \<and>
    TaskId_Value (TaskId_Generate bytes) ! 19 \<in> set ''89ab'' \<and>
    (TaskId_Generate bytes = TaskId_Generate bytes' \<longleftrightarrow>
       set_version_bits bytes = set_version_bits bytes')"
proof (intro conjI)
  show "TaskId_Parse (TaskId_Value (TaskId_Generate bytes)) = PR_Ok (TaskId_Generate bytes)"
    by (simp add: TaskId_Generate_def)
qed (use assms TaskId_Generate_version TaskId_Generate_variant TaskId_Generate_eq_iff in blast)+

text \<open>Witness: the all-zero and an all-ones byte array.\<close>

theorem TaskId_Generate_uuid4_witness:
  "TaskId_Value (TaskId_Generate (replicate 16 0)) ! 14 = CHR ''4'' \<and>
   TaskId_Value (TaskId_Generate (replicate 16 0)) = ''00000000-0000-4000-8000-000000000000'' \<and>
   TaskId_Generate (replicate 16 0) \<noteq> TaskId_Generate (replicate 16 255)"
proof -
  have len: "length (replicate 16 (0 :: 8 word)) = 16" "length (replicate 16 (255 :: 8 word)) = 16"
    by simp_all
  have v: "TaskId_Value (TaskId_Generate (replicate 16 0)) = ''00000000-0000-4000-8000-000000000000''"
    by code_simp
  have "set_version_bits (replicate 16 0) ! 0 \<noteq> set_version_bits (replicate 16 255) ! 0"
    by (simp add: set_version_bits_def Let_def)
  then have "set_version_bits (replicate 16 0) \<noteq> set_version_bits (replicate 16 255)" by auto
  with v TaskId_Generate_uuid4 [OF len] show ?thesis by blast
qed

end
