(* ===== verification/Task_Status.thy ===== *)
theory Task_Status
  imports Prelude
begin

text \<open>
  The task states and their wire names: include/taskqueue/task_status.h and src/task_status.cc.
\<close>

datatype TaskStatus = kPending | kRunning | kSucceeded | kFailed | kRetrying | kDead

fun TaskStatusToString :: "TaskStatus \<Rightarrow> string" where
  "TaskStatusToString kPending = ''pending''"
| "TaskStatusToString kRunning = ''running''"
| "TaskStatusToString kSucceeded = ''succeeded''"
| "TaskStatusToString kFailed = ''failed''"
| "TaskStatusToString kRetrying = ''retrying''"
| "TaskStatusToString kDead = ''dead''"

definition TaskStatusFromString :: "string \<Rightarrow> TaskStatus ParseResult" where
  "TaskStatusFromString v =
     (if v = ''pending'' then PR_Ok kPending
      else if v = ''running'' then PR_Ok kRunning
      else if v = ''succeeded'' then PR_Ok kSucceeded
      else if v = ''failed'' then PR_Ok kFailed
      else if v = ''retrying'' then PR_Ok kRetrying
      else if v = ''dead'' then PR_Ok kDead
      else PR_Fail kPending (''unknown task status: '' @ v))"

lemma TaskStatusFromString_ToString [simp]: "TaskStatusFromString (TaskStatusToString st) = PR_Ok st"
  by (cases st) (simp_all add: TaskStatusFromString_def)

text \<open>
  The text form of a task status determines it, and the parser accepts exactly the six
  texts the printer produces; every other text is refused with an error that names it.
\<close>

theorem TaskStatus_text_roundtrip:
  "TaskStatusFromString v =
     (if v \<in> range TaskStatusToString then PR_Ok (inv TaskStatusToString v)
      else PR_Fail kPending (''unknown task status: '' @ v))"
proof (cases "v \<in> range TaskStatusToString")
  case True
  then obtain st where v: "v = TaskStatusToString st" by auto
  have "inj TaskStatusToString"
    by (rule injI) (metis PR_Ok_eq TaskStatusFromString_ToString)
  then show ?thesis by (simp add: v)
next
  case False
  then have "v \<noteq> TaskStatusToString st" for st by auto
  from this [of kPending] this [of kRunning] this [of kSucceeded] this [of kFailed]
    this [of kRetrying] this [of kDead] False
  show ?thesis by (simp add: TaskStatusFromString_def)
qed

end
