(* ===== verification/Task_Policy.thy ===== *)
theory Task_Policy
  imports Cxx_Numbers
begin

text \<open>
  The retry policy with its backoff computation (include/taskqueue/retry_policy.h,
  src/retry_policy.cc) and the validation of run-time settings (src/runtime_config.cc).
  \<^verbatim>\<open>ConfigValid\<close> is the unit type; \<^verbatim>\<open>std::chrono::milliseconds\<close> is its count.
\<close>

record RetryPolicy =
  max_retries :: int
  base_delay_ms :: int
  multiplier :: double

definition RetryPolicy_default :: RetryPolicy where
  "RetryPolicy_default = \<lparr>max_retries = 3, base_delay_ms = 1000, multiplier = DFin 2\<rparr>"

type_synonym ConfigValidation = "unit ParseResult"

definition ValidateRedisUri :: "string \<Rightarrow> ConfigValidation" where
  "ValidateRedisUri redis_uri =
     (if redis_uri = '''' then PR_Fail () ''redis uri must not be empty'' else PR_Ok ())"

definition ValidateWorkerConcurrency :: "nat \<Rightarrow> ConfigValidation" where
  "ValidateWorkerConcurrency concurrency =
     (if concurrency < 1 then PR_Fail () ''worker concurrency must be >= 1'' else PR_Ok ())"

definition ValidateVisibilityTimeout :: "int \<Rightarrow> ConfigValidation" where
  "ValidateVisibilityTimeout timeout =
     (if timeout \<le> 0 then PR_Fail () ''visibility timeout must be > 0'' else PR_Ok ())"

definition ValidatePollInterval :: "int \<Rightarrow> ConfigValidation" where
  "ValidatePollInterval interval =
     (if interval \<le> 0 then PR_Fail () ''poll interval must be > 0'' else PR_Ok ())"

definition ValidateRetryPolicy :: "RetryPolicy \<Rightarrow> ConfigValidation" where
  "ValidateRetryPolicy policy =
     (if max_retries policy < 0 then PR_Fail () ''retry max_retries must be >= 0''
      else if base_delay_ms policy < 0 then PR_Fail () ''retry base_delay_ms must be >= 0''
      else if dneg_p (multiplier policy) then PR_Fail () ''retry multiplier must be >= 0''
      else PR_Ok ())"

definition ValidateDelayMs :: "int \<Rightarrow> ConfigValidation" where
  "ValidateDelayMs delay_ms =
     (if delay_ms < 0 then PR_Fail () ''delay_ms must be >= 0'' else PR_Ok ())"

text \<open>The argument is what \<^verbatim>\<open>std::getenv("TASKQUEUE_REDIS_URI")\<close> returns.\<close>

definition DefaultRedisUriFromEnv :: "string option \<Rightarrow> string" where
  "DefaultRedisUriFromEnv env_uri =
     (case env_uri of
        Some uri \<Rightarrow> if uri \<noteq> '''' then uri else ''tcp://127.0.0.1:6379''
      | None \<Rightarrow> ''tcp://127.0.0.1:6379'')"

definition ComputeRetryDelayMs :: "RetryPolicy \<Rightarrow> int \<Rightarrow> exn + int" where
  "ComputeRetryDelayMs policy retry_count =
     (if retry_count \<le> 0 then Inr (base_delay_ms policy)
      else let delay = dmul (double_of_int (base_delay_ms policy))
                            (dpow (multiplier policy) (nat (retry_count - 1)))
           in double_to_i64 delay)"


lemma pr_Ok_ValidateRetryPolicy:
  "pr_Ok (ValidateRetryPolicy p) \<longleftrightarrow>
     0 \<le> max_retries p \<and> 0 \<le> base_delay_ms p \<and> \<not> dneg_p (multiplier p)"
  by (auto simp: ValidateRetryPolicy_def)

lemma DefaultRedisUriFromEnv_valid: "pr_Ok (ValidateRedisUri (DefaultRedisUriFromEnv e))"
  by (auto simp: ValidateRedisUri_def DefaultRedisUriFromEnv_def split: option.splits)

section \<open>Backoff\<close>

lemma int_pow2_1024: "2 ^ 1024 \<le> (2::int) ^ k \<longleftrightarrow> 1024 \<le> k"
  by (rule power_increasing_iff) simp

lemma dpow_two: "dpow (DFin 2) k = (if 1024 \<le> k then DInf else DFin (2 ^ k))"
proof (cases k)
  case (Suc j)
  have "rnd (of_int (1 * 2 ^ k)) = (if 1024 \<le> k then DInf else DFin (2 ^ k))"
    using rnd_int_shift [of 1 k] int_pow2_1024 [of k] by simp
  then show ?thesis by (simp add: Suc)
qed simp

lemma truncate_rat_int [simp]: "truncate_rat (of_int i) = i"
  by (simp add: truncate_rat_def)

text \<open>Doubling is exact in floating point, up to the conversion back to an integer.\<close>

lemma delay_doubling:
  assumes "multiplier p = DFin 2" and "0 < base_delay_ms p" and "base_delay_ms p < 2 ^ 53"
    and "0 < n"
  shows "ComputeRetryDelayMs p n =
    (if base_delay_ms p * 2 ^ nat (n - 1) < 2 ^ 63 then Inr (base_delay_ms p * 2 ^ nat (n - 1))
     else Inl (UndefinedBehaviour ''double to int64''))"
proof -
  let ?b = "base_delay_ms p" and ?k = "nat (n - 1)"
  have ge: "2 ^ ?k \<le> ?b * 2 ^ ?k" using assms(2) by simp
  have i64: "in_i64 (?b * 2 ^ ?k) \<longleftrightarrow> ?b * 2 ^ ?k < 2 ^ 63"
    using assms(2) by (auto simp: in_i64_def intro: order_trans [of _ 0])
  have dbl: "double_of_int ?b = DFin (of_int ?b)"
    using assms(2,3) by (simp add: double_of_int_exact)
  have "double_to_i64 (dmul (double_of_int ?b) (dpow (multiplier p) ?k)) =
    (if ?b * 2 ^ ?k < 2 ^ 63 then Inr (?b * 2 ^ ?k)
     else Inl (UndefinedBehaviour ''double to int64''))"
  proof (cases "1024 \<le> ?k")
    case True
    have "(2::int) ^ 63 < 2 ^ ?k" using True by (intro power_strict_increasing) auto
    then have "\<not> ?b * 2 ^ ?k < 2 ^ 63" using ge by linarith
    with True assms(1,2) show ?thesis by (simp add: dpow_two dbl)
  next
    case False
    have "dmul (double_of_int ?b) (dpow (multiplier p) ?k) =
      (if 2 ^ 1024 \<le> \<bar>?b * 2 ^ ?k\<bar> then DInf else DFin (of_int (?b * 2 ^ ?k)))"
      using False assms(1-3) rnd_int_shift [of ?b ?k] by (simp add: dpow_two dbl)
    moreover have "(2::int) ^ 63 < 2 ^ 1024" by (intro power_strict_increasing) auto
    ultimately show ?thesis
      using assms(2) by (auto simp: i64 simp del: of_int_mult of_int_power)
  qed
  with assms(4) show ?thesis by (simp add: ComputeRetryDelayMs_def Let_def)
qed

lemma dpow_not_neg: "\<not> dneg_p x \<Longrightarrow> \<not> dneg_p (dpow x k)"
  by (cases x; cases k) (simp_all add: rnd_not_neg not_less)

lemma dmul_not_neg: "\<not> dneg_p a \<Longrightarrow> \<not> dneg_p b \<Longrightarrow> \<not> dneg_p (dmul a b)"
  by (cases a; cases b) (simp_all add: rnd_not_neg not_less)

lemma double_to_i64_not_neg: "\<not> dneg_p x \<Longrightarrow> double_to_i64 x = Inr d \<Longrightarrow> 0 \<le> d"
  by (cases x) (auto simp: truncate_rat_def split: if_splits)

text \<open>Three roundings: of the base, of the power and of their product.\<close>

lemma product_error:
  fixes b w b' w' r e :: rat
  assumes "0 < b" "0 < w" "0 \<le> e" "e \<le> 1 / 8" and b': "\<bar>b' - b\<bar> \<le> b * e" and w': "\<bar>w' - w\<bar> \<le> w * e"
    and r: "\<bar>r - b' * w'\<bar> \<le> b' * w' * e"
  shows "\<bar>r - b * w\<bar> \<le> b * w * (4 * e)"
proof -
  have b2: "b * (1 - e) \<le> b'" "b' \<le> b * (1 + e)" using b' by (simp_all add: abs_le_iff algebra_simps)
  have w2: "w * (1 - e) \<le> w'" "w' \<le> w * (1 + e)" using w' by (simp_all add: abs_le_iff algebra_simps)
  have pos: "0 \<le> b * (1 - e)" "0 \<le> w * (1 - e)" using assms(1-4) by simp_all
  have lo: "b * (1 - e) * (w * (1 - e)) \<le> b' * w'" using b2 w2 pos by (intro mult_mono) auto
  have hi: "b' * w' \<le> b * (1 + e) * (w * (1 + e))" using b2 w2 pos by (intro mult_mono) auto
  have r2: "b' * w' * (1 - e) \<le> r" "r \<le> b' * w' * (1 + e)" using r by (simp_all add: abs_le_iff algebra_simps)
  have P: "0 < b * w" using assms(1,2) by simp
  have ee: "e * e \<le> e * (1 / 8)" "0 \<le> e * e" using mult_left_mono [OF assms(4,3)] assms(3) by simp_all
  have eee: "e * (e * e) \<le> e * (e * (1 / 8))" "0 \<le> e * (e * e)"
    using mult_left_mono [OF ee(1) assms(3)] assms(3) by simp_all
  have "(1 + e) * (1 + e) * (1 + e) = 1 + 3 * e + 3 * (e * e) + e * (e * e)" by (simp add: algebra_simps)
  then have up: "(1 + e) * (1 + e) * (1 + e) \<le> 1 + 4 * e" using ee eee assms(3) by linarith
  have "(1 - e) * (1 - e) * (1 - e) = 1 - 3 * e + 3 * (e * e) - e * (e * e)" by (simp add: algebra_simps)
  then have dn: "1 - 4 * e \<le> (1 - e) * (1 - e) * (1 - e)" using ee eee assms(3) by linarith
  have "r \<le> b * (1 + e) * (w * (1 + e)) * (1 + e)"
    using r2(2) hi assms(3) by (meson add_nonneg_nonneg mult_right_mono order_trans zero_le_one)
  also have "\<dots> = b * w * ((1 + e) * (1 + e) * (1 + e))" by (simp add: algebra_simps)
  also have "\<dots> \<le> b * w * (1 + 4 * e)" using up P by (intro mult_left_mono) auto
  finally have A: "r - b * w \<le> b * w * (4 * e)" by (simp add: algebra_simps)
  have "b * w * (1 - 4 * e) \<le> b * w * ((1 - e) * (1 - e) * (1 - e))" using dn P by (intro mult_left_mono) auto
  also have "\<dots> = b * (1 - e) * (w * (1 - e)) * (1 - e)" by (simp add: algebra_simps)
  also have "\<dots> \<le> b' * w' * (1 - e)" using lo assms(4) by (intro mult_right_mono) auto
  finally have "b * w * (1 - 4 * e) \<le> r" using r2(1) by simp
  with A show ?thesis by (simp add: abs_le_iff algebra_simps)
qed

lemma near_half: "\<bar>x' - x\<bar> \<le> x * (1 / 2 ^ 53) \<Longrightarrow> 1 \<le> x \<Longrightarrow> x / 2 \<le> (x' :: rat)"
proof -
  assume "\<bar>x' - x\<bar> \<le> x * (1 / 2 ^ 53)" and x: "1 \<le> x"
  moreover have "x * (1 / 2 ^ 53) \<le> x / 2" using x by simp
  ultimately show ?thesis by linarith
qed

text \<open>The delay as a double, for a multiplier of at least 1: near the exact product, unless that is huge.\<close>

lemma delay_double_error:
  fixes i :: int and q :: rat and k :: nat
  defines "P \<equiv> of_int i * q ^ k"
  assumes "0 < i" and "1 \<le> q"
  shows "2 ^ 64 < P \<and> dmul (double_of_int i) (dpow (DFin q) k) = DInf \<or>
    (\<exists>r. dmul (double_of_int i) (dpow (DFin q) k) = DFin r \<and> 0 \<le> r \<and> \<bar>r - P\<bar> \<le> P / 2 ^ 51)"
proof -
  let ?b = "of_int i :: rat" and ?w = "q ^ k" and ?e = "1 / 2 ^ 53 :: rat"
  have b: "1 \<le> ?b" and w: "1 \<le> ?w" using assms by simp_all
  have P: "?b \<le> P" "?w \<le> P"
    using mult_left_mono [OF w, of ?b] mult_right_mono [OF b, of ?w] b w by (simp_all add: P_def)
  have B: "2 ^ 64 < P \<and> double_of_int i = DInf \<or> (\<exists>b'. double_of_int i = DFin b' \<and> \<bar>b' - ?b\<bar> \<le> ?b * ?e)"
    using rnd_nonneg [of ?b] rnd_error [of ?b] rnd_finite [of ?b] b P(1) by (auto simp: double_of_int_def not_less)
  have W: "2 ^ 64 < P \<and> dpow (DFin q) k = DInf \<or> (\<exists>w'. dpow (DFin q) k = DFin w' \<and> \<bar>w' - ?w\<bar> \<le> ?w * ?e)"
    using rnd_nonneg [of ?w] rnd_error [of ?w] rnd_finite [of ?w] w P(2) by (cases k) (auto simp: not_less)
  show ?thesis
  proof (cases "double_of_int i = DInf \<or> dpow (DFin q) k = DInf")
    case True
    then show ?thesis using B W near_half [OF _ b] near_half [OF _ w] b w by fastforce
  next
    case False
    then obtain b' w' where b': "double_of_int i = DFin b'" "\<bar>b' - ?b\<bar> \<le> ?b * ?e"
      and w': "dpow (DFin q) k = DFin w'" "\<bar>w' - ?w\<bar> \<le> ?w * ?e" using B W by blast
    have "1 / 2 \<le> b'" "1 / 2 \<le> w'" using near_half [OF b'(2) b] near_half [OF w'(2) w] b w by linarith+
    then have p: "1 / 4 \<le> b' * w'" using mult_mono [of "1/2" b' "1/2" w'] by simp
    have e0: "0 \<le> ?e" "?e \<le> 1 / 8" by simp_all
    show ?thesis
    proof (cases "rnd (b' * w') = DInf")
      case True
      have "\<bar>b' * w' - P\<bar> \<le> P * (4 * ?e)"
        unfolding P_def using b w p by (intro product_error [OF _ _ e0 b'(2) w'(2)]) simp_all
      moreover have "P * (4 * ?e) \<le> P" using b P(1) by simp
      ultimately have "b' * w' \<le> 2 * P" by linarith
      moreover have "2 ^ 70 < b' * w'" using rnd_finite [OF p] True by (meson not_less)
      ultimately have "2 ^ 64 < P" by simp
      then show ?thesis using True b'(1) w'(1) by simp
    next
      case False
      then obtain r where r: "rnd (b' * w') = DFin r" "0 \<le> r"
        using rnd_nonneg [of "b' * w'"] p by fastforce
      have "\<bar>r - b' * w'\<bar> \<le> b' * w' * ?e" using rnd_error [OF p r(1)] by simp
      then have "\<bar>r - P\<bar> \<le> P * (4 * ?e)"
        unfolding P_def using b w by (intro product_error [OF _ _ e0 b'(2) w'(2)]) simp_all
      then show ?thesis using r b'(1) w'(1) by simp
    qed
  qed
qed

lemma delay_near:
  fixes p n
  defines "P q \<equiv> of_int (base_delay_ms p) * q ^ nat (n - 1)"
  assumes "0 < n" and "0 < base_delay_ms p" and "multiplier p = DFin q" and "1 \<le> q"
  shows "ComputeRetryDelayMs p n = Inr d \<Longrightarrow> \<bar>of_int d - P q\<bar> \<le> P q / 2 ^ 51 + 1"
    and "P q \<le> 2 ^ 63 - 2 ^ 13 \<Longrightarrow> \<exists>d. ComputeRetryDelayMs p n = Inr d"
    and "2 ^ 63 + 2 ^ 13 \<le> P q \<Longrightarrow> ComputeRetryDelayMs p n = Inl (UndefinedBehaviour ''double to int64'')"
proof -
  let ?x = "dmul (double_of_int (base_delay_ms p)) (dpow (DFin q) (nat (n - 1)))"
  have c: "ComputeRetryDelayMs p n = double_to_i64 ?x"
    using assms(2,4) by (simp add: ComputeRetryDelayMs_def Let_def)
  have x: "2 ^ 64 < P q \<and> ?x = DInf \<or> (\<exists>r. ?x = DFin r \<and> 0 \<le> r \<and> \<bar>r - P q\<bar> \<le> P q / 2 ^ 51)"
    unfolding P_def by (rule delay_double_error [OF assms(3,5)])
  have t: "of_int (truncate_rat r) \<le> r" "r < of_int (truncate_rat r) + 1" "0 \<le> truncate_rat r" if "0 \<le> r" for r
    using that floor_correct [of r] by (simp_all add: truncate_rat_def)
  show "\<bar>of_int d - P q\<bar> \<le> P q / 2 ^ 51 + 1" if d: "ComputeRetryDelayMs p n = Inr d"
  proof -
    obtain r where r: "?x = DFin r" "0 \<le> r" "\<bar>r - P q\<bar> \<le> P q / 2 ^ 51"
      using x d unfolding c by auto
    then have "d = truncate_rat r" using d c by (simp split: if_splits)
    then show ?thesis using t [OF r(2)] r(3) by linarith
  qed
  show "\<exists>d. ComputeRetryDelayMs p n = Inr d" if le: "P q \<le> 2 ^ 63 - 2 ^ 13"
  proof -
    obtain r where r: "?x = DFin r" "0 \<le> r" "\<bar>r - P q\<bar> \<le> P q / 2 ^ 51" using x le by auto
    have "P q / 2 ^ 51 \<le> 2 ^ 12" using le by simp
    then have "r \<le> 2 ^ 63 - 2 ^ 13 + 2 ^ 12" using r(3) le by linarith
    then have "r < 2 ^ 63" by simp
    then have "of_int (truncate_rat r) < (2 :: rat) ^ 63" using t(1) [OF r(2)] by linarith
    then have "truncate_rat r < 2 ^ 63" by (metis of_int_less_iff of_int_numeral of_int_power)
    then show ?thesis using c r(1) t(3) [OF r(2)] by (simp add: in_i64_def)
  qed
  show "ComputeRetryDelayMs p n = Inl (UndefinedBehaviour ''double to int64'')" if "2 ^ 63 + 2 ^ 13 \<le> P q"
    using x
  proof (elim disjE exE conjE)
    fix r assume r: "?x = DFin r" "0 \<le> r" "\<bar>r - P q\<bar> \<le> P q / 2 ^ 51"
    have "P q - P q / 2 ^ 51 \<le> r" using r(3) by linarith
    then have "2 ^ 63 + 1 \<le> r" using that by simp
    then have "(2 :: rat) ^ 63 \<le> of_int (truncate_rat r)" using t(2) [OF r(2)] by linarith
    then have "2 ^ 63 \<le> truncate_rat r" by (metis of_int_le_iff of_int_numeral of_int_power)
    then show ?thesis using c r(1) by (simp add: in_i64_def)
  qed (simp add: c)
qed

text \<open>Where the base, the power and their product are doubles, nothing is rounded.\<close>

lemma delay_exact:
  fixes p n
  defines "w q \<equiv> q ^ nat (n - 1)" and "b \<equiv> of_int (base_delay_ms p)"
  assumes "0 < n" and "multiplier p = DFin q" and "0 \<le> b * w q" and "b * w q < 2 ^ 63"
    and "rnd b = DFin b" and "rnd (w q) = DFin (w q)" and "rnd (b * w q) = DFin (b * w q)"
  shows "ComputeRetryDelayMs p n = Inr \<lfloor>b * w q\<rfloor>"
proof -
  have "dpow (DFin q) (nat (n - 1)) = DFin (w q)" using assms(8) by (cases "nat (n - 1)") (simp_all add: w_def)
  moreover have "\<lfloor>b * w q\<rfloor> < 2 ^ 63" using assms(6) by (simp add: floor_less_iff)
  ultimately show ?thesis
    using assms(3-5,7,9)
    by (simp add: ComputeRetryDelayMs_def Let_def double_of_int_def b_def truncate_rat_def in_i64_def
        le_floor_iff)
qed



text \<open>
  C31: no bound is put on the growth. With multiplier 2 and a base below \<open>2^53\<close> the delay becomes
  unrepresentable as soon as \<open>base * 2^(n-1)\<close> reaches \<open>2^63\<close>, with any other multiplier of at least 1 at the
  latest when \<open>base * multiplier^(n-1)\<close> reaches \<open>2^63 + 2^13\<close>: the conversion of the floating-point value
  to a 64-bit integer is undefined there. Validation accepts such a policy.
\<close>

theorem ComputeRetryDelayMs_overflow:
  assumes "0 < n" and "0 < base_delay_ms p"
    and "multiplier p = DFin 2 \<and> base_delay_ms p < 2 ^ 53 \<and> 2 ^ 63 \<le> base_delay_ms p * 2 ^ nat (n - 1) \<or>
      multiplier p = DFin q \<and> 1 \<le> q \<and> 2 ^ 63 + 2 ^ 13 \<le> of_int (base_delay_ms p) * q ^ nat (n - 1)"
  shows "ComputeRetryDelayMs p n = Inl (UndefinedBehaviour ''double to int64'')"
  using assms(3)
proof (elim disjE conjE)
  assume "multiplier p = DFin 2" "base_delay_ms p < 2 ^ 53" "2 ^ 63 \<le> base_delay_ms p * 2 ^ nat (n - 1)"
  then show ?thesis using delay_doubling [of p n] assms(1,2) by simp
next
  assume "multiplier p = DFin q" "1 \<le> q" "2 ^ 63 + 2 ^ 13 \<le> of_int (base_delay_ms p) * q ^ nat (n - 1)"
  then show ?thesis using delay_near(3) [OF assms(1,2)] by blast
qed

theorem ComputeRetryDelayMs_overflow_witness:
  "pr_Ok (ValidateRetryPolicy (RetryPolicy_default\<lparr>max_retries := 60\<rparr>)) \<and>
   ComputeRetryDelayMs (RetryPolicy_default\<lparr>max_retries := 60\<rparr>) 55 =
     Inl (UndefinedBehaviour ''double to int64'') \<and>
   ComputeRetryDelayMs (RetryPolicy_default\<lparr>max_retries := 60, multiplier := DFin 3\<rparr>) 36 =
     Inl (UndefinedBehaviour ''double to int64'')"
proof -
  let ?p = "RetryPolicy_default\<lparr>max_retries := 60\<rparr>" and ?q = "RetryPolicy_default\<lparr>max_retries := 60, multiplier := DFin 3\<rparr>"
  have "ComputeRetryDelayMs ?p 55 = Inl (UndefinedBehaviour ''double to int64'')"
    by (rule ComputeRetryDelayMs_overflow [where q = 2]) (simp_all add: RetryPolicy_default_def)
  moreover have "ComputeRetryDelayMs ?q 36 = Inl (UndefinedBehaviour ''double to int64'')"
    by (rule ComputeRetryDelayMs_overflow [where q = 3]) (simp_all add: RetryPolicy_default_def)
  ultimately show ?thesis by (simp add: pr_Ok_ValidateRetryPolicy RetryPolicy_default_def)
qed

end
