(* ===== verification/Json.thy ===== *)
theory Json
  imports Cxx_Numbers
begin

text \<open>
  JSON values as the sources use them through \<^verbatim>\<open>nlohmann::json\<close>: the value kinds with the
  queries and conversions of the library's interface. An object is a \<^verbatim>\<open>std::map\<close>, kept as an
  association list sorted by key; the library's two integer kinds are one. The functions that
  read and write JSON text are not defined here: they are parameters (theory Wire).
\<close>

datatype json =
    JNull
  | JBool bool
  | JInt int
  | JFloat double
  | JString string
  | JArray "json list"
  | JObject "(string \<times> json) list"

fun is_object :: "json \<Rightarrow> bool" where
  "is_object (JObject _) = True"
| "is_object _ = False"

fun is_string :: "json \<Rightarrow> bool" where
  "is_string (JString _) = True"
| "is_string _ = False"

fun is_boolean :: "json \<Rightarrow> bool" where
  "is_boolean (JBool _) = True"
| "is_boolean _ = False"

fun is_null :: "json \<Rightarrow> bool" where
  "is_null JNull = True"
| "is_null _ = False"

fun is_number_integer :: "json \<Rightarrow> bool" where
  "is_number_integer (JInt _) = True"
| "is_number_integer _ = False"

fun is_number :: "json \<Rightarrow> bool" where
  "is_number (JInt _) = True"
| "is_number (JFloat _) = True"
| "is_number _ = False"

definition json_find :: "json \<Rightarrow> string \<Rightarrow> json option" where
  "json_find j k = (case j of JObject kvs \<Rightarrow> map_of kvs k | _ \<Rightarrow> None)"

definition contains :: "json \<Rightarrow> string \<Rightarrow> bool" where
  "contains j k \<longleftrightarrow> json_find j k \<noteq> None"

text \<open>\<open>json_at\<close> is only read where \<open>contains\<close> holds; \<open>at_exn\<close> is the throwing form.\<close>

definition json_at :: "json \<Rightarrow> string \<Rightarrow> json" where
  "json_at j k = (case json_find j k of Some v \<Rightarrow> v | None \<Rightarrow> JNull)"

definition at_exn :: "json \<Rightarrow> string \<Rightarrow> exn + json" where
  "at_exn j k = (case json_find j k of Some v \<Rightarrow> Inr v | None \<Rightarrow> Inl (JsonError k))"

text \<open>Conversions of arithmetic values are \<^verbatim>\<open>static_cast\<close>s: integers are reduced modulo.\<close>

fun get_int64 :: "json \<Rightarrow> int" where
  "get_int64 (JInt i) = to_i64 i"
| "get_int64 _ = 0"

fun get_int :: "json \<Rightarrow> int" where
  "get_int (JInt i) = to_i32 i"
| "get_int _ = 0"

fun get_double :: "json \<Rightarrow> double" where
  "get_double (JInt i) = double_of_int i"
| "get_double (JFloat d) = d"
| "get_double _ = DFin 0"

fun get_string :: "json \<Rightarrow> string" where
  "get_string (JString s) = s"
| "get_string _ = ''''"

fun get_bool :: "json \<Rightarrow> bool" where
  "get_bool (JBool b) = b"
| "get_bool _ = False"

definition json_object :: "(string \<times> json) list \<Rightarrow> json" where
  "json_object kvs = JObject (sbuild kvs)"

fun json_put :: "string \<Rightarrow> json \<Rightarrow> json \<Rightarrow> json" where
  "json_put k v (JObject kvs) = JObject (sput k v kvs)"
| "json_put k v j = j"

abbreviation empty_object :: json where
  "empty_object \<equiv> JObject []"

lemma json_find_put [simp]:
  "is_object j \<Longrightarrow> json_find (json_put k v j) k' = (if k' = k then Some v else json_find j k')"
  by (cases j) (simp_all add: json_find_def)

lemma is_object_put [simp]: "is_object (json_put k v j) = is_object j"
  by (cases j) simp_all

lemma is_object_json_object [simp]: "is_object (json_object kvs)"
  by (simp add: json_object_def)

lemma map_of_foldl_sput:
  "map_of (foldl (\<lambda>m (k, v). sput k v m) m kvs) k =
     (case map_of (rev kvs) k of Some v \<Rightarrow> Some v | None \<Rightarrow> map_of m k)"
proof (induction kvs arbitrary: m)
  case (Cons p kvs)
  obtain a b where [simp]: "p = (a, b)" by (cases p)
  from Cons show ?case by (auto simp: map_add_def split: option.splits)
qed simp

lemma json_find_object [simp]: "json_find (json_object kvs) k = map_of (rev kvs) k"
  by (simp add: json_find_def json_object_def sbuild_def map_of_foldl_sput split: option.splits)

end
