(* ===== verification/Task_Message.thy ===== *)
theory Task_Message
  imports Task_Id Task_Status Task_Policy Json
begin

text \<open>
  The task message and its constructors (include/taskqueue/task_message.h,
  src/task_message.cc) and the handler's result (src/task_result.cc). The clock reading and
  the random bytes a constructor draws are arguments.
\<close>

record TaskMessage =
  m_id :: TaskId
  m_name :: string
  m_payload :: json
  m_status :: TaskStatus
  m_retry_count :: int
  m_retry_policy :: RetryPolicy
  m_created_at_ms :: int
  m_run_at_ms :: "int option"
  m_reserved_at_ms :: "int option"
  m_last_error :: string

definition TaskMessage_default :: TaskMessage where
  "TaskMessage_default =
     \<lparr>m_id = TaskId '''', m_name = '''', m_payload = empty_object, m_status = kPending,
      m_retry_count = 0, m_retry_policy = RetryPolicy_default, m_created_at_ms = 0,
      m_run_at_ms = None, m_reserved_at_ms = None, m_last_error = ''''\<rparr>"

definition TaskMessage_Create :: "8 word list \<Rightarrow> int \<Rightarrow> string \<Rightarrow> json \<Rightarrow> TaskMessage" where
  "TaskMessage_Create bytes now_ms name payload =
     TaskMessage_default\<lparr>m_id := TaskId_Generate bytes, m_name := name, m_payload := payload,
       m_status := kPending, m_retry_count := 0, m_retry_policy := RetryPolicy_default,
       m_created_at_ms := now_ms, m_last_error := ''''\<rparr>"

definition TaskMessage_CreateWithDelay ::
    "8 word list \<Rightarrow> int \<Rightarrow> string \<Rightarrow> json \<Rightarrow> int \<Rightarrow> exn + TaskMessage" where
  "TaskMessage_CreateWithDelay bytes now_ms name payload delay_ms =
     (let validation = ValidateDelayMs delay_ms
      in if \<not> pr_Ok validation then Inl (InvalidArgument (pr_error validation))
         else let message = TaskMessage_Create bytes now_ms name payload
              in bind_sum (add_i64 (m_created_at_ms message) delay_ms)
                   (\<lambda>run_at. Inr (message\<lparr>m_run_at_ms := Some run_at\<rparr>)))"

definition ShouldRetry :: "TaskMessage \<Rightarrow> bool" where
  "ShouldRetry task \<longleftrightarrow> m_retry_count task < max_retries (m_retry_policy task)"

record TaskResult =
  tr_success :: bool
  tr_payload :: json
  tr_error_message :: string

definition TaskResult_default :: TaskResult where
  "TaskResult_default = \<lparr>tr_success = False, tr_payload = empty_object, tr_error_message = ''''\<rparr>"

definition TaskResult_Success :: "json \<Rightarrow> TaskResult" where
  "TaskResult_Success payload = TaskResult_default\<lparr>tr_success := True, tr_payload := payload\<rparr>"

definition TaskResult_Failure :: "string \<Rightarrow> TaskResult" where
  "TaskResult_Failure message =
     TaskResult_default\<lparr>tr_success := False, tr_error_message := message\<rparr>"

text \<open>The messages whose fields are in the range of their C++ types.\<close>

definition in_range_message :: "TaskMessage \<Rightarrow> bool" where
  "in_range_message m \<longleftrightarrow>
     in_i32 (m_retry_count m) \<and> in_i32 (max_retries (m_retry_policy m)) \<and>
     in_i64 (base_delay_ms (m_retry_policy m)) \<and> in_i64 (m_created_at_ms m) \<and>
     pred_option in_i64 (m_run_at_ms m) \<and> pred_option in_i64 (m_reserved_at_ms m)"

end
