(* ===== verification/Task_Json.thy ===== *)
theory Task_Json
  imports Task_Message
begin

text \<open>
  The wire format of messages, results and retry policies: src/task_json.cc. The text-level
  entry point \<^verbatim>\<open>TaskMessageFromJsonString\<close> is in theory Wire, where JSON text is available.
\<close>

definition kTaskSchemaVersion :: int where
  "kTaskSchemaVersion = 1"

section \<open>Field parsers\<close>

definition RequireField :: "json \<Rightarrow> string \<Rightarrow> unit ParseResult" where
  "RequireField j key =
     (if \<not> contains j key then PR_Fail () (''missing required field: '' @ key) else PR_Ok ())"

definition ParseInt64Field :: "json \<Rightarrow> string \<Rightarrow> int ParseResult" where
  "ParseInt64Field j key =
     (let check = RequireField j key
      in if \<not> pr_Ok check then PR_Fail 0 (pr_error check)
         else if \<not> is_number_integer (json_at j key) then PR_Fail 0 (''field must be int: '' @ key)
         else PR_Ok (get_int64 (json_at j key)))"

definition ParseIntField :: "json \<Rightarrow> string \<Rightarrow> int ParseResult" where
  "ParseIntField j key =
     (let check = RequireField j key
      in if \<not> pr_Ok check then PR_Fail 0 (pr_error check)
         else if \<not> is_number_integer (json_at j key) then PR_Fail 0 (''field must be int: '' @ key)
         else PR_Ok (get_int (json_at j key)))"

definition ParseDoubleField :: "json \<Rightarrow> string \<Rightarrow> double ParseResult" where
  "ParseDoubleField j key =
     (let check = RequireField j key
      in if \<not> pr_Ok check then PR_Fail (DFin 0) (pr_error check)
         else if \<not> is_number (json_at j key) then PR_Fail (DFin 0) (''field must be number: '' @ key)
         else PR_Ok (get_double (json_at j key)))"

definition ParseStringField :: "json \<Rightarrow> string \<Rightarrow> string ParseResult" where
  "ParseStringField j key =
     (let check = RequireField j key
      in if \<not> pr_Ok check then PR_Fail '''' (pr_error check)
         else if \<not> is_string (json_at j key) then PR_Fail '''' (''field must be string: '' @ key)
         else PR_Ok (get_string (json_at j key)))"

definition ParseTaskSchemaVersion :: "json \<Rightarrow> int ParseResult" where
  "ParseTaskSchemaVersion j =
     (if \<not> contains j ''schema_version'' then PR_Ok kTaskSchemaVersion
      else if \<not> is_number_integer (json_at j ''schema_version'')
      then PR_Fail 0 ''schema_version must be an integer''
      else let version = get_int (json_at j ''schema_version'')
           in if version > kTaskSchemaVersion
              then PR_Fail 0 (''unsupported task schema_version: '' @ to_string version @
                     '' (max supported: '' @ to_string kTaskSchemaVersion @ '')'')
              else if version < kTaskSchemaVersion
              then PR_Fail 0 (''unsupported task schema_version: '' @ to_string version)
              else PR_Ok version)"

section \<open>Retry policies\<close>

definition RetryPolicy_ToJson :: "RetryPolicy \<Rightarrow> json" where
  "RetryPolicy_ToJson policy =
     json_object [(''max_retries'', JInt (max_retries policy)),
                  (''base_delay_ms'', JInt (base_delay_ms policy)),
                  (''multiplier'', JFloat (multiplier policy))]"

definition RetryPolicyFromJson :: "json \<Rightarrow> RetryPolicy ParseResult" where
  "RetryPolicyFromJson j =
     (let Fail = PR_Fail RetryPolicy_default
      in if \<not> is_object j then Fail ''retry_policy must be an object''
         else let mr = ParseIntField j ''max_retries''
              in if \<not> pr_Ok mr then Fail (pr_error mr)
         else let bd = ParseInt64Field j ''base_delay_ms''
              in if \<not> pr_Ok bd then Fail (pr_error bd)
         else let mu = ParseDoubleField j ''multiplier''
              in if \<not> pr_Ok mu then Fail (pr_error mu)
         else let policy = \<lparr>max_retries = pr_value mr, base_delay_ms = pr_value bd,
                            multiplier = pr_value mu\<rparr>;
                  validation = ValidateRetryPolicy policy
              in if \<not> pr_Ok validation then Fail (pr_error validation)
         else PR_Ok policy)"

section \<open>Results\<close>

definition TaskResult_ToJson :: "TaskResult \<Rightarrow> json" where
  "TaskResult_ToJson result =
     json_object [(''success'', JBool (tr_success result)),
                  (''payload'', tr_payload result),
                  (''error_message'', JString (tr_error_message result))]"

definition TaskResultFromJson :: "json \<Rightarrow> TaskResult ParseResult" where
  "TaskResultFromJson j =
     (let Fail = PR_Fail TaskResult_default
      in if \<not> is_object j then Fail ''task result must be an object''
         else let success_check = RequireField j ''success''
              in if \<not> pr_Ok success_check then Fail (pr_error success_check)
         else if \<not> is_boolean (json_at j ''success'') then Fail ''success must be a boolean''
         else if \<not> contains j ''payload'' then Fail ''missing required field: payload''
         else let em = ParseStringField j ''error_message''
              in if \<not> pr_Ok em then Fail (pr_error em)
         else PR_Ok \<lparr>tr_success = get_bool (json_at j ''success''),
                     tr_payload = json_at j ''payload'',
                     tr_error_message = pr_value em\<rparr>)"

section \<open>Messages\<close>

definition TaskMessage_ToJson :: "TaskMessage \<Rightarrow> json" where
  "TaskMessage_ToJson m =
     (let j = json_object
                [(''schema_version'', JInt kTaskSchemaVersion),
                 (''id'', JString (TaskId_Value (m_id m))),
                 (''name'', JString (m_name m)),
                 (''payload'', m_payload m),
                 (''status'', JString (TaskStatusToString (m_status m))),
                 (''retry_count'', JInt (m_retry_count m)),
                 (''retry_policy'', RetryPolicy_ToJson (m_retry_policy m)),
                 (''created_at_ms'', JInt (m_created_at_ms m))];
          j = (case m_run_at_ms m of Some t \<Rightarrow> json_put ''run_at_ms'' (JInt t) j | None \<Rightarrow> j);
          j = (if m_last_error m \<noteq> '''' then json_put ''last_error'' (JString (m_last_error m)) j else j)
      in (case m_reserved_at_ms m of
            Some t \<Rightarrow> json_put ''reserved_at_ms'' (JInt t) j | None \<Rightarrow> j))"

text \<open>
  An optional integer field: absent, an integer, or an error with the given text (the inline
  checks of \<^verbatim>\<open>run_at_ms\<close> and \<^verbatim>\<open>reserved_at_ms\<close>).
\<close>

definition optional_int64 :: "json \<Rightarrow> string \<Rightarrow> string \<Rightarrow> int option ParseResult" where
  "optional_int64 j key message =
     (if contains j key
      then if \<not> is_number_integer (json_at j key) then PR_Fail None message
           else PR_Ok (Some (get_int64 (json_at j key)))
      else PR_Ok None)"

definition optional_string :: "json \<Rightarrow> string \<Rightarrow> string ParseResult" where
  "optional_string j key = (if contains j key then ParseStringField j key else PR_Ok '''')"

definition TaskMessageFromJson :: "json \<Rightarrow> TaskMessage ParseResult" where
  "TaskMessageFromJson j =
     (let Fail = PR_Fail TaskMessage_default
      in if \<not> is_object j then Fail ''task message must be an object''
         else let version = ParseTaskSchemaVersion j
              in if \<not> pr_Ok version then Fail (pr_error version)
         else let id_string = ParseStringField j ''id''
              in if \<not> pr_Ok id_string then Fail (pr_error id_string)
         else let tid = TaskId_Parse (pr_value id_string)
              in if \<not> pr_Ok tid then Fail (pr_error tid)
         else let name = ParseStringField j ''name''
              in if \<not> pr_Ok name then Fail (pr_error name)
         else if \<not> contains j ''payload'' then Fail ''missing required field: payload''
         else let status_string = ParseStringField j ''status''
              in if \<not> pr_Ok status_string then Fail (pr_error status_string)
         else let status = TaskStatusFromString (pr_value status_string)
              in if \<not> pr_Ok status then Fail (pr_error status)
         else let retry_count = ParseIntField j ''retry_count''
              in if \<not> pr_Ok retry_count then Fail (pr_error retry_count)
         else if \<not> contains j ''retry_policy'' then Fail ''missing required field: retry_policy''
         else let retry_policy = RetryPolicyFromJson (json_at j ''retry_policy'')
              in if \<not> pr_Ok retry_policy then Fail (pr_error retry_policy)
         else let created_at = ParseInt64Field j ''created_at_ms''
              in if \<not> pr_Ok created_at then Fail (pr_error created_at)
         else let run_at = optional_int64 j ''run_at_ms'' ''run_at_ms must be an integer''
              in if \<not> pr_Ok run_at then Fail (pr_error run_at)
         else let last_error = optional_string j ''last_error''
              in if \<not> pr_Ok last_error then Fail (pr_error last_error)
         else let reserved_at =
                    optional_int64 j ''reserved_at_ms'' ''reserved_at_ms must be an integer''
              in if \<not> pr_Ok reserved_at then Fail (pr_error reserved_at)
         else PR_Ok \<lparr>m_id = pr_value tid, m_name = pr_value name,
                     m_payload = json_at j ''payload'', m_status = pr_value status,
                     m_retry_count = pr_value retry_count,
                     m_retry_policy = pr_value retry_policy,
                     m_created_at_ms = pr_value created_at, m_run_at_ms = pr_value run_at,
                     m_reserved_at_ms = pr_value reserved_at,
                     m_last_error = pr_value last_error\<rparr>)"

section \<open>Correctness of the field parsers\<close>

lemma contains_iff: "contains j k \<longleftrightarrow> (\<exists>v. json_find j k = Some v)"
  by (simp add: contains_def)

lemma json_at_find [simp]: "json_find j k = Some v \<Longrightarrow> json_at j k = v"
  by (simp add: json_at_def)

lemmas field_defs =
  RequireField_def ParseInt64Field_def ParseIntField_def ParseDoubleField_def
  ParseStringField_def ParseTaskSchemaVersion_def optional_int64_def optional_string_def
  contains_def Let_def

lemma parse_field_simps:
  "json_find j k = Some (JInt i) \<Longrightarrow> ParseInt64Field j k = PR_Ok (to_i64 i)"
  "json_find j k = Some (JInt i) \<Longrightarrow> ParseIntField j k = PR_Ok (to_i32 i)"
  "json_find j k = Some (JFloat d) \<Longrightarrow> ParseDoubleField j k = PR_Ok d"
  "json_find j k = Some (JString s) \<Longrightarrow> ParseStringField j k = PR_Ok s"
  "json_find j k = None \<Longrightarrow> optional_int64 j k msg = PR_Ok None"
  "json_find j k = Some (JInt i) \<Longrightarrow> optional_int64 j k msg = PR_Ok (Some (to_i64 i))"
  "json_find j k = None \<Longrightarrow> optional_string j k = PR_Ok ''''"
  "json_find j k = Some (JString s) \<Longrightarrow> optional_string j k = PR_Ok s"
  by (simp_all add: field_defs)

lemma parse_int_missing:
  "json_find j k = None \<Longrightarrow> ParseIntField j k = PR_Fail 0 (''missing required field: '' @ k)"
  "json_find j k = None \<Longrightarrow> ParseInt64Field j k = PR_Fail 0 (''missing required field: '' @ k)"
  "json_find j k = None \<Longrightarrow> ParseDoubleField j k = PR_Fail (DFin 0) (''missing required field: '' @ k)"
  "json_find j k = None \<Longrightarrow> ParseStringField j k = PR_Fail '''' (''missing required field: '' @ k)"
  by (simp_all add: field_defs)

lemma RetryPolicyFromJson_ToJson:
  assumes "in_i32 (max_retries p)" and "in_i64 (base_delay_ms p)" and "pr_Ok (ValidateRetryPolicy p)"
  shows "RetryPolicyFromJson (RetryPolicy_ToJson p) = PR_Ok p"
  using assms
  by (cases p) (simp add: RetryPolicyFromJson_def RetryPolicy_ToJson_def parse_field_simps Let_def)

lemma TaskResultFromJson_ToJson: "TaskResultFromJson (TaskResult_ToJson r) = PR_Ok r"
  by (simp add: TaskResultFromJson_def TaskResult_ToJson_def parse_field_simps RequireField_def
      contains_def Let_def)

lemma find_TaskMessage_ToJson:
  "json_find (TaskMessage_ToJson m) k =
     (if k = ''schema_version'' then Some (JInt kTaskSchemaVersion)
      else if k = ''id'' then Some (JString (TaskId_Value (m_id m)))
      else if k = ''name'' then Some (JString (m_name m))
      else if k = ''payload'' then Some (m_payload m)
      else if k = ''status'' then Some (JString (TaskStatusToString (m_status m)))
      else if k = ''retry_count'' then Some (JInt (m_retry_count m))
      else if k = ''retry_policy'' then Some (RetryPolicy_ToJson (m_retry_policy m))
      else if k = ''created_at_ms'' then Some (JInt (m_created_at_ms m))
      else if k = ''run_at_ms'' then map_option JInt (m_run_at_ms m)
      else if k = ''last_error'' then
        (if m_last_error m = '''' then None else Some (JString (m_last_error m)))
      else if k = ''reserved_at_ms'' then map_option JInt (m_reserved_at_ms m)
      else None)"
  by (simp add: TaskMessage_ToJson_def Let_def split: option.splits)

lemma is_object_TaskMessage_ToJson [simp]: "is_object (TaskMessage_ToJson m)"
  by (simp add: TaskMessage_ToJson_def Let_def split: option.splits)

text \<open>The messages the parser gives back unchanged.\<close>

definition wire_message :: "TaskMessage \<Rightarrow> bool" where
  "wire_message m \<longleftrightarrow>
     in_range_message m \<and> IsValidUuidFormat (TaskId_Value (m_id m)) \<and>
     pr_Ok (ValidateRetryPolicy (m_retry_policy m))"

lemma ParseTaskSchemaVersion_ToJson: "ParseTaskSchemaVersion (TaskMessage_ToJson m) = PR_Ok 1"
  by (simp add: ParseTaskSchemaVersion_def contains_def find_TaskMessage_ToJson json_at_def
      kTaskSchemaVersion_def in_i32_def)

lemma optional_ToJson:
  "pred_option in_i64 (m_run_at_ms m) \<Longrightarrow>
     optional_int64 (TaskMessage_ToJson m) ''run_at_ms'' e = PR_Ok (m_run_at_ms m)"
  "pred_option in_i64 (m_reserved_at_ms m) \<Longrightarrow>
     optional_int64 (TaskMessage_ToJson m) ''reserved_at_ms'' e = PR_Ok (m_reserved_at_ms m)"
  "optional_string (TaskMessage_ToJson m) ''last_error'' = PR_Ok (m_last_error m)"
  by (auto simp: optional_int64_def optional_string_def contains_def find_TaskMessage_ToJson
      json_at_def ParseStringField_def RequireField_def split: option.splits)

lemma message_roundtrip:
  assumes "wire_message m"
  shows "TaskMessageFromJson (TaskMessage_ToJson m) = PR_Ok m"
  using assms unfolding wire_message_def in_range_message_def
  by (cases m) (simp add: TaskMessageFromJson_def ParseTaskSchemaVersion_ToJson optional_ToJson
      parse_field_simps find_TaskMessage_ToJson contains_def RetryPolicyFromJson_ToJson)

text \<open>
  C28: a message survives its own wire format. For every message whose numbers are in the range
  of their C++ types, whose identifier is a UUID and whose retry policy passes validation,
  parsing the serialised form gives the message back, field by field.
\<close>

theorem TaskMessage_json_roundtrip:
  assumes "wire_message m"
  shows "TaskMessageFromJson (TaskMessage_ToJson m) = PR_Ok m"
  using assms by (rule message_roundtrip)

definition sample_message :: TaskMessage where
  "sample_message =
     TaskMessage_Create (replicate 16 0) 1700000000000 ''add''
       (JObject [(''a'', JInt 2), (''b'', JInt 3)])"

lemma wire_message_sample: "wire_message sample_message"
  by (simp add: wire_message_def sample_message_def TaskMessage_Create_def in_range_message_def
      TaskId_Generate_def TaskMessage_default_def RetryPolicy_default_def
      pr_Ok_ValidateRetryPolicy in_i32_def in_i64_def)

theorem TaskMessage_json_roundtrip_witness:
  "TaskMessageFromJson (TaskMessage_ToJson sample_message) = PR_Ok sample_message"
  by (rule TaskMessage_json_roundtrip) (rule wire_message_sample)

lemma pr_Ok_field:
  "pr_Ok (ParseStringField j k) \<longleftrightarrow> (\<exists>s. json_find j k = Some (JString s))"
  "pr_Ok (ParseIntField j k) \<longleftrightarrow> (\<exists>i. json_find j k = Some (JInt i))"
  "pr_Ok (ParseInt64Field j k) \<longleftrightarrow> (\<exists>i. json_find j k = Some (JInt i))"
  subgoal by (cases "json_find j k"; cases "json_at j k") (auto simp: field_defs json_at_def)
  subgoal by (cases "json_find j k"; cases "json_at j k") (auto simp: field_defs json_at_def)
  subgoal by (cases "json_find j k"; cases "json_at j k") (auto simp: field_defs json_at_def)
  done

lemma TaskId_Parse_Ok_iff: "pr_Ok (TaskId_Parse v) \<longleftrightarrow> IsValidUuidFormat v"
  by (auto simp: TaskId_Parse_def IsValidUuidFormat_nonempty)

lemma optional_int64_Ok:
  "pr_Ok (optional_int64 j k e) \<Longrightarrow> pred_option in_i64 (pr_value (optional_int64 j k e))"
  by (cases "json_at j k") (auto simp: optional_int64_def split: if_splits)

lemma pr_value_int_range:
  "pr_Ok (ParseIntField j k) \<Longrightarrow> in_i32 (pr_value (ParseIntField j k))"
  "pr_Ok (ParseInt64Field j k) \<Longrightarrow> in_i64 (pr_value (ParseInt64Field j k))"
  by (auto simp: pr_Ok_field parse_field_simps)

lemma PR_Fail_eq_Ok [simp]: "PR_Fail d e = PR_Ok v \<longleftrightarrow> e = '''' \<and> d = v"
  by (auto simp: PR_Fail_def PR_Ok_def)

lemma RetryPolicyFromJson_sound:
  assumes "RetryPolicyFromJson j = PR_Ok p"
  shows "in_i32 (max_retries p) \<and> in_i64 (base_delay_ms p) \<and> pr_Ok (ValidateRetryPolicy p)"
  using assms
  by (auto simp: RetryPolicyFromJson_def Let_def pr_value_int_range pr_Ok_def
      split: if_splits)

lemma fail_branch: "(if \<not> pr_Ok r then PR_Fail d (pr_error r) else f) = PR_Ok v \<longleftrightarrow> pr_Ok r \<and> f = PR_Ok v"
  by (simp add: pr_Ok_def)

lemma fail_branch':
  "(if \<not> b then PR_Fail d (ch # msg) else f) = PR_Ok v \<longleftrightarrow> b \<and> f = PR_Ok v"
  by simp

text \<open>What acceptance by the parser means, field by field.\<close>

lemma TaskMessageFromJson_fields:
  assumes "TaskMessageFromJson j = PR_Ok m"
  shows "pr_Ok (ParseStringField j ''id'')" "pr_Ok (ParseStringField j ''name'')"
    "pr_Ok (ParseStringField j ''status'')" "contains j ''payload''"
    "pr_Ok (TaskId_Parse (pr_value (ParseStringField j ''id'')))"
    "pr_Ok (TaskStatusFromString (pr_value (ParseStringField j ''status'')))"
    "pr_Ok (RetryPolicyFromJson (json_at j ''retry_policy''))"
    "pr_Ok (ParseIntField j ''retry_count'')" "pr_Ok (ParseInt64Field j ''created_at_ms'')"
    "pr_Ok (optional_int64 j ''run_at_ms'' ''run_at_ms must be an integer'')"
    "pr_Ok (optional_int64 j ''reserved_at_ms'' ''reserved_at_ms must be an integer'')"
    "m = \<lparr>m_id = pr_value (TaskId_Parse (pr_value (ParseStringField j ''id''))),
      m_name = pr_value (ParseStringField j ''name''), m_payload = json_at j ''payload'',
      m_status = pr_value (TaskStatusFromString (pr_value (ParseStringField j ''status''))),
      m_retry_count = pr_value (ParseIntField j ''retry_count''),
      m_retry_policy = pr_value (RetryPolicyFromJson (json_at j ''retry_policy'')),
      m_created_at_ms = pr_value (ParseInt64Field j ''created_at_ms''),
      m_run_at_ms = pr_value (optional_int64 j ''run_at_ms'' ''run_at_ms must be an integer''),
      m_reserved_at_ms =
        pr_value (optional_int64 j ''reserved_at_ms'' ''reserved_at_ms must be an integer''),
      m_last_error = pr_value (optional_string j ''last_error'')\<rparr>"
  by (simp_all only: assms [unfolded TaskMessageFromJson_def Let_def fail_branch fail_branch' PR_Ok_eq])

lemma TaskMessageFromJson_version:
  assumes "TaskMessageFromJson j = PR_Ok m"
  shows "case json_find j ''schema_version'' of None \<Rightarrow> True | Some v \<Rightarrow> \<exists>i. v = JInt i \<and> to_i32 i = kTaskSchemaVersion"
proof -
  have "pr_Ok (ParseTaskSchemaVersion j)"
    by (simp only: assms [unfolded TaskMessageFromJson_def Let_def fail_branch fail_branch' PR_Ok_eq])
  then show ?thesis
    by (cases "json_at j ''schema_version''")
      (auto simp: ParseTaskSchemaVersion_def Let_def contains_def json_at_def split: if_splits option.splits)
qed

lemma TaskMessageFromJson_wire:
  assumes "TaskMessageFromJson j = PR_Ok m"
  shows "wire_message m"
proof -
  note c = TaskMessageFromJson_fields [OF assms]
  obtain pol where pol: "RetryPolicyFromJson (json_at j ''retry_policy'') = PR_Ok pol"
    using c(7) pr_Ok_iff by blast
  have "IsValidUuidFormat (TaskId_Value (m_id m))"
    using c(1,5) by (auto simp: c(12) pr_Ok_field parse_field_simps TaskId_Parse_Ok_iff)
  moreover have "m_retry_policy m = pol" using pol by (simp add: c(12))
  moreover note RetryPolicyFromJson_sound [OF pol]
    c(8) [THEN pr_value_int_range(1)] c(9) [THEN pr_value_int_range(2)] c(10,11) [THEN optional_int64_Ok]
  ultimately show ?thesis
    unfolding wire_message_def in_range_message_def c(12) TaskMessage.simps by blast
qed

text \<open>
  C29: whatever the parser accepts is a well-formed message. Its identifier is a UUID, its retry
  policy passes validation, its numbers are in range, its identifier, name, payload and status are
  the ones the JSON object carries, and the schema version, if there is one, is an integer that is
  1 after the conversion to \<open>int\<close>, that is modulo \<open>2^32\<close>.
\<close>

theorem TaskMessageFromJson_sound:
  assumes "TaskMessageFromJson j = PR_Ok m"
  shows "wire_message m \<and>
    json_find j ''id'' = Some (JString (TaskId_Value (m_id m))) \<and>
    json_find j ''name'' = Some (JString (m_name m)) \<and>
    json_find j ''payload'' = Some (m_payload m) \<and>
    json_find j ''status'' = Some (JString (TaskStatusToString (m_status m))) \<and>
    (case json_find j ''schema_version'' of None \<Rightarrow> True | Some v \<Rightarrow> \<exists>i. v = JInt i \<and> to_i32 i = kTaskSchemaVersion)"
proof -
  note c = TaskMessageFromJson_fields [OF assms]
  from c(1-3) obtain ids nm st where f: "json_find j ''id'' = Some (JString ids)"
    "json_find j ''name'' = Some (JString nm)" "json_find j ''status'' = Some (JString st)"
    by (auto simp: pr_Ok_field)
  have "TaskId_Value (m_id m) = ids"
    using c(5) f(1) by (simp add: c(12) parse_field_simps TaskId_Parse_Ok_iff)
  moreover have "m_name m = nm" using f(2) by (simp add: c(12) parse_field_simps)
  moreover have "TaskStatusToString (m_status m) = st"
    using c(6) f(3) by (auto simp: c(12) parse_field_simps TaskStatusFromString_def split: if_splits)
  moreover have "json_find j ''payload'' = Some (m_payload m)"
    using c(4) by (auto simp: c(12) contains_def)
  ultimately show ?thesis using f TaskMessageFromJson_wire [OF assms] TaskMessageFromJson_version [OF assms] by simp
qed

theorem TaskMessageFromJson_sound_witness:
  "wire_message sample_message \<and>
   json_find (TaskMessage_ToJson sample_message) ''name'' = Some (JString (m_name sample_message))"
  using TaskMessageFromJson_sound [of "TaskMessage_ToJson sample_message" sample_message]
    message_roundtrip [OF wire_message_sample] by blast

end
