(* ===== verification/Wire.thy ===== *)
theory Wire
  imports Task_Json
begin

text \<open>
  JSON text on its way through Redis. The C++ side reads and writes text with
  \<^verbatim>\<open>nlohmann::json\<close>, the Lua scripts with the \<^verbatim>\<open>cjson\<close> module of the Redis server: both are
  external code, the functions of the record \<open>text_ops\<close>. What the program relies on is
  the locale \<open>wire_text\<close>; the theory ends with a codec that satisfies it.
\<close>

section \<open>Lua values\<close>

text \<open>
  A Lua table has fields with string names (sorted by name) and an array part; assigning
  \<open>nil\<close> removes a field. \<^verbatim>\<open>cjson\<close> decodes the JSON null to a value of its own.
\<close>

datatype lua =
    LNil
  | LNull
  | LBool bool
  | LNum double
  | LStr string
  | LTable "(string \<times> lua) list" "lua list"

fun is_table :: "lua \<Rightarrow> bool" where
  "is_table (LTable _ _) = True"
| "is_table _ = False"

fun truthy :: "lua \<Rightarrow> bool" where
  "truthy LNil = False"
| "truthy (LBool b) = b"
| "truthy _ = True"

definition lget :: "lua \<Rightarrow> string \<Rightarrow> lua" where
  "lget v k = (case v of LTable fs _ \<Rightarrow> (case map_of fs k of Some x \<Rightarrow> x | None \<Rightarrow> LNil) | _ \<Rightarrow> LNil)"

fun lset :: "string \<Rightarrow> lua \<Rightarrow> lua \<Rightarrow> lua" where
  "lset k x (LTable fs xs) = LTable (if x = LNil then sdel k fs else sput k x fs) xs"
| "lset k x v = v"

section \<open>JSON values and Lua values\<close>

fun lua_of_json :: "json \<Rightarrow> lua" where
  "lua_of_json JNull = LNull"
| "lua_of_json (JBool b) = LBool b"
| "lua_of_json (JInt i) = LNum (double_of_int i)"
| "lua_of_json (JFloat d) = LNum d"
| "lua_of_json (JString s) = LStr s"
| "lua_of_json (JArray xs) = LTable [] (map lua_of_json xs)"
| "lua_of_json (JObject kvs) = LTable (map (\<lambda>(k, v). (k, lua_of_json v)) kvs) []"

text \<open>An empty Lua table is written as an empty object.\<close>

fun json_of_lua :: "lua \<Rightarrow> json" where
  "json_of_lua (LBool b) = JBool b"
| "json_of_lua (LNum (DFin q)) = (if q = of_int \<lfloor>q\<rfloor> then JInt \<lfloor>q\<rfloor> else JFloat (DFin q))"
| "json_of_lua (LStr s) = JString s"
| "json_of_lua (LTable fs xs) =
     (if xs = [] then JObject (map (\<lambda>(k, v). (k, json_of_lua v)) fs)
      else JArray (map json_of_lua xs))"
| "json_of_lua _ = JNull"

fun lua_depth :: "lua \<Rightarrow> nat" where
  "lua_depth (LTable fs xs) =
     Suc (max (foldr max (map (\<lambda>(k, v). lua_depth v) fs) 0) (foldr max (map lua_depth xs) 0))"
| "lua_depth _ = 0"

fun lua_all :: "(rat \<Rightarrow> bool) \<Rightarrow> lua \<Rightarrow> bool" where
  "lua_all P (LNum (DFin q)) \<longleftrightarrow> rnd q = DFin q \<and> P q"
| "lua_all P (LNum _) \<longleftrightarrow> False"
| "lua_all P LNil \<longleftrightarrow> False"
| "lua_all P (LTable fs xs) \<longleftrightarrow>
     (fs = [] \<or> xs = []) \<and> smap fs \<and> (\<forall>(k, v) \<in> set fs. lua_all P v) \<and> (\<forall>v \<in> set xs. lua_all P v)"
| "lua_all P _ \<longleftrightarrow> True"

text \<open>
  \<open>encodable\<close>: what the encoder accepts (finite numbers, no table that mixes fields and array,
  at most 1000 levels). \<open>wire_exact\<close>: in addition every number is one that the encoder's 14
  significant digits reproduce.
\<close>

definition exact_num :: "rat \<Rightarrow> bool" where
  "exact_num q \<longleftrightarrow>
     (if q = of_int \<lfloor>q\<rfloor> then \<bar>q\<bar> < 10 ^ 14
      else \<bar>q\<bar> < 10 ^ 9 \<and> q * 10 ^ 4 = of_int \<lfloor>q * 10 ^ 4\<rfloor>)"

definition encodable :: "lua \<Rightarrow> bool" where
  "encodable v \<longleftrightarrow> lua_all (\<lambda>_. True) v \<and> lua_depth v \<le> 1000"

definition wire_exact :: "lua \<Rightarrow> bool" where
  "wire_exact v \<longleftrightarrow> lua_all exact_num v \<and> lua_depth v \<le> 1000"

text \<open>
  JSON values as the library represents them (sorted objects, 64-bit integers, finite
  floating-point values).
\<close>

fun json_wf :: "json \<Rightarrow> bool" where
  "json_wf (JInt i) \<longleftrightarrow> - (2 ^ 63) \<le> i \<and> i < 2 ^ 64"
| "json_wf (JFloat (DFin q)) \<longleftrightarrow> rnd q = DFin q"
| "json_wf (JFloat _) \<longleftrightarrow> False"
| "json_wf (JArray xs) \<longleftrightarrow> (\<forall>x \<in> set xs. json_wf x)"
| "json_wf (JObject kvs) \<longleftrightarrow> smap kvs \<and> (\<forall>(k, v) \<in> set kvs. json_wf v)"
| "json_wf _ \<longleftrightarrow> True"

section \<open>The external text functions and their contract\<close>

text \<open>
  \<open>parse\<close> throws \<^verbatim>\<open>json::parse_error\<close> (\<open>JsonError\<close>) or another exception of the library;
  \<open>dump\<close> throws on text that is not UTF-8; \<open>cj_decode\<close> is \<open>None\<close> where the protected call
  fails; \<open>cj_encode\<close> is \<open>None\<close> where \<^verbatim>\<open>cjson.encode\<close> raises an error; \<open>num_text\<close> is the
  server's text for a Lua number passed to a command, \<open>text_num\<close> Lua's \<^verbatim>\<open>tonumber\<close> on text.

  The laws are those for UTF-8 text, which is what \<open>dump\<close> writes and \<open>parse\<close> accepts: a string of the model
  stands for UTF-8 text. The bytes of an error message that is not UTF-8, which the scripts would store and
  \<open>parse\<close> would reject, are outside of it.
\<close>

record text_ops =
  parse :: "string \<Rightarrow> exn + json"
  dump :: "json \<Rightarrow> exn + string"
  cj_decode :: "string \<Rightarrow> lua option"
  cj_encode :: "lua \<Rightarrow> string option"
  num_text :: "double \<Rightarrow> string"
  text_num :: "string \<Rightarrow> double option"

locale wire_text =
  fixes T :: text_ops
  assumes parse_dump: "dump T j = Inr t \<Longrightarrow> json_wf j \<Longrightarrow> parse T t = Inr j"
    and decode_dump:
      "dump T j = Inr t \<Longrightarrow> json_wf j \<Longrightarrow> lua_depth (lua_of_json j) \<le> 1000 \<Longrightarrow>
       cj_decode T t = Some (lua_of_json j)"
    and encode_exact:
      "wire_exact v \<Longrightarrow>
       \<exists>t. cj_encode T v = Some t \<and> cj_decode T t = Some v \<and> parse T t = Inr (json_of_lua v)"
    and encode_fields:
      "encodable v \<Longrightarrow> is_table v \<Longrightarrow>
       \<exists>t v'. cj_encode T v = Some t \<and> cj_decode T t = Some v' \<and> is_table v' \<and> encodable v' \<and>
              (\<forall>k s. lget v k = LStr s \<longrightarrow> lget v' k = LStr s) \<and>
              (\<forall>k q. lget v k = LNum (DFin q) \<and> exact_num q \<longrightarrow> lget v' k = LNum (DFin q))"

definition TaskMessageFromJsonString ::
    "text_ops \<Rightarrow> string \<Rightarrow> exn + TaskMessage ParseResult" where
  "TaskMessageFromJsonString T json_text =
     (case parse T json_text of
        Inr j \<Rightarrow> Inr (TaskMessageFromJson j)
      | Inl (JsonError what) \<Rightarrow> Inr (PR_Fail TaskMessage_default (''invalid json: '' @ what))
      | Inl e \<Rightarrow> Inl e)"

section \<open>Field access\<close>

lemma lget_lset:
  "lua_all P v \<Longrightarrow> is_table v \<Longrightarrow> lget (lset k x v) k' = (if k' = k then x else lget v k')"
  by (cases v) (auto simp: lget_def split: option.splits)

lemma lget_LNil_iff: "lua_all P v \<Longrightarrow> lget v k = LNil \<longleftrightarrow> (case v of LTable fs _ \<Rightarrow> map_of fs k = None | _ \<Rightarrow> True)"
  by (cases v) (auto simp: lget_def split: option.splits dest!: map_of_SomeD)

lemma is_table_lset [simp]: "is_table (lset k x v) = is_table v"
  by (cases v) auto

lemma lget_lua_of_json:
  "lget (lua_of_json (JObject kvs)) k = (case map_of kvs k of Some v \<Rightarrow> lua_of_json v | None \<Rightarrow> LNil)"
  by (induction kvs) (auto simp: lget_def split: option.splits)

lemma foldr_max_le: "foldr max ns 0 \<le> n \<longleftrightarrow> (\<forall>m \<in> set ns. m \<le> (n::nat))"
  by (induction ns) auto

lemma lua_depth_le_Suc:
  "lua_depth (LTable fs xs) \<le> Suc n \<longleftrightarrow>
     (\<forall>(k, v) \<in> set fs. lua_depth v \<le> n) \<and> (\<forall>v \<in> set xs. lua_depth v \<le> n)"
  by (auto simp: foldr_max_le)

lemma lua_depth_1000:
  "lua_depth (LTable fs xs) \<le> 1000 \<longleftrightarrow>
     (\<forall>(k, v) \<in> set fs. lua_depth v \<le> 999) \<and> (\<forall>v \<in> set xs. lua_depth v \<le> 999)"
  using lua_depth_le_Suc [of fs xs 999] by (simp del: lua_depth.simps)

declare lua_depth.simps(1) [simp del]

text \<open>Assigning a scalar to a named field of an object table.\<close>

lemma lua_all_lset:
  assumes "lua_all P (LTable fs [])" and "x = LNil \<or> lua_all P x"
  shows "lua_all P (lset k x (LTable fs []))"
  using assms set_sput_subset [of k x fs] set_sdel_subset [of k fs] by fastforce

lemma lua_depth_lset:
  assumes "lua_depth (LTable fs xs) \<le> 1000" and "lua_depth x \<le> 999"
  shows "lua_depth (lset k x (LTable fs xs)) \<le> 1000"
  using assms set_sput_subset [of k x fs] set_sdel_subset [of k fs]
  by (fastforce simp: lua_depth_1000)

section \<open>A codec that satisfies the contract\<close>

text \<open>
  Printer and parser for JSON text in which a fraction is written as a quotient of integers.
  The parser returns the unread rest; its fuel bounds the nesting and the number of elements,
  and the length of the text is always enough.
\<close>

fun esc :: "string \<Rightarrow> string" where
  "esc [] = [CHR 0x22]"
| "esc (c # s) =
     (if c = CHR 0x22 \<or> c = CHR 0x5C then CHR 0x5C # c # esc s else c # esc s)"

fun unesc :: "string \<Rightarrow> (string \<times> string) option" where
  "unesc [] = None"
| "unesc (c # s) =
     (if c = CHR 0x22 then Some ([], s)
      else if c = CHR 0x5C then
        (case s of [] \<Rightarrow> None | d # s' \<Rightarrow> map_option (\<lambda>(t, r). (d # t, r)) (unesc s'))
      else map_option (\<lambda>(t, r). (c # t, r)) (unesc s))"

fun ser :: "json \<Rightarrow> string"
  and ser_elems :: "json list \<Rightarrow> string"
  and ser_members :: "(string \<times> json) list \<Rightarrow> string" where
  "ser JNull = ''null''"
| "ser (JBool b) = (if b then ''true'' else ''false'')"
| "ser (JInt i) = to_string i"
| "ser (JFloat (DFin q)) = to_string (fst (quotient_of q)) @ ''/'' @ to_string (snd (quotient_of q))"
| "ser (JFloat _) = ''null''"
| "ser (JString s) = CHR 0x22 # esc s"
| "ser (JArray xs) = CHR ''['' # ser_elems xs"
| "ser (JObject kvs) = CHR ''{'' # ser_members kvs"
| "ser_elems [] = '']''"
| "ser_elems (x # xs) = ser x @ '','' @ ser_elems xs"
| "ser_members [] = ''}''"
| "ser_members ((k, v) # kvs) = CHR 0x22 # esc k @ '':'' @ ser v @ '','' @ ser_members kvs"

definition span_digits :: "string \<Rightarrow> string \<times> string" where
  "span_digits s = (takeWhile is_digit s, dropWhile is_digit s)"

definition p_int :: "string \<Rightarrow> (int \<times> string) option" where
  "p_int s =
     (let (neg, s) = (case s of c # r \<Rightarrow> if c = CHR ''-'' then (True, r) else (False, s) | [] \<Rightarrow> (False, s));
          (ds, r) = span_digits s
      in if ds = [] then None
         else Some (if neg then - int (digits_value ds) else int (digits_value ds), r))"

definition p_num :: "string \<Rightarrow> (json \<times> string) option" where
  "p_num s =
     (case p_int s of
        None \<Rightarrow> None
      | Some (n, r) \<Rightarrow>
          (case r of
             c # r' \<Rightarrow>
               if c = CHR ''/'' then
                 (case p_int r' of None \<Rightarrow> None
                  | Some (d, r'') \<Rightarrow> Some (JFloat (DFin (Fract n d)), r''))
               else Some (JInt n, r)
           | [] \<Rightarrow> Some (JInt n, r)))"

definition p_lit :: "string \<Rightarrow> json \<Rightarrow> string \<Rightarrow> (json \<times> string) option" where
  "p_lit w j s = (if take (length w) s = w then Some (j, drop (length w) s) else None)"

fun p_val :: "nat \<Rightarrow> string \<Rightarrow> (json \<times> string) option"
  and p_elems :: "nat \<Rightarrow> string \<Rightarrow> (json list \<times> string) option"
  and p_members :: "nat \<Rightarrow> string \<Rightarrow> ((string \<times> json) list \<times> string) option" where
  "p_val 0 s = None"
| "p_val (Suc n) s =
     (case s of
        [] \<Rightarrow> None
      | c # r \<Rightarrow>
          if c = CHR ''n'' then p_lit ''null'' JNull s
          else if c = CHR ''t'' then p_lit ''true'' (JBool True) s
          else if c = CHR ''f'' then p_lit ''false'' (JBool False) s
          else if c = CHR 0x22 then map_option (\<lambda>(t, u). (JString t, u)) (unesc r)
          else if c = CHR ''['' then map_option (\<lambda>(t, u). (JArray t, u)) (p_elems n r)
          else if c = CHR ''{'' then map_option (\<lambda>(t, u). (JObject t, u)) (p_members n r)
          else p_num s)"
| "p_elems 0 s = None"
| "p_elems (Suc n) s =
     (case s of
        [] \<Rightarrow> None
      | c # r \<Rightarrow>
          if c = CHR '']'' then Some ([], r)
          else (case p_val n s of
                  Some (x, CHR '','' # u) \<Rightarrow> map_option (\<lambda>(xs, w). (x # xs, w)) (p_elems n u)
                | _ \<Rightarrow> None))"
| "p_members 0 s = None"
| "p_members (Suc n) s =
     (case s of
        [] \<Rightarrow> None
      | c # r \<Rightarrow>
          if c = CHR ''}'' then Some ([], r)
          else (case unesc r of
                  Some (k, CHR '':'' # u) \<Rightarrow>
                    (case p_val n u of
                       Some (x, CHR '','' # w) \<Rightarrow>
                         map_option (\<lambda>(kvs, z). ((k, x) # kvs, z)) (p_members n w)
                     | _ \<Rightarrow> None)
                | _ \<Rightarrow> None))"

definition deser :: "string \<Rightarrow> json option" where
  "deser s = (case p_val (Suc (length s)) s of Some (j, []) \<Rightarrow> Some j | _ \<Rightarrow> None)"

lemma unesc_esc [simp]: "unesc (esc s @ r) = Some (s, r)"
  by (induction s) auto

fun json_fin :: "json \<Rightarrow> bool" where
  "json_fin (JFloat d) \<longleftrightarrow> (\<exists>q. d = DFin q)"
| "json_fin (JArray xs) \<longleftrightarrow> (\<forall>x \<in> set xs. json_fin x)"
| "json_fin (JObject kvs) \<longleftrightarrow> (\<forall>(k, v) \<in> set kvs. json_fin v)"
| "json_fin _ \<longleftrightarrow> True"

definition stops :: "string \<Rightarrow> bool" where
  "stops r \<longleftrightarrow> (case r of [] \<Rightarrow> True | c # _ \<Rightarrow> \<not> is_digit c \<and> c \<noteq> CHR ''/'')"

lemma span_digits_show: "(case r of [] \<Rightarrow> True | c # _ \<Rightarrow> \<not> is_digit c) \<Longrightarrow>
    span_digits (show_nat n @ r) = (show_nat n, r)"
  using show_nat_digits [of n]
  by (cases r) (auto simp: span_digits_def takeWhile_append2 dropWhile_append2)

lemma p_int_to_string:
  assumes "case r of [] \<Rightarrow> True | c # _ \<Rightarrow> \<not> is_digit c"
  shows "p_int (to_string i @ r) = Some (i, r)"
proof (cases "i < 0")
  case True
  then show ?thesis by (simp add: p_int_def to_string_def span_digits_show [OF assms])
next
  case False
  obtain c u where cu: "show_nat (nat i) = c # u" "is_digit c" using show_nat_hd by blast
  have "c \<noteq> CHR ''-''" using cu(2) is_digit_not by blast
  then show ?thesis
    using False cu span_digits_show [OF assms, of "nat i"] show_nat_value [of "nat i"]
    by (simp add: p_int_def to_string_def)
qed

lemma to_string_hd: "\<exists>c u. to_string i = c # u \<and> (is_digit c \<or> c = CHR ''-'')"
  using show_nat_hd [of "nat i"] by (auto simp: to_string_def)

lemma num_char:
  "is_digit c \<or> c = CHR ''-'' \<Longrightarrow>
     c \<noteq> CHR ''n'' \<and> c \<noteq> CHR ''t'' \<and> c \<noteq> CHR ''f'' \<and> c \<noteq> CHR 0x22 \<and> c \<noteq> CHR ''['' \<and> c \<noteq> CHR ''{'' \<and>
     c \<noteq> CHR '']''"
  by (auto simp: is_digit_def)

lemma ser_hd: "\<exists>c u. ser x = c # u \<and> c \<noteq> CHR '']''"
proof (cases x)
  case (JInt i)
  then show ?thesis using to_string_hd [of i] num_char by fastforce
next
  case (JFloat d)
  show ?thesis
  proof (cases d)
    case (DFin q)
    then show ?thesis
      using JFloat to_string_hd [of "fst (quotient_of q)"] num_char by fastforce
  qed (simp_all add: JFloat)
qed auto

lemma p_val_number:
  "s = c # u \<Longrightarrow> is_digit c \<or> c = CHR ''-'' \<Longrightarrow> p_val (Suc n) s = p_num s"
  using num_char [of c] by simp

lemma stops_digit: "stops r \<Longrightarrow> case r of [] \<Rightarrow> True | c # _ \<Rightarrow> \<not> is_digit c"
  by (auto simp: stops_def split: list.splits)

lemma p_num_int:
  assumes "stops r"
  shows "p_num (to_string i @ r) = Some (JInt i, r)"
proof -
  have "p_int (to_string i @ r) = Some (i, r)" by (rule p_int_to_string [OF stops_digit [OF assms]])
  then show ?thesis using assms by (cases r) (auto simp: p_num_def stops_def)
qed

lemma p_num_float:
  assumes "stops r"
  shows "p_num (to_string (fst (quotient_of q)) @ ''/'' @ to_string (snd (quotient_of q)) @ r) =
    Some (JFloat (DFin q), r)"
proof -
  have slash: "case CHR ''/'' # w of [] \<Rightarrow> True | c # _ \<Rightarrow> \<not> is_digit c" for w
    by (simp add: is_digit_def)
  have "Fract (fst (quotient_of q)) (snd (quotient_of q)) = q"
    by (metis Fract_of_int_quotient quotient_of_div surjective_pairing)
  then show ?thesis
    using p_int_to_string [OF slash] p_int_to_string [OF stops_digit [OF assms]]
    by (simp add: p_num_def)
qed

lemma p_val_ser:
  "length (ser j) \<le> n \<Longrightarrow> json_fin j \<Longrightarrow> stops r \<Longrightarrow> p_val n (ser j @ r) = Some (j, r)"
  "length (ser_elems xs) \<le> n \<Longrightarrow> (\<forall>x \<in> set xs. json_fin x) \<Longrightarrow>
     p_elems n (ser_elems xs @ r) = Some (xs, r)"
  "length (ser_members kvs) \<le> n \<Longrightarrow> (\<forall>(k, v) \<in> set kvs. json_fin v) \<Longrightarrow>
     p_members n (ser_members kvs @ r) = Some (kvs, r)"
proof (induction j and xs and kvs arbitrary: n r and n r and n r
    rule: ser_ser_elems_ser_members.induct)
  case (3 i)
  obtain c u where cu: "to_string i = c # u" "is_digit c \<or> c = CHR ''-''" using to_string_hd by blast
  obtain m where "n = Suc m" using 3(1) cu by (cases n) auto
  moreover have "p_val (Suc m) (to_string i @ r) = p_num (to_string i @ r)"
    using cu by (intro p_val_number) auto
  ultimately show ?case using p_num_int [OF 3(3)] by (simp del: p_val.simps)
next
  case (4 q)
  obtain c u where cu: "to_string (fst (quotient_of q)) = c # u" "is_digit c \<or> c = CHR ''-''"
    using to_string_hd by blast
  obtain m where "n = Suc m" using 4(1) cu by (cases n) auto
  moreover have "p_val (Suc m) (ser (JFloat (DFin q)) @ r) = p_num (ser (JFloat (DFin q)) @ r)"
    using cu by (intro p_val_number) auto
  ultimately show ?case using p_num_float [OF 4(3), of q] by (simp del: p_val.simps)
next
  case (7 xs)
  then obtain m where "n = Suc m" by (cases n) auto
  with 7 show ?case by simp
next
  case (8 kvs)
  then obtain m where "n = Suc m" by (cases n) auto
  with 8 show ?case by simp
next
  case (10 x xs)
  obtain c u where cu: "ser x = c # u" "c \<noteq> CHR '']''" using ser_hd by blast
  obtain m where n: "n = Suc m" using 10(3) cu by (cases n) auto
  have "p_val m (ser x @ '','' @ ser_elems xs @ r) = Some (x, '','' @ ser_elems xs @ r)"
    using 10 n by (intro 10(1)) (auto simp: stops_def is_digit_def)
  moreover have "p_elems m (ser_elems xs @ r) = Some (xs, r)"
    using 10 n by (intro 10(2)) auto
  ultimately show ?case using cu n by simp
next
  case (12 k v kvs)
  obtain m where n: "n = Suc m" using 12(3) by (cases n) auto
  have "p_val m (ser v @ '','' @ ser_members kvs @ r) = Some (v, '','' @ ser_members kvs @ r)"
    using 12 n by (intro 12(1)) (auto simp: stops_def is_digit_def)
  moreover have "p_members m (ser_members kvs @ r) = Some (kvs, r)"
    using 12 n by (intro 12(2)) auto
  ultimately show ?case using n by simp
qed (auto simp: p_lit_def dest!: Suc_le_D)

lemma deser_ser: "json_fin j \<Longrightarrow> deser (ser j) = Some j"
  using p_val_ser(1) [of j "Suc (length (ser j))" "[]"] by (simp add: deser_def stops_def del: p_val.simps)

definition ref_text :: text_ops where
  "ref_text =
     \<lparr>parse = (\<lambda>t. case deser t of Some j \<Rightarrow> Inr j | None \<Rightarrow> Inl (JsonError ''syntax error'')),
      dump = (\<lambda>j. Inr (ser j)),
      cj_decode = (\<lambda>t. map_option lua_of_json (deser t)),
      cj_encode = (\<lambda>v. Some (ser (json_of_lua v))),
      num_text = (\<lambda>d. ser (JFloat d)),
      text_num = (\<lambda>t. case deser t of Some (JInt i) \<Rightarrow> Some (double_of_int i)
                       | Some (JFloat d) \<Rightarrow> Some d | _ \<Rightarrow> None)\<rparr>"

lemma json_wf_fin: "json_wf j \<Longrightarrow> json_fin j"
  by (induction j rule: json_wf.induct) auto

lemma json_fin_of_lua: "json_fin (json_of_lua v)"
  by (induction v rule: json_of_lua.induct) auto

text \<open>Encoding and decoding a Lua value that the encoder accepts gives it back.\<close>

lemma lua_json_lua: "lua_all P v \<Longrightarrow> lua_of_json (json_of_lua v) = v"
proof (induction v rule: json_of_lua.induct)
  case (2 q)
  then have "rnd q = DFin q" by simp
  then show ?case by (simp add: double_of_int_def)
next
  case (4 fs xs)
  have fs: "xs = [] \<Longrightarrow> map ((\<lambda>(k, v). (k, lua_of_json v)) \<circ> (\<lambda>(k, v). (k, json_of_lua v))) fs = fs"
    using 4 by (intro map_idI) fastforce
  have xs: "xs \<noteq> [] \<Longrightarrow> map (lua_of_json \<circ> json_of_lua) xs = xs"
    using 4 by (intro map_idI) fastforce
  show ?case using fs xs 4(3) by auto
qed auto

interpretation ref: wire_text ref_text
proof
  fix v assume v: "encodable v" "is_table v"
  then have "lua_of_json (json_of_lua v) = v" by (auto simp: encodable_def lua_json_lua)
  with v show "\<exists>t v'. cj_encode ref_text v = Some t \<and> cj_decode ref_text t = Some v' \<and>
      is_table v' \<and> encodable v' \<and> (\<forall>k s. lget v k = LStr s \<longrightarrow> lget v' k = LStr s) \<and>
      (\<forall>k q. lget v k = LNum (DFin q) \<and> exact_num q \<longrightarrow> lget v' k = LNum (DFin q))"
    by (simp add: ref_text_def deser_ser json_fin_of_lua)
qed (auto simp: ref_text_def deser_ser json_wf_fin json_fin_of_lua wire_exact_def lua_json_lua)

end
