(* ===== verification/Redis.thy ===== *)
theory Redis
  imports Cxx_Numbers "HOL-Library.Product_Lexorder"
begin

text \<open>
  The Redis server and the connection to it. The server is external code: its state type is a
  type variable and its functions are the record \<open>redis_ops\<close>. The locale \<open>redis_server\<close>
  states the documented effect of the commands the program issues, through a view of the server
  state as a keyspace of lists, hashes and sorted sets. The connection (\<open>transmit\<close>) may lose
  a request or a reply; the client then throws \<^verbatim>\<open>sw::redis::Error\<close>.
\<close>

section \<open>Key names (include/taskqueue/redis_keys.h)\<close>

definition redis_kPending :: string where "redis_kPending = ''taskq:pending''"
definition redis_kDelayed :: string where "redis_kDelayed = ''taskq:delayed''"
definition redis_kRunning :: string where "redis_kRunning = ''taskq:running''"
definition redis_kStatus :: string where "redis_kStatus = ''taskq:status''"
definition redis_kResults :: string where "redis_kResults = ''taskq:results''"
definition redis_kDead :: string where "redis_kDead = ''taskq:dead''"
definition redis_kFailures :: string where "redis_kFailures = ''taskq:failures''"
definition redis_kWorkersPrefix :: string where "redis_kWorkersPrefix = ''taskq:workers:''"
definition redis_kMetrics :: string where "redis_kMetrics = ''taskq:metrics''"

definition WorkerKey :: "string \<Rightarrow> string" where
  "WorkerKey worker_id = redis_kWorkersPrefix @ worker_id"

lemmas key_defs =
  redis_kPending_def redis_kDelayed_def redis_kRunning_def redis_kStatus_def redis_kResults_def
  redis_kDead_def redis_kFailures_def redis_kWorkersPrefix_def redis_kMetrics_def WorkerKey_def

section \<open>Commands and replies\<close>

datatype redis_cmd =
    RPOP string
  | LPUSH string string
  | LRANGE_all string
  | LREM_one string string
  | LLEN string
  | HGET string string
  | HSET string string string
  | HDEL string string
  | HGETALL string
  | HLEN string
  | HINCRBY string string int
  | ZADD string rat string
  | ZREM string string
  | ZRANGEBYSCORE_first string rat
  | ZCARD string
  | EXPIRE string int
  | KEYS_prefix string

datatype redis_reply =
    RNil
  | RBulk string
  | RInt int
  | RMulti "string list"
  | RPairs "(string \<times> string) list"
  | RErr string

text \<open>
  Each key of the program holds one kind of value; \<open>well_keyed\<close> says that a command is used on
  a key of its kind (on another kind the server answers with an error).
\<close>

datatype key_kind = ListKey | HashKey | ZsetKey

definition kind_of :: "string \<Rightarrow> key_kind" where
  "kind_of k =
     (if k = redis_kPending \<or> k = redis_kDead then ListKey
      else if k = redis_kDelayed then ZsetKey else HashKey)"

fun well_keyed :: "redis_cmd \<Rightarrow> bool" where
  "well_keyed (RPOP k) = (kind_of k = ListKey)"
| "well_keyed (LPUSH k _) = (kind_of k = ListKey)"
| "well_keyed (LRANGE_all k) = (kind_of k = ListKey)"
| "well_keyed (LREM_one k _) = (kind_of k = ListKey)"
| "well_keyed (LLEN k) = (kind_of k = ListKey)"
| "well_keyed (HGET k _) = (kind_of k = HashKey)"
| "well_keyed (HSET k _ _) = (kind_of k = HashKey)"
| "well_keyed (HDEL k _) = (kind_of k = HashKey)"
| "well_keyed (HGETALL k) = (kind_of k = HashKey)"
| "well_keyed (HLEN k) = (kind_of k = HashKey)"
| "well_keyed (HINCRBY k _ _) = (kind_of k = HashKey)"
| "well_keyed (ZADD k _ _) = (kind_of k = ZsetKey)"
| "well_keyed (ZREM k _) = (kind_of k = ZsetKey)"
| "well_keyed (ZRANGEBYSCORE_first k _) = (kind_of k = ZsetKey)"
| "well_keyed (ZCARD k) = (kind_of k = ZsetKey)"
| "well_keyed (EXPIRE k _) = (kind_of k = HashKey)"
| "well_keyed (KEYS_prefix p) = True"

section \<open>The documented effect of the commands\<close>

record redis_db =
  db_lists :: "(string \<times> string list) list"
  db_hashes :: "(string \<times> (string \<times> string) list) list"
  db_zsets :: "(string \<times> (string \<times> rat) list) list"
  db_expire :: "(string \<times> int) list"

definition lookup_default :: "'v \<Rightarrow> ('k \<times> 'v) list \<Rightarrow> 'k \<Rightarrow> 'v" where
  "lookup_default d m k = (case map_of m k of Some v \<Rightarrow> v | None \<Rightarrow> d)"

definition list_at :: "redis_db \<Rightarrow> string \<Rightarrow> string list" where
  "list_at db k = lookup_default [] (db_lists db) k"

definition hash_at :: "redis_db \<Rightarrow> string \<Rightarrow> (string \<times> string) list" where
  "hash_at db k = lookup_default [] (db_hashes db) k"

definition zset_at :: "redis_db \<Rightarrow> string \<Rightarrow> (string \<times> rat) list" where
  "zset_at db k = lookup_default [] (db_zsets db) k"

definition put_list :: "string \<Rightarrow> string list \<Rightarrow> redis_db \<Rightarrow> redis_db" where
  "put_list k xs db = db\<lparr>db_lists := AList.update k xs (db_lists db)\<rparr>"

definition put_hash :: "string \<Rightarrow> (string \<times> string) list \<Rightarrow> redis_db \<Rightarrow> redis_db" where
  "put_hash k h db = db\<lparr>db_hashes := AList.update k h (db_hashes db)\<rparr>"

definition put_zset :: "string \<Rightarrow> (string \<times> rat) list \<Rightarrow> redis_db \<Rightarrow> redis_db" where
  "put_zset k z db = db\<lparr>db_zsets := AList.update k z (db_zsets db)\<rparr>"

text \<open>A sorted set is ordered by score, members with equal scores by their text.\<close>

definition zset_insert :: "string \<Rightarrow> rat \<Rightarrow> (string \<times> rat) list \<Rightarrow> (string \<times> rat) list" where
  "zset_insert m sc z = insort_key (\<lambda>(m, sc). (sc, m)) (m, sc) (filter (\<lambda>p. fst p \<noteq> m) z)"

text \<open>The texts Redis takes for integers: nothing but the digits, as \<^verbatim>\<open>std::to_string\<close> prints them.\<close>

definition redis_integer :: "string \<Rightarrow> int option" where
  "redis_integer s =
     (case stoll s of Inr v \<Rightarrow> if to_string v = s then Some v else None | Inl _ \<Rightarrow> None)"

lemma redis_integer_to_string [simp]: "in_i64 v \<Longrightarrow> redis_integer (to_string v) = Some v"
  by (simp add: redis_integer_def)

text \<open>
  The commands on the keyspace. A hash is kept in the order of its insertions; Redis promises no
  order for \<^verbatim>\<open>HGETALL\<close> and \<^verbatim>\<open>KEYS\<close>, and the code does not rely on one: it reads every \<^verbatim>\<open>HGETALL\<close> reply
  into a \<^verbatim>\<open>std::unordered_map\<close>.
\<close>

fun redis_sem :: "redis_cmd \<Rightarrow> redis_db \<Rightarrow> redis_reply \<times> redis_db" where
  "redis_sem (RPOP k) db =
     (if list_at db k = [] then (RNil, db)
      else (RBulk (last (list_at db k)), put_list k (butlast (list_at db k)) db))"
| "redis_sem (LPUSH k v) db =
     (RInt (int (Suc (length (list_at db k)))), put_list k (v # list_at db k) db)"
| "redis_sem (LRANGE_all k) db = (RMulti (list_at db k), db)"
| "redis_sem (LREM_one k v) db =
     (RInt (if v \<in> set (list_at db k) then 1 else 0), put_list k (remove1 v (list_at db k)) db)"
| "redis_sem (LLEN k) db = (RInt (int (length (list_at db k))), db)"
| "redis_sem (HGET k f) db =
     (case map_of (hash_at db k) f of Some v \<Rightarrow> (RBulk v, db) | None \<Rightarrow> (RNil, db))"
| "redis_sem (HSET k f v) db =
     (RInt (if map_of (hash_at db k) f = None then 1 else 0),
      put_hash k (AList.update f v (hash_at db k)) db)"
| "redis_sem (HDEL k f) db =
     (RInt (if map_of (hash_at db k) f = None then 0 else 1),
      put_hash k (AList.delete f (hash_at db k)) db)"
| "redis_sem (HGETALL k) db = (RPairs (hash_at db k), db)"
| "redis_sem (HLEN k) db = (RInt (int (length (hash_at db k))), db)"
| "redis_sem (HINCRBY k f d) db =
     (case (case map_of (hash_at db k) f of Some v \<Rightarrow> redis_integer v | None \<Rightarrow> Some 0) of
        None \<Rightarrow> (RErr ''ERR hash value is not an integer'', db)
      | Some old \<Rightarrow>
          if in_i64 (old + d)
          then (RInt (old + d), put_hash k (AList.update f (to_string (old + d)) (hash_at db k)) db)
          else (RErr ''ERR increment or decrement would overflow'', db))"
| "redis_sem (ZADD k sc m) db =
     (RInt (if map_of (zset_at db k) m = None then 1 else 0),
      put_zset k (zset_insert m sc (zset_at db k)) db)"
| "redis_sem (ZREM k m) db =
     (RInt (if map_of (zset_at db k) m = None then 0 else 1),
      put_zset k (filter (\<lambda>p. fst p \<noteq> m) (zset_at db k)) db)"
| "redis_sem (ZRANGEBYSCORE_first k mx) db =
     (RMulti (map fst (take 1 (filter (\<lambda>p. snd p \<le> mx) (zset_at db k)))), db)"
| "redis_sem (ZCARD k) db = (RInt (int (length (zset_at db k))), db)"
| "redis_sem (EXPIRE k t) db =
     (if hash_at db k = [] then (RInt 0, db)
      else (RInt 1, db\<lparr>db_expire := AList.update k t (db_expire db)\<rparr>))"
| "redis_sem (KEYS_prefix p) db =
     (RMulti (filter (\<lambda>k. take (length p) k = p \<and> hash_at db k \<noteq> [])
        (remdups (map fst (db_hashes db)))), db)"

text \<open>The scripts the client registers: \<^verbatim>\<open>RedisScripts::ScriptId\<close>.\<close>

datatype ScriptId =
  kReserve | kPromoteOne | kReclaimOne | kRetry | kFail | kAck | kRetryDeadTask

section \<open>The external server and its contract\<close>

text \<open>
  \<open>call\<close> executes one command inside the server; \<open>script_sha\<close> is the hash of a script's source,
  \<open>script_load\<close> stores the source in the script cache, and \<open>script_find\<close> gives the script
  cached under a hash. The cache may be emptied at any time.
\<close>

record 's redis_ops =
  call :: "redis_cmd \<Rightarrow> 's \<Rightarrow> redis_reply \<times> 's"
  script_sha :: "ScriptId \<Rightarrow> string"
  script_load :: "ScriptId \<Rightarrow> 's \<Rightarrow> 's"
  script_find :: "string \<Rightarrow> 's \<Rightarrow> ScriptId option"

locale redis_server =
  fixes R :: "'s redis_ops" and view :: "'s \<Rightarrow> redis_db"
  assumes call_sem: "well_keyed c \<Longrightarrow> call R c s = (r, s') \<Longrightarrow> redis_sem c (view s) = (r, view s')"
    and sha_inj: "inj (script_sha R)"
    and find_sha: "script_find R sha s = Some i \<Longrightarrow> sha = script_sha R i"
    and load_find: "script_find R (script_sha R i) (script_load R i s) = Some i"
    and load_view: "view (script_load R i s) = view s"

text \<open>A Redis server kept in memory: its keyspace and its script cache.\<close>

definition sha_of :: "ScriptId \<Rightarrow> string" where
  "sha_of i =
     (case i of kReserve \<Rightarrow> ''sha0'' | kPromoteOne \<Rightarrow> ''sha1'' | kReclaimOne \<Rightarrow> ''sha2''
      | kRetry \<Rightarrow> ''sha3'' | kFail \<Rightarrow> ''sha4'' | kAck \<Rightarrow> ''sha5'' | kRetryDeadTask \<Rightarrow> ''sha6'')"

type_synonym mem_server = "redis_db \<times> ScriptId list"

definition mem_redis :: "mem_server redis_ops" where
  "mem_redis =
     \<lparr>call = (\<lambda>c (db, sc). let (r, db') = redis_sem c db in (r, (db', sc))),
      script_sha = sha_of,
      script_load = (\<lambda>i (db, sc). (db, i # sc)),
      script_find = (\<lambda>sha (db, sc). find (\<lambda>i. sha_of i = sha) sc)\<rparr>"

definition empty_db :: redis_db where
  "empty_db = \<lparr>db_lists = [], db_hashes = [], db_zsets = [], db_expire = []\<rparr>"

lemma inj_sha_of: "inj sha_of"
  by (rule injI) (auto simp: sha_of_def split: ScriptId.splits)

interpretation mem: redis_server mem_redis fst
proof
  fix sha s i assume "script_find mem_redis sha s = Some i"
  then show "sha = script_sha mem_redis i"
    by (auto simp: mem_redis_def find_Some_iff split: prod.splits)
qed (auto simp: mem_redis_def inj_sha_of split: prod.splits)

section \<open>The connection\<close>

datatype net_event = Deliver | LoseRequest | LoseReply

record 's conn =
  srv :: 's
  net :: "net_event list"
  shas :: "ScriptId \<Rightarrow> string"

definition lost :: exn where
  "lost = RedisError ''Failed to get reply''"

text \<open>One round trip: \<open>f\<close> is what the server does with the request.\<close>

definition transmit :: "('s, 'a) io \<Rightarrow> ('s conn, 'a) io" where
  "transmit f c =
     (let (r, s') = f (srv c)
      in case net c of
           [] \<Rightarrow> (r, c\<lparr>srv := s'\<rparr>)
         | Deliver # ns \<Rightarrow> (r, c\<lparr>srv := s', net := ns\<rparr>)
         | LoseRequest # ns \<Rightarrow> (Inl lost, c\<lparr>net := ns\<rparr>)
         | LoseReply # ns \<Rightarrow> (Inl lost, c\<lparr>srv := s', net := ns\<rparr>))"

text \<open>An error reply is thrown as an exception, by the client and by \<^verbatim>\<open>redis.call\<close>.\<close>

definition run_cmd :: "'s redis_ops \<Rightarrow> redis_cmd \<Rightarrow> ('s, redis_reply) io" where
  "run_cmd R c s = (case call R c s of (RErr e, s') \<Rightarrow> (Inl (RedisError e), s') | (r, s') \<Rightarrow> (Inr r, s'))"

definition redis_do :: "'s redis_ops \<Rightarrow> redis_cmd \<Rightarrow> ('s conn, redis_reply) io" where
  "redis_do R c = transmit (run_cmd R c)"

fun run_cmds :: "'s redis_ops \<Rightarrow> redis_cmd list \<Rightarrow> ('s, unit) io" where
  "run_cmds R [] = ret ()"
| "run_cmds R (c # cs) = then_io (run_cmd R c) (run_cmds R cs)"

text \<open>\<^verbatim>\<open>MULTI\<close>/\<^verbatim>\<open>EXEC\<close>: the queued commands run together in one round trip.\<close>

definition multi_exec :: "'s redis_ops \<Rightarrow> redis_cmd list \<Rightarrow> ('s conn, unit) io" where
  "multi_exec R cs = transmit (run_cmds R cs)"

section \<open>Lemmas on the keyspace\<close>

lemma at_simps [simp]:
  "list_at (put_list k xs db) k' = (if k' = k then xs else list_at db k')"
  "hash_at (put_hash k h db) k' = (if k' = k then h else hash_at db k')"
  "zset_at (put_zset k z db) k' = (if k' = k then z else zset_at db k')"
  "list_at (put_hash k h db) = list_at db" "list_at (put_zset k z db) = list_at db"
  "hash_at (put_list k xs db) = hash_at db" "hash_at (put_zset k z db) = hash_at db"
  "zset_at (put_list k xs db) = zset_at db" "zset_at (put_hash k h db) = zset_at db"
  by (auto simp: list_at_def hash_at_def zset_at_def put_list_def put_hash_def put_zset_def
      lookup_default_def fun_eq_iff)

lemma at_expire [simp]:
  "list_at (db\<lparr>db_expire := e\<rparr>) = list_at db" "hash_at (db\<lparr>db_expire := e\<rparr>) = hash_at db"
  "zset_at (db\<lparr>db_expire := e\<rparr>) = zset_at db"
  by (simp_all add: list_at_def hash_at_def zset_at_def fun_eq_iff)

lemma at_empty [simp]: "list_at empty_db k = []" "hash_at empty_db k = []" "zset_at empty_db k = []"
  by (simp_all add: empty_db_def list_at_def hash_at_def zset_at_def lookup_default_def)

lemma set_zset_insert: "set (zset_insert m sc z) = insert (m, sc) {p \<in> set z. fst p \<noteq> m}"
  by (auto simp: zset_insert_def set_insort_key)

lemma keys_distinct [key_simps]:
  "redis_kPending \<noteq> redis_kDead" "redis_kDead \<noteq> redis_kPending"
  "redis_kRunning \<noteq> redis_kStatus" "redis_kStatus \<noteq> redis_kRunning"
  "redis_kRunning \<noteq> redis_kResults" "redis_kResults \<noteq> redis_kRunning"
  "redis_kRunning \<noteq> redis_kFailures" "redis_kFailures \<noteq> redis_kRunning"
  "redis_kRunning \<noteq> redis_kMetrics" "redis_kMetrics \<noteq> redis_kRunning"
  "redis_kStatus \<noteq> redis_kResults" "redis_kResults \<noteq> redis_kStatus"
  "redis_kStatus \<noteq> redis_kFailures" "redis_kFailures \<noteq> redis_kStatus"
  "redis_kStatus \<noteq> redis_kMetrics" "redis_kMetrics \<noteq> redis_kStatus"
  "redis_kResults \<noteq> redis_kFailures" "redis_kFailures \<noteq> redis_kResults"
  "redis_kResults \<noteq> redis_kMetrics" "redis_kMetrics \<noteq> redis_kResults"
  "redis_kFailures \<noteq> redis_kMetrics" "redis_kMetrics \<noteq> redis_kFailures"
  by (simp_all add: key_defs)

lemma worker_key_distinct [key_simps]:
  "WorkerKey w \<noteq> redis_kRunning" "WorkerKey w \<noteq> redis_kStatus" "WorkerKey w \<noteq> redis_kResults"
  "WorkerKey w \<noteq> redis_kFailures" "WorkerKey w \<noteq> redis_kMetrics" "WorkerKey w \<noteq> redis_kPending"
  "WorkerKey w \<noteq> redis_kDead" "WorkerKey w \<noteq> redis_kDelayed"
  "redis_kRunning \<noteq> WorkerKey w" "redis_kStatus \<noteq> WorkerKey w" "redis_kResults \<noteq> WorkerKey w"
  "redis_kFailures \<noteq> WorkerKey w" "redis_kMetrics \<noteq> WorkerKey w"
  by (simp_all add: key_defs)

lemma kinds [key_simps]:
  "kind_of redis_kPending = ListKey" "kind_of redis_kDead = ListKey"
  "kind_of redis_kDelayed = ZsetKey" "kind_of redis_kRunning = HashKey"
  "kind_of redis_kStatus = HashKey" "kind_of redis_kResults = HashKey"
  "kind_of redis_kFailures = HashKey" "kind_of redis_kMetrics = HashKey"
  "kind_of (WorkerKey w) = HashKey"
  by (simp_all add: kind_of_def key_defs)

end
