(* ===== verification/Redis_Scripts.thy ===== *)
theory Redis_Scripts
  imports Wire Redis
begin

text \<open>
  The Lua scripts that move a task between the queues, each executed atomically by the server,
  and the C++ class that registers and calls them: src/redis_scripts.cc. A script is a function
  of its \<open>KEYS\<close> and \<open>ARGV\<close>; an argument the C++ side prints with \<^verbatim>\<open>std::to_string\<close> and the
  script reads with \<^verbatim>\<open>tonumber\<close> is passed as the number itself.
\<close>

text \<open>
  The environment of the C++ code: the JSON and number codec, the Redis server, and the order in
  which a \<^verbatim>\<open>std::unordered_map\<close> that was filled from an \<^verbatim>\<open>HGETALL\<close> reply is iterated, which the
  standard leaves open.
\<close>

record 's ext =
  codec :: text_ops
  rds :: "'s redis_ops"
  umap_order :: "(string \<times> string) list \<Rightarrow> (string \<times> string) list"

section \<open>Lua primitives\<close>

definition redis_call :: "'s ext \<Rightarrow> redis_cmd \<Rightarrow> ('s, redis_reply) io" where
  "redis_call X c = run_cmd (rds X) c"

definition cjson_encode :: "'s ext \<Rightarrow> lua \<Rightarrow> ('s, string) io" where
  "cjson_encode X v =
     (case cj_encode (codec X) v of
        Some t \<Rightarrow> ret t
      | None \<Rightarrow> throw (LuaError ''Cannot serialise value''))"

text \<open>A Lua value as an argument of \<^verbatim>\<open>redis.call\<close>: strings and numbers only.\<close>

fun lua_arg :: "'s ext \<Rightarrow> lua \<Rightarrow> ('s, string) io" where
  "lua_arg X (LStr s) = ret s"
| "lua_arg X (LNum d) = ret (num_text (codec X) d)"
| "lua_arg X _ = throw (LuaError ''Lua redis lib command arguments must be strings or integers'')"

text \<open>\<^verbatim>\<open>static_cast<double>\<close> of a 64-bit integer, as a score or a Lua number.\<close>

definition score_of :: "int \<Rightarrow> rat" where
  "score_of i = (case double_of_int i of DFin q \<Rightarrow> q | _ \<Rightarrow> 0)"

fun tonumber :: "'s ext \<Rightarrow> lua \<Rightarrow> ('s, double) io" where
  "tonumber X (LNum d) = ret d"
| "tonumber X (LStr s) =
     (case text_num (codec X) s of
        Some d \<Rightarrow> ret d
      | None \<Rightarrow> throw (LuaError ''attempt to perform arithmetic on a nil value''))"
| "tonumber X _ = throw (LuaError ''attempt to perform arithmetic on a nil value'')"

section \<open>The scripts\<close>

definition kReserveScript :: "'s ext \<Rightarrow> string \<Rightarrow> string \<Rightarrow> string \<Rightarrow> int \<Rightarrow> ('s, redis_reply) io" where
  "kReserveScript X KEYS1 KEYS2 KEYS3 ARGV1 =
     bind_io (redis_call X (RPOP KEYS1)) (\<lambda>json.
       case json of
         RBulk json \<Rightarrow>
           (case cj_decode (codec X) json of
              None \<Rightarrow> ret RNil
            | Some msg \<Rightarrow>
                if \<not> is_table msg \<or> \<not> truthy (lget msg ''id'') then ret RNil
                else let msg = lset ''status'' (LStr ''running'') msg;
                         msg = lset ''reserved_at_ms'' (LNum (double_of_int ARGV1)) msg
                     in bind_io (cjson_encode X msg) (\<lambda>running_json.
                        bind_io (lua_arg X (lget msg ''id'')) (\<lambda>mid.
                        then_io (redis_call X (HSET KEYS2 mid running_json))
                       (then_io (redis_call X (HSET KEYS3 mid ''running''))
                                (ret (RBulk running_json))))))
       | _ \<Rightarrow> ret RNil)"

definition kPromoteOneScript ::
    "'s ext \<Rightarrow> string \<Rightarrow> string \<Rightarrow> string \<Rightarrow> int \<Rightarrow> string \<Rightarrow> ('s, redis_reply) io" where
  "kPromoteOneScript X KEYS1 KEYS2 KEYS3 ARGV1 pending_status =
     bind_io (redis_call X (ZRANGEBYSCORE_first KEYS1 (score_of ARGV1))) (\<lambda>items.
       case items of
         RMulti (member # _) \<Rightarrow>
           bind_io (redis_call X (ZREM KEYS1 member)) (\<lambda>removed.
             if removed = RInt 0 then ret (RInt 0)
             else case cj_decode (codec X) member of
                    None \<Rightarrow> ret (RInt 0)
                  | Some msg \<Rightarrow>
                      if \<not> is_table msg \<or> \<not> truthy (lget msg ''id'') then ret (RInt 0)
                      else let msg = lset ''run_at_ms'' LNil msg;
                               msg = lset ''status'' (LStr ''pending'') msg
                           in bind_io (cjson_encode X msg) (\<lambda>text.
                              then_io (redis_call X (LPUSH KEYS2 text))
                             (bind_io (lua_arg X (lget msg ''id'')) (\<lambda>mid.
                              then_io (redis_call X (HSET KEYS3 mid pending_status))
                                      (ret (RInt 1))))))
       | _ \<Rightarrow> ret (RInt 0))"

definition kReclaimOneScript ::
    "'s ext \<Rightarrow> string \<Rightarrow> string \<Rightarrow> string \<Rightarrow> string \<Rightarrow> int \<Rightarrow> int \<Rightarrow> ('s, redis_reply) io" where
  "kReclaimOneScript X KEYS1 KEYS2 KEYS3 task_id ARGV2 ARGV3 =
     bind_io (redis_call X (HGET KEYS1 task_id)) (\<lambda>json.
       case json of
         RBulk json \<Rightarrow>
           (case cj_decode (codec X) json of
              None \<Rightarrow> ret (RInt 0)
            | Some msg \<Rightarrow>
                if \<not> is_table msg \<or> \<not> truthy (lget msg ''reserved_at_ms'') then ret (RInt 0)
                else bind_io (tonumber X (lget msg ''reserved_at_ms'')) (\<lambda>reserved_at.
                     if dle (dsub (double_of_int ARGV2) reserved_at) (double_of_int ARGV3)
                     then ret (RInt 0)
                     else bind_io (redis_call X (HDEL KEYS1 task_id)) (\<lambda>removed.
                          if removed = RInt 0 then ret (RInt 0)
                          else let msg = lset ''status'' (LStr ''pending'') msg;
                                   msg = lset ''reserved_at_ms'' LNil msg
                               in bind_io (cjson_encode X msg) (\<lambda>text.
                                  then_io (redis_call X (LPUSH KEYS2 text))
                                 (then_io (redis_call X (HSET KEYS3 task_id ''pending''))
                                          (ret (RInt 1)))))))
       | _ \<Rightarrow> ret (RInt 0))"

definition kRetryScript ::
    "'s ext \<Rightarrow> string \<Rightarrow> string \<Rightarrow> string \<Rightarrow> string \<Rightarrow> string \<Rightarrow> string \<Rightarrow> int \<Rightarrow> string \<Rightarrow> string \<Rightarrow>
     ('s, redis_reply) io" where
  "kRetryScript X KEYS1 KEYS2 KEYS3 KEYS4 ARGV1 ARGV2 ARGV3 ARGV4 ARGV5 =
     then_io (redis_call X (HDEL KEYS1 ARGV1))
    (then_io (redis_call X (ZADD KEYS2 (score_of ARGV3) ARGV2))
    (then_io (redis_call X (HSET KEYS3 ARGV1 ARGV5))
    (then_io (redis_call X (HSET KEYS4 ARGV1 ARGV4))
             (ret (RInt 1)))))"

definition kFailScript ::
    "'s ext \<Rightarrow> string \<Rightarrow> string \<Rightarrow> string \<Rightarrow> string \<Rightarrow> string \<Rightarrow> string \<Rightarrow> string \<Rightarrow>
     ('s, redis_reply) io" where
  "kFailScript X KEYS1 KEYS2 KEYS3 KEYS4 task_id ARGV2 ARGV3 =
     bind_io (redis_call X (HGET KEYS1 task_id)) (\<lambda>json.
     then_io (redis_call X (HDEL KEYS1 task_id))
    (then_io
       (case json of
          RBulk json \<Rightarrow>
            (case cj_decode (codec X) json of
               None \<Rightarrow> ret ()
             | Some msg \<Rightarrow>
                 if is_table msg
                 then let msg = lset ''status'' (LStr ''dead'') msg;
                          msg = lset ''last_error'' (LStr ARGV2) msg
                      in bind_io (cjson_encode X msg) (\<lambda>text.
                         then_io (redis_call X (LPUSH KEYS2 text)) (ret ()))
                 else ret ())
        | _ \<Rightarrow> ret ())
    (then_io (redis_call X (HSET KEYS3 task_id ARGV2))
    (then_io (redis_call X (HSET KEYS4 task_id ARGV3))
             (ret (RInt 1))))))"

definition kAckScript ::
    "'s ext \<Rightarrow> string \<Rightarrow> string \<Rightarrow> string \<Rightarrow> string \<Rightarrow> string \<Rightarrow> string \<Rightarrow> string \<Rightarrow>
     ('s, redis_reply) io" where
  "kAckScript X KEYS1 KEYS2 KEYS3 KEYS4 task_id result_json succeeded_status =
     then_io (redis_call X (HDEL KEYS1 task_id))
    (then_io (redis_call X (HSET KEYS2 task_id succeeded_status))
    (then_io (redis_call X (HSET KEYS3 task_id result_json))
    (then_io (redis_call X (HDEL KEYS4 task_id))
             (ret (RInt 1)))))"

text \<open>The body of the \<^verbatim>\<open>for\<close> loop of \<^verbatim>\<open>kRetryDeadTaskScript\<close>, over the listed items.\<close>

fun retry_dead_loop ::
    "'s ext \<Rightarrow> string \<Rightarrow> string \<Rightarrow> string \<Rightarrow> string \<Rightarrow> string \<Rightarrow> string list \<Rightarrow> ('s, redis_reply) io" where
  "retry_dead_loop X KEYS1 KEYS2 KEYS3 KEYS4 task_id [] = ret (RInt 0)"
| "retry_dead_loop X KEYS1 KEYS2 KEYS3 KEYS4 task_id (json # items) =
     (case cj_decode (codec X) json of
        None \<Rightarrow> retry_dead_loop X KEYS1 KEYS2 KEYS3 KEYS4 task_id items
      | Some msg \<Rightarrow>
          if is_table msg \<and> lget msg ''id'' = LStr task_id
          then bind_io (redis_call X (LREM_one KEYS1 json)) (\<lambda>removed.
               if removed = RInt 0 then ret (RInt 0)
               else let msg = lset ''status'' (LStr ''pending'') msg;
                        msg = lset ''retry_count'' (LNum (DFin 0)) msg;
                        msg = lset ''last_error'' LNil msg;
                        msg = lset ''run_at_ms'' LNil msg;
                        msg = lset ''reserved_at_ms'' LNil msg
                    in bind_io (cjson_encode X msg) (\<lambda>text.
                       then_io (redis_call X (LPUSH KEYS2 text))
                      (then_io (redis_call X (HSET KEYS3 task_id ''pending''))
                      (then_io (redis_call X (HDEL KEYS4 task_id))
                               (ret (RInt 1))))))
          else retry_dead_loop X KEYS1 KEYS2 KEYS3 KEYS4 task_id items)"

definition kRetryDeadTaskScript ::
    "'s ext \<Rightarrow> string \<Rightarrow> string \<Rightarrow> string \<Rightarrow> string \<Rightarrow> string \<Rightarrow> ('s, redis_reply) io" where
  "kRetryDeadTaskScript X KEYS1 KEYS2 KEYS3 KEYS4 task_id =
     bind_io (redis_call X (LRANGE_all KEYS1)) (\<lambda>items.
       case items of
         RMulti items \<Rightarrow> retry_dead_loop X KEYS1 KEYS2 KEYS3 KEYS4 task_id items
       | _ \<Rightarrow> ret (RInt 0))"

section \<open>Registering and calling scripts\<close>

datatype argv = AStr string | ANum int

text \<open>The script a hash stands for, applied to the keys and arguments of the call.\<close>

definition bad_args :: "('s, redis_reply) io" where
  "bad_args = throw (LuaError ''wrong number of arguments'')"

definition run_script :: "'s ext \<Rightarrow> ScriptId \<Rightarrow> string list \<Rightarrow> argv list \<Rightarrow> ('s, redis_reply) io" where
  "run_script X i keys args =
     (case i of
        kReserve \<Rightarrow>
          (case (keys, args) of
             ([k1, k2, k3], [ANum a1]) \<Rightarrow> kReserveScript X k1 k2 k3 a1 | _ \<Rightarrow> bad_args)
      | kPromoteOne \<Rightarrow>
          (case (keys, args) of
             ([k1, k2, k3], [ANum a1, AStr a2]) \<Rightarrow> kPromoteOneScript X k1 k2 k3 a1 a2
           | _ \<Rightarrow> bad_args)
      | kReclaimOne \<Rightarrow>
          (case (keys, args) of
             ([k1, k2, k3], [AStr a1, ANum a2, ANum a3]) \<Rightarrow> kReclaimOneScript X k1 k2 k3 a1 a2 a3
           | _ \<Rightarrow> bad_args)
      | kRetry \<Rightarrow>
          (case (keys, args) of
             ([k1, k2, k3, k4], [AStr a1, AStr a2, ANum a3, AStr a4, AStr a5]) \<Rightarrow>
               kRetryScript X k1 k2 k3 k4 a1 a2 a3 a4 a5
           | _ \<Rightarrow> bad_args)
      | kFail \<Rightarrow>
          (case (keys, args) of
             ([k1, k2, k3, k4], [AStr a1, AStr a2, AStr a3]) \<Rightarrow> kFailScript X k1 k2 k3 k4 a1 a2 a3
           | _ \<Rightarrow> bad_args)
      | kAck \<Rightarrow>
          (case (keys, args) of
             ([k1, k2, k3, k4], [AStr a1, AStr a2, AStr a3]) \<Rightarrow> kAckScript X k1 k2 k3 k4 a1 a2 a3
           | _ \<Rightarrow> bad_args)
      | kRetryDeadTask \<Rightarrow>
          (case (keys, args) of
             ([k1, k2, k3, k4], [AStr a1]) \<Rightarrow> kRetryDeadTaskScript X k1 k2 k3 k4 a1
           | _ \<Rightarrow> bad_args))"

lemma run_script_simps [simp]:
  "run_script X kReserve [k1, k2, k3] [ANum n] = kReserveScript X k1 k2 k3 n"
  "run_script X kPromoteOne [k1, k2, k3] [ANum n, AStr a2] = kPromoteOneScript X k1 k2 k3 n a2"
  "run_script X kReclaimOne [k1, k2, k3] [AStr a1, ANum n, ANum m] =
     kReclaimOneScript X k1 k2 k3 a1 n m"
  "run_script X kRetry [k1, k2, k3, k4] [AStr a1, AStr a2, ANum n, AStr a4, AStr a5] =
     kRetryScript X k1 k2 k3 k4 a1 a2 n a4 a5"
  "run_script X kFail [k1, k2, k3, k4] [AStr a1, AStr a2, AStr a3] =
     kFailScript X k1 k2 k3 k4 a1 a2 a3"
  "run_script X kAck [k1, k2, k3, k4] [AStr a1, AStr a2, AStr a3] =
     kAckScript X k1 k2 k3 k4 a1 a2 a3"
  "run_script X kRetryDeadTask [k1, k2, k3, k4] [AStr a1] = kRetryDeadTaskScript X k1 k2 k3 k4 a1"
  by (simp_all add: run_script_def)

fun error_reply :: "exn \<Rightarrow> exn" where
  "error_reply (LuaError m) = RedisError m"
| "error_reply e = e"

definition noscript :: exn where
  "noscript = RedisError ''NOSCRIPT No matching script. Please use EVAL.''"

definition server_evalsha ::
    "'s ext \<Rightarrow> string \<Rightarrow> string list \<Rightarrow> argv list \<Rightarrow> ('s, redis_reply) io" where
  "server_evalsha X sha keys args s =
     (case script_find (rds X) sha s of
        None \<Rightarrow> (Inl noscript, s)
      | Some i \<Rightarrow> catch_io (run_script X i keys args) (\<lambda>e. throw (error_reply e)) s)"

fun is_infix :: "string \<Rightarrow> string \<Rightarrow> bool" where
  "is_infix p [] = (p = [])"
| "is_infix p (c # s) = (take (length p) (c # s) = p \<or> is_infix p s)"

fun IsNoScriptError :: "exn \<Rightarrow> bool" where
  "IsNoScriptError (RedisError message) = is_infix ''NOSCRIPT'' message"
| "IsNoScriptError _ = False"

definition LoadScript :: "'s ext \<Rightarrow> ScriptId \<Rightarrow> ('s conn, unit) io" where
  "LoadScript X i =
     bind_io (transmit (\<lambda>s. (Inr (script_sha (rds X) i), script_load (rds X) i s))) (\<lambda>sha c.
       (Inr (), c\<lparr>shas := (shas c)(i := sha)\<rparr>))"

fun LoadScriptList :: "'s ext \<Rightarrow> ScriptId list \<Rightarrow> ('s conn, unit) io" where
  "LoadScriptList X [] = ret ()"
| "LoadScriptList X (i # is) = then_io (LoadScript X i) (LoadScriptList X is)"

definition LoadScripts :: "'s ext \<Rightarrow> ('s conn, unit) io" where
  "LoadScripts X =
     LoadScriptList X [kReserve, kPromoteOne, kReclaimOne, kRetry, kFail, kAck, kRetryDeadTask]"

definition evalsha :: "'s ext \<Rightarrow> ScriptId \<Rightarrow> string list \<Rightarrow> argv list \<Rightarrow> ('s conn, redis_reply) io" where
  "evalsha X i keys args = (\<lambda>c. transmit (server_evalsha X (shas c i) keys args) c)"

definition Eval :: "'s ext \<Rightarrow> ScriptId \<Rightarrow> string list \<Rightarrow> argv list \<Rightarrow> ('s conn, redis_reply) io" where
  "Eval X i keys args =
     catch_io (evalsha X i keys args)
       (\<lambda>error. if \<not> IsNoScriptError error then throw error
                else then_io (LoadScript X i) (evalsha X i keys args))"

fun as_optional_string :: "redis_reply \<Rightarrow> exn + string option" where
  "as_optional_string RNil = Inr None"
| "as_optional_string (RBulk s) = Inr (Some s)"
| "as_optional_string _ = Inl (RedisError ''Expect STRING reply'')"

fun as_long_long :: "redis_reply \<Rightarrow> exn + int" where
  "as_long_long (RInt n) = Inr n"
| "as_long_long _ = Inl (RedisError ''Expect INTEGER reply'')"

definition RedisScripts_Reserve :: "'s ext \<Rightarrow> int \<Rightarrow> ('s conn, string option) io" where
  "RedisScripts_Reserve X reserved_at_ms =
     bind_io (Eval X kReserve [redis_kPending, redis_kRunning, redis_kStatus] [ANum reserved_at_ms])
       (\<lambda>r. lift_io (as_optional_string r))"

definition RedisScripts_PromoteOneDueTask :: "'s ext \<Rightarrow> int \<Rightarrow> ('s conn, int) io" where
  "RedisScripts_PromoteOneDueTask X now_ms =
     bind_io (Eval X kPromoteOne [redis_kDelayed, redis_kPending, redis_kStatus]
                [ANum now_ms, AStr (TaskStatusToString kPending)])
       (\<lambda>r. lift_io (map_sum id to_i32 (as_long_long r)))"

definition RedisScripts_ReclaimOneStaleTask ::
    "'s ext \<Rightarrow> string \<Rightarrow> int \<Rightarrow> int \<Rightarrow> ('s conn, int) io" where
  "RedisScripts_ReclaimOneStaleTask X task_id now_ms visibility_timeout_ms =
     bind_io (Eval X kReclaimOne [redis_kRunning, redis_kPending, redis_kStatus]
                [AStr task_id, ANum now_ms, ANum visibility_timeout_ms])
       (\<lambda>r. lift_io (map_sum id to_i32 (as_long_long r)))"

definition RedisScripts_Retry ::
    "'s ext \<Rightarrow> string \<Rightarrow> string \<Rightarrow> int \<Rightarrow> string \<Rightarrow> ('s conn, unit) io" where
  "RedisScripts_Retry X task_id delayed_json run_at_ms reason =
     bind_io (Eval X kRetry [redis_kRunning, redis_kDelayed, redis_kStatus, redis_kFailures]
                [AStr task_id, AStr delayed_json, ANum run_at_ms, AStr reason,
                 AStr (TaskStatusToString kRetrying)])
       (\<lambda>r. lift_io (map_sum id (\<lambda>_. ()) (as_long_long r)))"

definition RedisScripts_Fail :: "'s ext \<Rightarrow> string \<Rightarrow> string \<Rightarrow> ('s conn, unit) io" where
  "RedisScripts_Fail X task_id reason =
     bind_io (Eval X kFail [redis_kRunning, redis_kDead, redis_kFailures, redis_kStatus]
                [AStr task_id, AStr reason, AStr (TaskStatusToString kDead)])
       (\<lambda>r. lift_io (map_sum id (\<lambda>_. ()) (as_long_long r)))"

definition RedisScripts_Ack :: "'s ext \<Rightarrow> string \<Rightarrow> string \<Rightarrow> ('s conn, unit) io" where
  "RedisScripts_Ack X task_id result_json =
     bind_io (Eval X kAck [redis_kRunning, redis_kStatus, redis_kResults, redis_kFailures]
                [AStr task_id, AStr result_json, AStr (TaskStatusToString kSucceeded)])
       (\<lambda>r. lift_io (map_sum id (\<lambda>_. ()) (as_long_long r)))"

definition RedisScripts_RetryDeadTask :: "'s ext \<Rightarrow> string \<Rightarrow> ('s conn, bool) io" where
  "RedisScripts_RetryDeadTask X task_id =
     bind_io (Eval X kRetryDeadTask [redis_kDead, redis_kPending, redis_kStatus, redis_kFailures]
                [AStr task_id])
       (\<lambda>r. lift_io (map_sum id (\<lambda>n. n = 1) (as_long_long r)))"

end
