(* ===== verification/Metrics.thy ===== *)
theory Metrics
  imports Cxx_Numbers "HOL-Library.Multiset"
begin

text \<open>
  Counters, gauges and duration histograms (include/taskqueue/metrics.h, src/metrics.cc), queue
  statistics and worker heartbeats (broker_stats.h, worker_heartbeat.h) and the live gauges of
  a snapshot (src/metrics_snapshot.cc). A \<^verbatim>\<open>std::unordered_map\<close> is an association list.
\<close>

section \<open>Names\<close>

definition kTasksEnqueuedTotal :: string where "kTasksEnqueuedTotal = ''tasks_enqueued_total''"
definition kTasksCompletedTotal :: string where "kTasksCompletedTotal = ''tasks_completed_total''"
definition kTasksFailedTotal :: string where "kTasksFailedTotal = ''tasks_failed_total''"
definition kTasksRetriedTotal :: string where "kTasksRetriedTotal = ''tasks_retried_total''"
definition kTasksDeadLetteredTotal :: string where
  "kTasksDeadLetteredTotal = ''tasks_dead_lettered_total''"
definition kRedisOperationErrorsTotal :: string where
  "kRedisOperationErrorsTotal = ''redis_operation_errors_total''"
definition kQueueDepth :: string where "kQueueDepth = ''queue_depth''"
definition kDelayedDepth :: string where "kDelayedDepth = ''delayed_depth''"
definition kRunningTasks :: string where "kRunningTasks = ''running_tasks''"
definition kWorkerThreadsActive :: string where "kWorkerThreadsActive = ''worker_threads_active''"
definition kTaskExecutionDurationMs :: string where
  "kTaskExecutionDurationMs = ''task_execution_duration_ms''"

lemmas metric_name_defs =
  kTasksEnqueuedTotal_def kTasksCompletedTotal_def kTasksFailedTotal_def kTasksRetriedTotal_def
  kTasksDeadLetteredTotal_def kRedisOperationErrorsTotal_def kQueueDepth_def kDelayedDepth_def
  kRunningTasks_def kWorkerThreadsActive_def kTaskExecutionDurationMs_def

section \<open>Data\<close>

record DurationHistogram =
  h_count :: int
  h_sum_ms :: int
  h_max_ms :: int

definition DurationHistogram_default :: DurationHistogram where
  "DurationHistogram_default = \<lparr>h_count = 0, h_sum_ms = 0, h_max_ms = 0\<rparr>"

record MetricsSnapshot =
  counters :: "(string \<times> int) list"
  gauges :: "(string \<times> int) list"
  histograms :: "(string \<times> DurationHistogram) list"

definition MetricsSnapshot_empty :: MetricsSnapshot where
  "MetricsSnapshot_empty = \<lparr>counters = [], gauges = [], histograms = []\<rparr>"

record BrokerStats =
  pending_count :: nat
  delayed_count :: nat
  running_count :: nat
  dead_count :: nat

record WorkerHeartbeat =
  worker_id :: string
  hostname :: string
  pid :: int
  started_at_ms :: int
  last_seen_ms :: int
  concurrency :: size_t
  currently_running :: size_t

definition WorkerHeartbeat_default :: WorkerHeartbeat where
  "WorkerHeartbeat_default =
     \<lparr>worker_id = '''', hostname = '''', pid = 0, started_at_ms = 0, last_seen_ms = 0,
      concurrency = 0, currently_running = 0\<rparr>"

section \<open>MetricsCollector\<close>

text \<open>\<^verbatim>\<open>m[name]\<close>: the stored value, or a value-initialised one.\<close>

definition map_ref :: "'v \<Rightarrow> (string \<times> 'v) list \<Rightarrow> string \<Rightarrow> 'v" where
  "map_ref d m name = (case map_of m name of Some v \<Rightarrow> v | None \<Rightarrow> d)"

definition IncrementCounter :: "MetricsSnapshot \<Rightarrow> string \<Rightarrow> int \<Rightarrow> exn + MetricsSnapshot" where
  "IncrementCounter m name delta =
     bind_sum (add_i64 (map_ref 0 (counters m) name) delta)
       (\<lambda>v. Inr (m\<lparr>counters := AList.update name v (counters m)\<rparr>))"

definition SetGauge :: "MetricsSnapshot \<Rightarrow> string \<Rightarrow> int \<Rightarrow> MetricsSnapshot" where
  "SetGauge m name value = m\<lparr>gauges := AList.update name value (gauges m)\<rparr>"

definition ObserveDurationMs :: "MetricsSnapshot \<Rightarrow> string \<Rightarrow> int \<Rightarrow> exn + MetricsSnapshot" where
  "ObserveDurationMs m name duration_ms =
     (let h = map_ref DurationHistogram_default (histograms m) name
      in bind_sum (add_i64 (h_count h) 1) (\<lambda>n.
         bind_sum (add_i64 (h_sum_ms h) duration_ms) (\<lambda>s.
         Inr (m\<lparr>histograms := AList.update name
                  \<lparr>h_count = n, h_sum_ms = s, h_max_ms = max (h_max_ms h) duration_ms\<rparr>
                  (histograms m)\<rparr>))))"

definition MetricsCollector_Snapshot :: "MetricsSnapshot \<Rightarrow> MetricsSnapshot" where
  "MetricsCollector_Snapshot collector =
     MetricsSnapshot_empty\<lparr>counters := counters collector, gauges := gauges collector,
       histograms := histograms collector\<rparr>"

section \<open>Text formats\<close>

text \<open>The names of a map, sorted; a map has each name once.\<close>

definition sorted_names :: "(string \<times> 'v) list \<Rightarrow> string list" where
  "sorted_names m = sort (map fst m)"

definition AppendValue :: "string \<Rightarrow> int \<Rightarrow> string" where
  "AppendValue name value = name @ '' '' @ to_string value @ [CHR 0x0A]"

definition FormatMetricsPlainText :: "MetricsSnapshot \<Rightarrow> string" where
  "FormatMetricsPlainText snapshot =
     ''# counters'' @ [CHR 0x0A] @
     concat (map (\<lambda>name. AppendValue name (map_ref 0 (counters snapshot) name))
       (sorted_names (counters snapshot))) @
     ''# gauges'' @ [CHR 0x0A] @
     concat (map (\<lambda>name. AppendValue name (map_ref 0 (gauges snapshot) name))
       (sorted_names (gauges snapshot))) @
     ''# histograms'' @ [CHR 0x0A] @
     concat (map (\<lambda>name.
         let h = map_ref DurationHistogram_default (histograms snapshot) name
         in AppendValue (name @ ''_count'') (h_count h) @
            AppendValue (name @ ''_sum_ms'') (h_sum_ms h) @
            AppendValue (name @ ''_max_ms'') (h_max_ms h))
       (sorted_names (histograms snapshot)))"

definition type_line :: "string \<Rightarrow> string \<Rightarrow> string" where
  "type_line name kind = ''# TYPE '' @ name @ '' '' @ kind @ [CHR 0x0A]"

definition FormatMetricsPrometheus :: "MetricsSnapshot \<Rightarrow> string" where
  "FormatMetricsPrometheus snapshot =
     concat (map (\<lambda>name.
         type_line name ''counter'' @ AppendValue name (map_ref 0 (counters snapshot) name))
       (sorted_names (counters snapshot))) @
     concat (map (\<lambda>name.
         type_line name ''gauge'' @ AppendValue name (map_ref 0 (gauges snapshot) name))
       (sorted_names (gauges snapshot))) @
     concat (map (\<lambda>name.
         let h = map_ref DurationHistogram_default (histograms snapshot) name
         in type_line name ''summary'' @
            AppendValue (name @ ''_count'') (h_count h) @
            AppendValue (name @ ''_sum'') (h_sum_ms h) @
            AppendValue (name @ ''_max'') (h_max_ms h))
       (sorted_names (histograms snapshot)))"

section \<open>Live gauges\<close>

definition i64_of_size :: "size_t \<Rightarrow> int" where
  "i64_of_size w = to_i64 (uint w)"

definition ApplyBrokerGauges ::
    "MetricsSnapshot \<Rightarrow> BrokerStats \<Rightarrow> WorkerHeartbeat list \<Rightarrow> MetricsSnapshot" where
  "ApplyBrokerGauges snapshot stats workers =
     (let snapshot = SetGauge snapshot kQueueDepth (i64_of_size (of_nat (pending_count stats)));
          snapshot = SetGauge snapshot kDelayedDepth (i64_of_size (of_nat (delayed_count stats)));
          snapshot = SetGauge snapshot kRunningTasks (i64_of_size (of_nat (running_count stats)));
          active_threads = foldl (\<lambda>n worker. n + currently_running worker) 0 workers
      in SetGauge snapshot kWorkerThreadsActive (i64_of_size active_threads))"

end
