(* ===== verification/Redis_Broker.thy ===== *)
theory Redis_Broker
  imports Redis_Scripts Metrics
begin

text \<open>
  The Redis broker: src/redis_broker.cc, every operation of \<^verbatim>\<open>tq::RedisBroker\<close>. The clock reading
  an operation takes (\<open>now_ms\<close>) and the random bytes of a generated identifier are arguments.
\<close>

section \<open>Metrics in Redis\<close>

definition kCounterPrefix :: string where "kCounterPrefix = ''c:''"
definition kHistogramPrefix :: string where "kHistogramPrefix = ''h:''"

definition CounterField :: "string \<Rightarrow> string" where
  "CounterField name = kCounterPrefix @ name"

definition HistogramCountField :: "string \<Rightarrow> string" where
  "HistogramCountField name = kHistogramPrefix @ name @ '':count''"

definition HistogramSumField :: "string \<Rightarrow> string" where
  "HistogramSumField name = kHistogramPrefix @ name @ '':sum''"

definition HistogramMaxField :: "string \<Rightarrow> string" where
  "HistogramMaxField name = kHistogramPrefix @ name @ '':max''"

definition StartsWith :: "string \<Rightarrow> string \<Rightarrow> bool" where
  "StartsWith value prefix \<longleftrightarrow>
     length prefix \<le> length value \<and> take (length prefix) value = prefix"

text \<open>\<^verbatim>\<open>catch (const sw::redis::Error&)\<close>: only Redis errors are caught.\<close>

definition catch_redis :: "('s, 'a) io \<Rightarrow> ('s, 'a) io \<Rightarrow> ('s, 'a) io" where
  "catch_redis m h = catch_io m (\<lambda>e. case e of RedisError _ \<Rightarrow> h | _ \<Rightarrow> throw e)"

definition RecordRedisOperationError :: "'s ext \<Rightarrow> ('s conn, unit) io" where
  "RecordRedisOperationError X =
     catch_redis
       (then_io (redis_do (rds X)
                   (HINCRBY redis_kMetrics (CounterField kRedisOperationErrorsTotal) 1)) (ret ()))
       (ret ())"

definition RecordCounter :: "'s ext \<Rightarrow> string \<Rightarrow> int \<Rightarrow> ('s conn, unit) io" where
  "RecordCounter X name delta =
     catch_redis
       (then_io (redis_do (rds X) (HINCRBY redis_kMetrics (CounterField name) delta)) (ret ()))
       (RecordRedisOperationError X)"

definition RecordDurationMs :: "'s ext \<Rightarrow> string \<Rightarrow> int \<Rightarrow> ('s conn, unit) io" where
  "RecordDurationMs X name duration_ms =
     catch_redis
       (then_io (redis_do (rds X) (HINCRBY redis_kMetrics (HistogramCountField name) 1))
       (then_io (redis_do (rds X) (HINCRBY redis_kMetrics (HistogramSumField name) duration_ms))
       (bind_io (redis_do (rds X) (HGET redis_kMetrics (HistogramMaxField name))) (\<lambda>reply.
        bind_io (lift_io (as_optional_string reply)) (\<lambda>current_max.
        bind_io (case current_max of
                   None \<Rightarrow> ret True
                 | Some t \<Rightarrow> bind_io (lift_io (stoll t)) (\<lambda>v. ret (v < duration_ms))) (\<lambda>update.
        if update
        then then_io (redis_do (rds X)
               (HSET redis_kMetrics (HistogramMaxField name) (to_string duration_ms))) (ret ())
        else ret ()))))))
       (RecordRedisOperationError X)"

section \<open>Queue operations\<close>

definition RedisBroker_Enqueue ::
    "'s ext \<Rightarrow> 8 word list \<Rightarrow> int \<Rightarrow> TaskMessage \<Rightarrow> ('s conn, TaskId) io" where
  "RedisBroker_Enqueue X bytes now_ms task =
     (let message = (if TaskId_Value (m_id task) = '''' then task\<lparr>m_id := TaskId_Generate bytes\<rparr>
                     else task);
          message = message\<lparr>m_status := kPending\<rparr>;
          pending_status = TaskStatusToString kPending;
          delayed = (case m_run_at_ms message of Some t \<Rightarrow> t > now_ms | None \<Rightarrow> False)
      in if delayed
         then bind_io (lift_io (dump (codec X) (TaskMessage_ToJson message))) (\<lambda>json.
              then_io (multi_exec (rds X)
                [ZADD redis_kDelayed (score_of (the (m_run_at_ms message))) json,
                 HSET redis_kStatus (TaskId_Value (m_id message)) pending_status])
             (then_io (RecordCounter X kTasksEnqueuedTotal 1)
                      (ret (m_id message))))
         else let message = message\<lparr>m_run_at_ms := None\<rparr>
              in bind_io (lift_io (dump (codec X) (TaskMessage_ToJson message))) (\<lambda>json.
                 then_io (multi_exec (rds X)
                   [LPUSH redis_kPending json,
                    HSET redis_kStatus (TaskId_Value (m_id message)) pending_status])
                (then_io (RecordCounter X kTasksEnqueuedTotal 1)
                         (ret (m_id message)))))"

text \<open>
  \<^verbatim>\<open>while (scripts_.PromoteOneDueTask(now_ms) > 0) {}\<close>: \<open>fuel\<close> bounds the iterations; running out
  of it is the value \<open>None\<close>.
\<close>

fun promote_loop :: "'s ext \<Rightarrow> nat \<Rightarrow> int \<Rightarrow> ('s conn, unit option) io" where
  "promote_loop X 0 now_ms = ret None"
| "promote_loop X (Suc fuel) now_ms =
     bind_io (RedisScripts_PromoteOneDueTask X now_ms) (\<lambda>n.
       if n > 0 then promote_loop X fuel now_ms else ret (Some ()))"

definition RedisBroker_PromoteDueTasks :: "'s ext \<Rightarrow> nat \<Rightarrow> int \<Rightarrow> ('s conn, unit option) io" where
  "RedisBroker_PromoteDueTasks X fuel now_ms = promote_loop X fuel now_ms"

definition RedisBroker_Reserve :: "'s ext \<Rightarrow> int \<Rightarrow> ('s conn, TaskMessage option) io" where
  "RedisBroker_Reserve X now_ms =
     bind_io (RedisScripts_Reserve X now_ms) (\<lambda>running_json.
       case running_json of
         None \<Rightarrow> ret None
       | Some text \<Rightarrow>
           bind_io (lift_io (TaskMessageFromJsonString (codec X) text)) (\<lambda>parsed.
             if \<not> pr_Ok parsed then ret None else ret (Some (pr_value parsed))))"

fun as_pairs :: "redis_reply \<Rightarrow> exn + (string \<times> string) list" where
  "as_pairs (RPairs ps) = Inr ps"
| "as_pairs _ = Inl (RedisError ''Expect ARRAY reply'')"

fun as_strings :: "redis_reply \<Rightarrow> exn + string list" where
  "as_strings (RMulti xs) = Inr xs"
| "as_strings _ = Inl (RedisError ''Expect ARRAY reply'')"

text \<open>
  The loop visits the entries of the \<^verbatim>\<open>unordered_map\<close> in the order of that container. The counter is
  a C++ \<^verbatim>\<open>int\<close>: exact while fewer than \<open>2^31\<close> tasks are running.
\<close>

fun reclaim_loop :: "'s ext \<Rightarrow> int \<Rightarrow> int \<Rightarrow> int \<Rightarrow> (string \<times> string) list \<Rightarrow> ('s conn, int) io" where
  "reclaim_loop X now_ms visibility_timeout_ms reclaimed [] = ret reclaimed"
| "reclaim_loop X now_ms visibility_timeout_ms reclaimed (entry # rest) =
     bind_io (RedisScripts_ReclaimOneStaleTask X (fst entry) now_ms visibility_timeout_ms) (\<lambda>n.
       reclaim_loop X now_ms visibility_timeout_ms (reclaimed + n) rest)"

definition RedisBroker_ReclaimStaleTasks :: "'s ext \<Rightarrow> int \<Rightarrow> int \<Rightarrow> ('s conn, int) io" where
  "RedisBroker_ReclaimStaleTasks X now_ms visibility_timeout_ms =
     bind_io (redis_do (rds X) (HGETALL redis_kRunning)) (\<lambda>reply.
     bind_io (lift_io (as_pairs reply)) (\<lambda>running_tasks.
       reclaim_loop X now_ms visibility_timeout_ms 0 (umap_order X running_tasks)))"

definition RedisBroker_Ack :: "'s ext \<Rightarrow> TaskId \<Rightarrow> ('s conn, unit) io" where
  "RedisBroker_Ack X tid =
     bind_io (lift_io (dump (codec X) (TaskResult_ToJson (TaskResult_Success empty_object)))) (\<lambda>json.
     then_io (RedisScripts_Ack X (TaskId_Value tid) json)
             (RecordCounter X kTasksCompletedTotal 1))"

text \<open>The message \<^verbatim>\<open>Retry\<close> schedules: every field it assigns, in its order.\<close>

definition retry_message :: "int \<Rightarrow> TaskMessage \<Rightarrow> string \<Rightarrow> exn + TaskMessage" where
  "retry_message now_ms task reason =
     bind_sum (add_i32 (m_retry_count task) 1) (\<lambda>count.
     (let retry_task = task\<lparr>m_retry_count := count, m_last_error := reason,
                           m_status := kRetrying, m_reserved_at_ms := None\<rparr>
      in bind_sum (ComputeRetryDelayMs (m_retry_policy retry_task) (m_retry_count retry_task)) (\<lambda>delay.
         bind_sum (add_i64 now_ms delay) (\<lambda>run_at.
         Inr (retry_task\<lparr>m_run_at_ms := Some run_at\<rparr>)))))"

definition RedisBroker_Retry :: "'s ext \<Rightarrow> int \<Rightarrow> TaskMessage \<Rightarrow> string \<Rightarrow> ('s conn, unit) io" where
  "RedisBroker_Retry X now_ms task reason =
     bind_io (lift_io (retry_message now_ms task reason)) (\<lambda>retry_task.
     bind_io (lift_io (dump (codec X) (TaskMessage_ToJson retry_task))) (\<lambda>json.
     then_io (RedisScripts_Retry X (TaskId_Value (m_id task)) json
                (the (m_run_at_ms retry_task)) reason)
             (RecordCounter X kTasksRetriedTotal 1)))"

definition RedisBroker_Fail :: "'s ext \<Rightarrow> TaskId \<Rightarrow> string \<Rightarrow> ('s conn, unit) io" where
  "RedisBroker_Fail X tid reason =
     then_io (RedisScripts_Fail X (TaskId_Value tid) reason)
             (RecordCounter X kTasksDeadLetteredTotal 1)"

definition RedisBroker_RetryDeadTask :: "'s ext \<Rightarrow> TaskId \<Rightarrow> ('s conn, TaskId ParseResult) io" where
  "RedisBroker_RetryDeadTask X tid =
     bind_io (RedisScripts_RetryDeadTask X (TaskId_Value tid)) (\<lambda>requeued.
       if requeued then ret (PR_Ok tid)
       else ret (PR_Fail (TaskId '''') (''dead task not found: '' @ TaskId_Value tid)))"

section \<open>Queries\<close>

definition RedisBroker_GetStatus :: "'s ext \<Rightarrow> TaskId \<Rightarrow> ('s conn, TaskStatus ParseResult) io" where
  "RedisBroker_GetStatus X tid =
     bind_io (redis_do (rds X) (HGET redis_kStatus (TaskId_Value tid))) (\<lambda>reply.
     bind_io (lift_io (as_optional_string reply)) (\<lambda>status.
       case status of
         None \<Rightarrow> ret (PR_Fail kPending (''task not found: '' @ TaskId_Value tid))
       | Some text \<Rightarrow> ret (TaskStatusFromString text)))"

fun parse_all :: "'s ext \<Rightarrow> string list \<Rightarrow> exn + TaskMessage list" where
  "parse_all X [] = Inr []"
| "parse_all X (json_text # rest) =
     bind_sum (TaskMessageFromJsonString (codec X) json_text) (\<lambda>parsed.
     bind_sum (parse_all X rest) (\<lambda>tasks.
       Inr (if pr_Ok parsed then pr_value parsed # tasks else tasks)))"

definition RedisBroker_ListDeadTasks :: "'s ext \<Rightarrow> ('s conn, TaskMessage list) io" where
  "RedisBroker_ListDeadTasks X =
     bind_io (redis_do (rds X) (LRANGE_all redis_kDead)) (\<lambda>reply.
     bind_io (lift_io (as_strings reply)) (\<lambda>json_items.
       lift_io (parse_all X json_items)))"

definition RedisBroker_GetFailureReason :: "'s ext \<Rightarrow> TaskId \<Rightarrow> ('s conn, string ParseResult) io" where
  "RedisBroker_GetFailureReason X tid =
     bind_io (redis_do (rds X) (HGET redis_kFailures (TaskId_Value tid))) (\<lambda>reply.
     bind_io (lift_io (as_optional_string reply)) (\<lambda>reason.
       case reason of
         None \<Rightarrow> ret (PR_Fail '''' (''failure reason not found: '' @ TaskId_Value tid))
       | Some text \<Rightarrow> ret (PR_Ok text)))"

definition as_count :: "redis_reply \<Rightarrow> exn + nat" where
  "as_count r = bind_sum (as_long_long r) (\<lambda>n. Inr (nat n))"

definition RedisBroker_GetStats :: "'s ext \<Rightarrow> ('s conn, BrokerStats) io" where
  "RedisBroker_GetStats X =
     bind_io (redis_do (rds X) (LLEN redis_kPending)) (\<lambda>r1. bind_io (lift_io (as_count r1)) (\<lambda>n1.
     bind_io (redis_do (rds X) (ZCARD redis_kDelayed)) (\<lambda>r2. bind_io (lift_io (as_count r2)) (\<lambda>n2.
     bind_io (redis_do (rds X) (HLEN redis_kRunning)) (\<lambda>r3. bind_io (lift_io (as_count r3)) (\<lambda>n3.
     bind_io (redis_do (rds X) (LLEN redis_kDead)) (\<lambda>r4. bind_io (lift_io (as_count r4)) (\<lambda>n4.
       ret \<lparr>pending_count = n1, delayed_count = n2, running_count = n3, dead_count = n4\<rparr>))))))))"

definition RedisBroker_GetTaskResult :: "'s ext \<Rightarrow> TaskId \<Rightarrow> ('s conn, TaskResult ParseResult) io" where
  "RedisBroker_GetTaskResult X tid =
     bind_io (redis_do (rds X) (HGET redis_kResults (TaskId_Value tid))) (\<lambda>reply.
     bind_io (lift_io (as_optional_string reply)) (\<lambda>result_json.
       case result_json of
         None \<Rightarrow> ret (PR_Fail TaskResult_default (''task result not found: '' @ TaskId_Value tid))
       | Some text \<Rightarrow>
           (case parse (codec X) text of
              Inr j \<Rightarrow> ret (TaskResultFromJson j)
            | Inl (JsonError what) \<Rightarrow>
                ret (PR_Fail TaskResult_default (''invalid result json: '' @ what))
            | Inl e \<Rightarrow> throw e)))"

section \<open>Worker heartbeats\<close>

definition RedisBroker_UpsertWorkerHeartbeat ::
    "'s ext \<Rightarrow> WorkerHeartbeat \<Rightarrow> int \<Rightarrow> ('s conn, unit) io" where
  "RedisBroker_UpsertWorkerHeartbeat X heartbeat ttl_seconds =
     (let key = WorkerKey (worker_id heartbeat);
          put = (\<lambda>f v. redis_do (rds X) (HSET key f v))
      in then_io (put ''worker_id'' (worker_id heartbeat))
        (then_io (put ''hostname'' (hostname heartbeat))
        (then_io (put ''pid'' (to_string (pid heartbeat)))
        (then_io (put ''started_at'' (to_string (started_at_ms heartbeat)))
        (then_io (put ''last_seen'' (to_string (last_seen_ms heartbeat)))
        (then_io (put ''concurrency'' (to_string (uint (concurrency heartbeat))))
        (then_io (put ''currently_running'' (to_string (uint (currently_running heartbeat))))
        (if ttl_seconds > 0
         then then_io (redis_do (rds X) (EXPIRE key ttl_seconds)) (ret ())
         else ret ()))))))))"

definition hash_ParseInt64Field :: "(string \<times> string) list \<Rightarrow> string \<Rightarrow> exn + int" where
  "hash_ParseInt64Field flds key =
     (case map_of flds key of None \<Rightarrow> Inr 0 | Some t \<Rightarrow> stoll t)"

definition hash_ParseSizeField :: "(string \<times> string) list \<Rightarrow> string \<Rightarrow> exn + size_t" where
  "hash_ParseSizeField flds key =
     (case map_of flds key of None \<Rightarrow> Inr 0 | Some t \<Rightarrow> stoull t)"

definition WorkerHeartbeatFromHash :: "(string \<times> string) list \<Rightarrow> exn + WorkerHeartbeat" where
  "WorkerHeartbeatFromHash flds =
     (let wid = (case map_of flds ''worker_id'' of Some t \<Rightarrow> t | None \<Rightarrow> '''');
          host = (case map_of flds ''hostname'' of Some t \<Rightarrow> t | None \<Rightarrow> '''')
      in bind_sum (hash_ParseInt64Field flds ''pid'') (\<lambda>p.
         bind_sum (hash_ParseInt64Field flds ''started_at'') (\<lambda>st.
         bind_sum (hash_ParseInt64Field flds ''last_seen'') (\<lambda>ls.
         bind_sum (hash_ParseSizeField flds ''concurrency'') (\<lambda>cc.
         bind_sum (hash_ParseSizeField flds ''currently_running'') (\<lambda>cr.
         Inr \<lparr>worker_id = wid, hostname = host, pid = p, started_at_ms = st, last_seen_ms = ls,
              concurrency = cc, currently_running = cr\<rparr>))))))"

fun list_workers_loop :: "'s ext \<Rightarrow> string list \<Rightarrow> ('s conn, WorkerHeartbeat list) io" where
  "list_workers_loop X [] = ret []"
| "list_workers_loop X (key # rest) =
     bind_io (redis_do (rds X) (HGETALL key)) (\<lambda>reply.
     bind_io (lift_io (as_pairs reply)) (\<lambda>flds.
       if flds = [] then list_workers_loop X rest
       else bind_io (lift_io (WorkerHeartbeatFromHash flds)) (\<lambda>heartbeat.
            bind_io (list_workers_loop X rest) (\<lambda>workers. ret (heartbeat # workers)))))"

definition RedisBroker_ListWorkers :: "'s ext \<Rightarrow> ('s conn, WorkerHeartbeat list) io" where
  "RedisBroker_ListWorkers X =
     bind_io (redis_do (rds X) (KEYS_prefix redis_kWorkersPrefix)) (\<lambda>reply.
     bind_io (lift_io (as_strings reply)) (\<lambda>keys. list_workers_loop X keys))"

section \<open>Collecting metrics\<close>

definition ApplyLiveGauges :: "'s ext \<Rightarrow> MetricsSnapshot \<Rightarrow> ('s conn, MetricsSnapshot) io" where
  "ApplyLiveGauges X snapshot =
     bind_io (RedisBroker_GetStats X) (\<lambda>stats.
     bind_io (RedisBroker_ListWorkers X) (\<lambda>workers.
       ret (ApplyBrokerGauges snapshot stats workers)))"

text \<open>\<^verbatim>\<open>histogram_key.rfind(':')\<close>: the parts before and after the last colon.\<close>

definition split_last_colon :: "string \<Rightarrow> (string \<times> string) option" where
  "split_last_colon s =
     (if CHR '':'' \<in> set s
      then let suffix = rev (takeWhile (\<lambda>c. c \<noteq> CHR '':'') (rev s))
           in Some (take (length s - length suffix - 1) s, suffix)
      else None)"

definition collect_entry :: "MetricsSnapshot \<Rightarrow> string \<times> string \<Rightarrow> exn + MetricsSnapshot" where
  "collect_entry snapshot entry =
     (let (field, text) = entry
      in if StartsWith field kCounterPrefix
         then bind_sum (stoll text) (\<lambda>v.
              Inr (snapshot\<lparr>counters :=
                AList.update (drop (length kCounterPrefix) field) v (counters snapshot)\<rparr>))
         else if \<not> StartsWith field kHistogramPrefix then Inr snapshot
         else case split_last_colon (drop (length kHistogramPrefix) field) of
                None \<Rightarrow> Inr snapshot
              | Some (name, field_suffix) \<Rightarrow>
                  bind_sum (stoll text) (\<lambda>v.
                  let h = map_ref DurationHistogram_default (histograms snapshot) name;
                      h = (if field_suffix = ''count'' then h\<lparr>h_count := v\<rparr>
                           else if field_suffix = ''sum'' then h\<lparr>h_sum_ms := v\<rparr>
                           else if field_suffix = ''max'' then h\<lparr>h_max_ms := v\<rparr>
                           else h)
                  in Inr (snapshot\<lparr>histograms := AList.update name h (histograms snapshot)\<rparr>)))"

fun collect_entries :: "MetricsSnapshot \<Rightarrow> (string \<times> string) list \<Rightarrow> exn + MetricsSnapshot" where
  "collect_entries snapshot [] = Inr snapshot"
| "collect_entries snapshot (entry # rest) =
     bind_sum (collect_entry snapshot entry) (\<lambda>snapshot. collect_entries snapshot rest)"

text \<open>The \<^verbatim>\<open>try\<close> block only covers the \<^verbatim>\<open>hgetall\<close>; after an error the snapshot holds live gauges only.\<close>

definition RedisBroker_CollectMetrics :: "'s ext \<Rightarrow> ('s conn, MetricsSnapshot) io" where
  "RedisBroker_CollectMetrics X =
     bind_io
       (catch_redis
          (bind_io (redis_do (rds X) (HGETALL redis_kMetrics)) (\<lambda>reply.
           bind_io (lift_io (as_pairs reply)) (\<lambda>flds. ret (Some flds))))
          (then_io (RecordRedisOperationError X) (ret None)))
       (\<lambda>flds.
          case flds of
            None \<Rightarrow> ApplyLiveGauges X MetricsSnapshot_empty
          | Some flds \<Rightarrow>
              bind_io (lift_io (collect_entries MetricsSnapshot_empty (umap_order X flds))) (\<lambda>snapshot.
                ApplyLiveGauges X snapshot))"

end
