(* ===== verification/Broker.thy ===== *)
theory Broker
  imports Redis_Broker
begin

text \<open>
  The broker interface (include/taskqueue/broker.h) as a record of its virtual methods, the Redis
  broker as an instance of it, and the scheduler tick (src/scheduler.cc), which is written
  against the interface. Clock readings and random bytes an implementation takes for itself
  are arguments of its methods.
\<close>

record 's Broker =
  b_Enqueue :: "8 word list \<Rightarrow> int \<Rightarrow> TaskMessage \<Rightarrow> ('s, TaskId) io"
  b_PromoteDueTasks :: "int \<Rightarrow> ('s, unit option) io"
  b_ReclaimStaleTasks :: "int \<Rightarrow> int \<Rightarrow> ('s, int) io"
  b_Reserve :: "int \<Rightarrow> ('s, TaskMessage option) io"
  b_Ack :: "TaskId \<Rightarrow> ('s, unit) io"
  b_Retry :: "int \<Rightarrow> TaskMessage \<Rightarrow> string \<Rightarrow> ('s, unit) io"
  b_Fail :: "TaskId \<Rightarrow> string \<Rightarrow> ('s, unit) io"
  b_GetStatus :: "TaskId \<Rightarrow> ('s, TaskStatus ParseResult) io"
  b_ListDeadTasks :: "('s, TaskMessage list) io"
  b_GetFailureReason :: "TaskId \<Rightarrow> ('s, string ParseResult) io"
  b_RetryDeadTask :: "TaskId \<Rightarrow> ('s, TaskId ParseResult) io"
  b_GetStats :: "('s, BrokerStats) io"
  b_GetTaskResult :: "TaskId \<Rightarrow> ('s, TaskResult ParseResult) io"
  b_UpsertWorkerHeartbeat :: "WorkerHeartbeat \<Rightarrow> int \<Rightarrow> ('s, unit) io"
  b_ListWorkers :: "('s, WorkerHeartbeat list) io"
  b_RecordCounter :: "string \<Rightarrow> int \<Rightarrow> ('s, unit) io"
  b_RecordDurationMs :: "string \<Rightarrow> int \<Rightarrow> ('s, unit) io"
  b_CollectMetrics :: "('s, MetricsSnapshot) io"

section \<open>The Redis broker\<close>

text \<open>
  The overrides of \<^verbatim>\<open>RedisBroker\<close>. \<open>fuel\<close> bounds the promotion loop; a \<open>None\<close> from it means the loop
  has not ended yet.
\<close>

definition RedisBroker_methods :: "'s ext \<Rightarrow> nat \<Rightarrow> 's conn Broker" where
  "RedisBroker_methods X fuel =
     \<lparr>b_Enqueue = RedisBroker_Enqueue X,
      b_PromoteDueTasks = RedisBroker_PromoteDueTasks X fuel,
      b_ReclaimStaleTasks = RedisBroker_ReclaimStaleTasks X,
      b_Reserve = RedisBroker_Reserve X,
      b_Ack = RedisBroker_Ack X,
      b_Retry = RedisBroker_Retry X,
      b_Fail = RedisBroker_Fail X,
      b_GetStatus = RedisBroker_GetStatus X,
      b_ListDeadTasks = RedisBroker_ListDeadTasks X,
      b_GetFailureReason = RedisBroker_GetFailureReason X,
      b_RetryDeadTask = RedisBroker_RetryDeadTask X,
      b_GetStats = RedisBroker_GetStats X,
      b_GetTaskResult = RedisBroker_GetTaskResult X,
      b_UpsertWorkerHeartbeat = RedisBroker_UpsertWorkerHeartbeat X,
      b_ListWorkers = RedisBroker_ListWorkers X,
      b_RecordCounter = RecordCounter X,
      b_RecordDurationMs = RecordDurationMs X,
      b_CollectMetrics = RedisBroker_CollectMetrics X\<rparr>"

text \<open>\<^verbatim>\<open>sw::redis::Redis\<close> connects lazily; the constructor of the scripts loads all of them.\<close>

definition RedisBroker_create :: "'s ext \<Rightarrow> ('s conn, unit) io" where
  "RedisBroker_create X = LoadScripts X"

text \<open>\<open>reply\<close> is what \<^verbatim>\<open>ping()\<close> on a fresh connection returns or throws.\<close>

definition RedisBroker_Ping :: "exn + string \<Rightarrow> exn + bool" where
  "RedisBroker_Ping reply =
     (case reply of
        Inr s \<Rightarrow> Inr (s = ''PONG'')
      | Inl (RedisError _) \<Rightarrow> Inr False
      | Inl e \<Rightarrow> Inl e)"

section \<open>Metrics through the interface\<close>

definition Broker_ApplyLiveGauges :: "'s Broker \<Rightarrow> MetricsSnapshot \<Rightarrow> ('s, MetricsSnapshot) io" where
  "Broker_ApplyLiveGauges B snapshot =
     bind_io (b_GetStats B) (\<lambda>stats.
     bind_io (b_ListWorkers B) (\<lambda>workers.
       ret (ApplyBrokerGauges snapshot stats workers)))"

definition CollectMetrics :: "'s Broker \<Rightarrow> ('s, MetricsSnapshot) io" where
  "CollectMetrics B = b_CollectMetrics B"

lemma ApplyLiveGauges_Redis:
  "ApplyLiveGauges X snapshot = Broker_ApplyLiveGauges (RedisBroker_methods X fuel) snapshot"
  by (simp add: ApplyLiveGauges_def Broker_ApplyLiveGauges_def RedisBroker_methods_def)

section \<open>Scheduler\<close>

definition RunSchedulerTick :: "'s Broker \<Rightarrow> int \<Rightarrow> int \<Rightarrow> ('s, unit option) io" where
  "RunSchedulerTick B now_ms visibility_timeout_ms =
     bind_io (b_PromoteDueTasks B now_ms) (\<lambda>promoted.
       case promoted of
         None \<Rightarrow> ret None
       | Some _ \<Rightarrow>
           then_io (b_ReclaimStaleTasks B now_ms visibility_timeout_ms) (ret (Some ())))"

end
