(* ===== verification/Task_Registry.thy ===== *)
theory Task_Registry
  imports Task_Message
begin

text \<open>
  The registry of task handlers (src/task_registry.cc, include/taskqueue/task_handler.h). A
  handler is code of the application: it reads the payload, acts on the state of the
  application (the type \<open>'w\<close>) and returns a result or throws. What it throws is either an
  object of \<^verbatim>\<open>std::exception\<close> with its \<^verbatim>\<open>what()\<close>, or something else.
\<close>

datatype thrown = StdException string | OtherException

type_synonym 'w TaskHandler = "json \<Rightarrow> 'w \<Rightarrow> (thrown + TaskResult) \<times> 'w"

record 'w TaskRegistry =
  handlers :: "string \<rightharpoonup> 'w TaskHandler"

definition TaskRegistry_empty :: "'w TaskRegistry" where
  "TaskRegistry_empty = \<lparr>handlers = Map.empty\<rparr>"

definition TaskRegistry_RegisterTask ::
    "string \<Rightarrow> 'w TaskHandler \<Rightarrow> 'w TaskRegistry \<Rightarrow> 'w TaskRegistry" where
  "TaskRegistry_RegisterTask name handler r = r\<lparr>handlers := (handlers r)(name \<mapsto> handler)\<rparr>"

definition TaskRegistry_HasTask :: "'w TaskRegistry \<Rightarrow> string \<Rightarrow> bool" where
  "TaskRegistry_HasTask r name \<longleftrightarrow> handlers r name \<noteq> None"

definition TaskRegistry_Execute ::
    "'w TaskRegistry \<Rightarrow> string \<Rightarrow> json \<Rightarrow> 'w \<Rightarrow> TaskResult \<times> 'w" where
  "TaskRegistry_Execute r name payload w =
     (case handlers r name of
        None \<Rightarrow> (TaskResult_Failure (''unknown task: '' @ name), w)
      | Some handler \<Rightarrow>
          (case handler payload w of
             (Inr result, w') \<Rightarrow> (result, w')
           | (Inl (StdException what), w') \<Rightarrow> (TaskResult_Failure what, w')
           | (Inl OtherException, w') \<Rightarrow>
               (TaskResult_Failure ''task handler threw an unknown exception'', w')))"

lemma HasTask_simps [simp]:
  "TaskRegistry_HasTask TaskRegistry_empty name \<longleftrightarrow> False"
  "TaskRegistry_HasTask (TaskRegistry_RegisterTask n h r) name \<longleftrightarrow> name = n \<or> TaskRegistry_HasTask r name"
  by (auto simp: TaskRegistry_HasTask_def TaskRegistry_empty_def TaskRegistry_RegisterTask_def)

lemma Execute_registered:
  "TaskRegistry_Execute (TaskRegistry_RegisterTask n h r) name payload w =
     (if name = n
      then case h payload w of
             (Inr result, w') \<Rightarrow> (result, w')
           | (Inl (StdException what), w') \<Rightarrow> (TaskResult_Failure what, w')
           | (Inl OtherException, w') \<Rightarrow>
               (TaskResult_Failure ''task handler threw an unknown exception'', w')
      else TaskRegistry_Execute r name payload w)"
  by (simp add: TaskRegistry_Execute_def TaskRegistry_RegisterTask_def)

end
