(* ===== verification/Thread_Pool.thy ===== *)
theory Thread_Pool
  imports Prelude "HOL-Library.Multiset"
begin

text \<open>
  The thread pool (src/thread_pool.cc, include/taskqueue/thread_pool.h): its shared state, one
  definition per section that runs under the mutex, and the step relation of the threads that
  run them in any order. A thread that waits on a condition variable is \<open>Sleeping\<close> until it is
  notified or wakes spuriously; a notification sent after the mutex was released is pending
  until its own step. Shown are the counting invariant, that accepted jobs are started in
  order and exactly once, that no wake-up is lost, and that a stopped pool drains and ends.
\<close>

section \<open>State\<close>

text \<open>
  Where a pool thread is in \<^verbatim>\<open>WorkerLoop\<close>: about to take the mutex and look at the queue, blocked
  in \<^verbatim>\<open>task_available.wait\<close>, inside \<^verbatim>\<open>task()\<close>, about to take the mutex after it, or returned.
\<close>

datatype 'j pool_thread = Ready | Sleeping | Executing 'j | Finishing | Exited

text \<open>A caller of \<^verbatim>\<open>WaitIdle\<close>: about to test the predicate, blocked in \<^verbatim>\<open>idle.wait\<close>, or returned.\<close>

datatype idle_waiter = Asking | Blocked | Passed

record 'j ThreadPool =
  thread_count :: nat
  threads :: "'j pool_thread list"
  tasks :: "'j list"
  active_count :: nat
  stop :: bool
  idle_waiters :: "idle_waiter list"
  unsent_one :: nat
  unsent_all :: nat

definition ThreadPool_create :: "nat \<Rightarrow> 'j ThreadPool" where
  "ThreadPool_create n =
     \<lparr>thread_count = n, threads = replicate n Ready, tasks = [], active_count = 0, stop = False,
      idle_waiters = [], unsent_one = 0, unsent_all = 0\<rparr>"

section \<open>Sections under the mutex\<close>

definition ThreadPool_Submit :: "'j \<Rightarrow> 'j ThreadPool \<Rightarrow> 'j ThreadPool" where
  "ThreadPool_Submit task p =
     (if stop p then p
      else p\<lparr>tasks := tasks p @ [task], unsent_one := Suc (unsent_one p)\<rparr>)"

definition is_idle :: "'j ThreadPool \<Rightarrow> bool" where
  "is_idle p \<longleftrightarrow> tasks p = [] \<and> active_count p = 0"

definition ThreadPool_WaitIdle :: "nat \<Rightarrow> 'j ThreadPool \<Rightarrow> 'j ThreadPool" where
  "ThreadPool_WaitIdle i p =
     p\<lparr>idle_waiters := (idle_waiters p)[i := (if is_idle p then Passed else Blocked)]\<rparr>"

definition ThreadPool_Shutdown :: "'j ThreadPool \<Rightarrow> 'j ThreadPool" where
  "ThreadPool_Shutdown p =
     (if stop p then p else p\<lparr>stop := True, unsent_all := Suc (unsent_all p)\<rparr>)"

definition ThreadPool_join :: "'j ThreadPool \<Rightarrow> 'j ThreadPool" where
  "ThreadPool_join p = p\<lparr>threads := []\<rparr>"

definition ActiveCount :: "'j ThreadPool \<Rightarrow> nat" where
  "ActiveCount p = active_count p"

definition PendingCount :: "'j ThreadPool \<Rightarrow> nat" where
  "PendingCount p = length (tasks p)"

definition InFlightCount :: "'j ThreadPool \<Rightarrow> nat" where
  "InFlightCount p = length (tasks p) + active_count p"

text \<open>\<^verbatim>\<open>WorkerLoop\<close> up to the end of its first locked section, and its second one.\<close>

definition WorkerLoop_take :: "nat \<Rightarrow> 'j ThreadPool \<Rightarrow> 'j ThreadPool" where
  "WorkerLoop_take i p =
     (if \<not> (stop p \<or> tasks p \<noteq> []) then p\<lparr>threads := (threads p)[i := Sleeping]\<rparr>
      else if stop p \<and> tasks p = [] then p\<lparr>threads := (threads p)[i := Exited]\<rparr>
      else p\<lparr>tasks := tl (tasks p), active_count := Suc (active_count p),
             threads := (threads p)[i := Executing (hd (tasks p))]\<rparr>)"

definition WorkerLoop_done :: "nat \<Rightarrow> 'j ThreadPool \<Rightarrow> 'j ThreadPool" where
  "WorkerLoop_done i p =
     (let p = p\<lparr>active_count := active_count p - 1, threads := (threads p)[i := Ready]\<rparr>
      in if is_idle p
         then p\<lparr>idle_waiters := map (\<lambda>w. if w = Blocked then Asking else w) (idle_waiters p)\<rparr>
         else p)"

section \<open>Steps\<close>

definition wake :: "'j pool_thread \<Rightarrow> 'j pool_thread" where
  "wake t = (case t of Sleeping \<Rightarrow> Ready | _ \<Rightarrow> t)"

datatype 'j pool_event = Submitted 'j | Rejected 'j | Started 'j | Completed 'j

text \<open>
  The events a step shows: a job accepted by or refused at \<^verbatim>\<open>Submit\<close>, taken from the queue by a
  thread, or run to its end. A step is a call from outside, a spurious wake-up, or a step the
  pool makes by itself: of its threads, of a waiting caller, or a notification that is due.
\<close>

datatype pool_actor = Client | Internal | Spurious

inductive pool_step ::
    "pool_actor \<Rightarrow> 'j ThreadPool \<Rightarrow> 'j pool_event list \<Rightarrow> 'j ThreadPool \<Rightarrow> bool" where
  submit: "pool_step Client p [if stop p then Rejected j else Submitted j] (ThreadPool_Submit j p)"
| notify_one: "unsent_one p = Suc n \<Longrightarrow> i < length (threads p) \<Longrightarrow> threads p ! i = Sleeping \<Longrightarrow>
    pool_step Internal p [] (p\<lparr>unsent_one := n, threads := (threads p)[i := Ready]\<rparr>)"
| notify_none: "unsent_one p = Suc n \<Longrightarrow> Sleeping \<notin> set (threads p) \<Longrightarrow>
    pool_step Internal p [] (p\<lparr>unsent_one := n\<rparr>)"
| spurious: "i < length (threads p) \<Longrightarrow> threads p ! i = Sleeping \<Longrightarrow>
    pool_step Spurious p [] (p\<lparr>threads := (threads p)[i := Ready]\<rparr>)"
| take: "i < length (threads p) \<Longrightarrow> threads p ! i = Ready \<Longrightarrow>
    pool_step Internal p (map Started (List.take 1 (tasks p))) (WorkerLoop_take i p)"
| run: "i < length (threads p) \<Longrightarrow> threads p ! i = Executing j \<Longrightarrow>
    pool_step Internal p [Completed j] (p\<lparr>threads := (threads p)[i := Finishing]\<rparr>)"
| finish: "i < length (threads p) \<Longrightarrow> threads p ! i = Finishing \<Longrightarrow>
    pool_step Internal p [] (WorkerLoop_done i p)"
| wait_call: "pool_step Client p [] (p\<lparr>idle_waiters := idle_waiters p @ [Asking]\<rparr>)"
| wait_test: "i < length (idle_waiters p) \<Longrightarrow> idle_waiters p ! i = Asking \<Longrightarrow>
    pool_step Internal p [] (ThreadPool_WaitIdle i p)"
| wait_spurious: "i < length (idle_waiters p) \<Longrightarrow> idle_waiters p ! i = Blocked \<Longrightarrow>
    pool_step Spurious p [] (p\<lparr>idle_waiters := (idle_waiters p)[i := Asking]\<rparr>)"
| shutdown: "pool_step Client p [] (ThreadPool_Shutdown p)"
| notify_all: "unsent_all p = Suc n \<Longrightarrow>
    pool_step Internal p [] (p\<lparr>unsent_all := n, threads := map wake (threads p)\<rparr>)"
| join: "stop p \<Longrightarrow> unsent_all p = 0 \<Longrightarrow> set (threads p) \<subseteq> {Exited} \<Longrightarrow>
    pool_step Client p [] (ThreadPool_join p)"

text \<open>The runs in which only the given actors move.\<close>

inductive pool_run ::
    "pool_actor set \<Rightarrow> 'j ThreadPool \<Rightarrow> 'j pool_event list \<Rightarrow> 'j ThreadPool \<Rightarrow> bool" for A p0 where
  pool_start: "pool_run A p0 [] p0"
| pool_next: "pool_run A p0 es p \<Longrightarrow> a \<in> A \<Longrightarrow> pool_step a p fs q \<Longrightarrow> pool_run A p0 (es @ fs) q"

lemmas pool_op_defs =
  ThreadPool_Submit_def ThreadPool_WaitIdle_def ThreadPool_Shutdown_def ThreadPool_join_def
  WorkerLoop_take_def WorkerLoop_done_def Let_def

section \<open>Invariant\<close>

definition busy :: "'j pool_thread \<Rightarrow> bool" where
  "busy t = (case t of Executing _ \<Rightarrow> True | Finishing \<Rightarrow> True | _ \<Rightarrow> False)"

lemma busy_simps [simp]:
  "\<not> busy Ready" "\<not> busy Sleeping" "busy (Executing j)" "busy Finishing" "\<not> busy Exited"
  "busy (wake t) = busy t"
  by (auto simp: busy_def wake_def split: pool_thread.splits)

lemma wake_simps [simp]:
  "wake Sleeping = Ready" "wake Ready = Ready" "wake (Executing j) = Executing j"
  "wake Finishing = Finishing" "wake Exited = Exited"
  "wake t \<noteq> Sleeping" "wake t = Exited \<longleftrightarrow> t = Exited"
  by (auto simp: wake_def split: pool_thread.splits)

text \<open>
  The counter is the number of threads between the two locked sections; a thread has returned
  only from an empty stopped queue; the pool keeps its threads until they are joined; and for
  the condition variables: while a thread sleeps, every queued job has a thread about to look
  at the queue or a notification under way, a sleeping thread of a stopped pool has one under
  way, and nobody is blocked waiting for an idle pool that is idle.
\<close>

definition pool_inv :: "'j ThreadPool \<Rightarrow> bool" where
  "pool_inv p \<longleftrightarrow>
     active_count p = length (filter busy (threads p)) \<and>
     (length (threads p) = thread_count p \<or> stop p \<and> tasks p = [] \<and> threads p = []) \<and>
     (Exited \<in> set (threads p) \<longrightarrow> stop p \<and> tasks p = []) \<and>
     (Sleeping \<in> set (threads p) \<longrightarrow>
        length (tasks p) \<le> length (filter ((=) Ready) (threads p)) + unsent_one p) \<and>
     (Sleeping \<in> set (threads p) \<and> stop p \<longrightarrow> 0 < unsent_all p) \<and>
     (Blocked \<in> set (idle_waiters p) \<longrightarrow> \<not> is_idle p)"

lemma pool_inv_create: "pool_inv (ThreadPool_create n)"
  by (simp add: pool_inv_def ThreadPool_create_def)

lemma set_update_cases: "x \<in> set (xs[i := y]) \<Longrightarrow> x = y \<or> x \<in> set xs"
  using set_update_subset_insert by fastforce

text \<open>The two counts of the invariant when thread \<open>i\<close> changes its state.\<close>

lemma thread_counts:
  assumes "i < length (threads p)"
  shows "length (filter busy ((threads p)[i := t])) + (if busy (threads p ! i) then 1 else 0) =
      length (filter busy (threads p)) + (if busy t then 1 else 0)"
    and "length (filter ((=) Ready) ((threads p)[i := t])) + (if threads p ! i = Ready then 1 else 0) =
      length (filter ((=) Ready) (threads p)) + (if t = Ready then 1 else 0)"
  using length_filter_update [OF assms, of busy t] length_filter_update [OF assms, of "(=) Ready" t]
  by auto

lemma pool_inv_take:
  assumes "i < length (threads p)" and "threads p ! i = Ready" and "pool_inv p"
  shows "pool_inv (WorkerLoop_take i p)"
proof (cases "tasks p")
  case Nil
  then show ?thesis
    using assms thread_counts(1) [OF assms(1), of Sleeping] thread_counts(1) [OF assms(1), of Exited]
    by (auto simp: pool_inv_def pool_op_defs is_idle_def dest!: set_update_cases)
next
  case (Cons j js)
  then show ?thesis
    using assms thread_counts [OF assms(1), of "Executing j"]
    by (auto simp: pool_inv_def pool_op_defs is_idle_def dest!: set_update_cases)
qed

lemma pool_inv_done:
  assumes "i < length (threads p)" and "threads p ! i = Finishing" and "pool_inv p"
  shows "pool_inv (WorkerLoop_done i p)"
proof -
  let ?q = "WorkerLoop_done i p" and ?ts = "(threads p)[i := Ready]"
  have same: "threads ?q = ?ts" "tasks ?q = tasks p" "stop ?q = stop p" "thread_count ?q = thread_count p"
    "active_count ?q = active_count p - 1" "unsent_one ?q = unsent_one p" "unsent_all ?q = unsent_all p"
    by (simp_all add: WorkerLoop_done_def Let_def)
  have "Blocked \<notin> set (idle_waiters ?q) \<or> \<not> is_idle ?q"
    by (auto simp: WorkerLoop_done_def Let_def)
  moreover have "length (filter busy ?ts) = active_count p - 1"
    "length (filter ((=) Ready) (threads p)) \<le> length (filter ((=) Ready) ?ts)"
    using assms thread_counts [OF assms(1), of Ready] by (auto simp: pool_inv_def)
  moreover have "Exited \<in> set ?ts \<Longrightarrow> Exited \<in> set (threads p)"
    "Sleeping \<in> set ?ts \<Longrightarrow> Sleeping \<in> set (threads p)"
    by (auto dest: set_update_cases)
  ultimately show ?thesis
    using assms(2,3) unfolding pool_inv_def same by (auto simp del: One_nat_def)
qed

lemma pool_inv_notify_all:
  assumes "pool_inv p"
  shows "pool_inv (p\<lparr>unsent_all := n, threads := map wake (threads p)\<rparr>)"
proof -
  have "Sleeping \<notin> wake ` set (threads p)" by (metis imageE wake_simps(6))
  moreover have "Exited \<in> wake ` set (threads p) \<longleftrightarrow> Exited \<in> set (threads p)"
    by (metis imageE image_eqI wake_simps(5,7))
  moreover have "filter busy (map wake (threads p)) = map wake (filter busy (threads p))"
    by (simp add: filter_map comp_def)
  ultimately show ?thesis using assms by (simp add: pool_inv_def is_idle_def) auto
qed

lemma pool_inv_join:
  assumes "pool_inv p" and "stop p" and "set (threads p) \<subseteq> {Exited}"
  shows "pool_inv (ThreadPool_join p)"
proof -
  have "filter busy (threads p) = []" using assms(3) by (auto simp: filter_empty_conv)
  moreover have "threads p = [] \<or> Exited \<in> set (threads p)" using assms(3) by (cases "threads p") auto
  ultimately show ?thesis using assms by (auto simp: pool_inv_def pool_op_defs is_idle_def)
qed

lemma pool_step_inv:
  assumes "pool_step a p es q" and "pool_inv p"
  shows "pool_inv q"
  using assms
proof (induction rule: pool_step.induct)
  case (notify_one p n i)
  then show ?case
    using thread_counts [OF notify_one(2), of Ready]
    by (auto simp: pool_inv_def is_idle_def dest!: set_update_cases)
next
  case (spurious i p)
  then show ?case
    using thread_counts [OF spurious(1), of Ready]
    by (auto simp: pool_inv_def is_idle_def dest!: set_update_cases)
next
  case (run i p j)
  then show ?case
    using thread_counts [OF run(1), of Finishing]
    by (auto simp: pool_inv_def is_idle_def dest!: set_update_cases)
qed (auto simp: pool_inv_take pool_inv_done pool_inv_notify_all pool_inv_join,
  auto simp: pool_inv_def pool_op_defs is_idle_def dest!: set_update_cases)

lemma pool_run_inv: "pool_run A p es q \<Longrightarrow> pool_inv p \<Longrightarrow> pool_inv q"
  by (induction rule: pool_run.induct) (auto intro: pool_step_inv)

section \<open>Jobs are started in order, each once\<close>

definition submitted :: "'j pool_event list \<Rightarrow> 'j list" where
  "submitted es = concat (map (\<lambda>e. case e of Submitted j \<Rightarrow> [j] | _ \<Rightarrow> []) es)"

definition started :: "'j pool_event list \<Rightarrow> 'j list" where
  "started es = concat (map (\<lambda>e. case e of Started j \<Rightarrow> [j] | _ \<Rightarrow> []) es)"

definition completed :: "'j pool_event list \<Rightarrow> 'j list" where
  "completed es = concat (map (\<lambda>e. case e of Completed j \<Rightarrow> [j] | _ \<Rightarrow> []) es)"

lemma event_simps [simp]:
  "submitted [] = []" "submitted (es @ fs) = submitted es @ submitted fs"
  "submitted (Submitted j # es) = j # submitted es" "submitted (Rejected j # es) = submitted es"
  "submitted (Started j # es) = submitted es" "submitted (Completed j # es) = submitted es"
  "started [] = []" "started (es @ fs) = started es @ started fs"
  "started (Submitted j # es) = started es" "started (Rejected j # es) = started es"
  "started (Started j # es) = j # started es" "started (Completed j # es) = started es"
  "completed [] = []" "completed (es @ fs) = completed es @ completed fs"
  "completed (Submitted j # es) = completed es" "completed (Rejected j # es) = completed es"
  "completed (Started j # es) = completed es" "completed (Completed j # es) = j # completed es"
  by (simp_all add: submitted_def started_def completed_def)

definition executing :: "'j ThreadPool \<Rightarrow> 'j list" where
  "executing p = concat (map (\<lambda>t. case t of Executing j \<Rightarrow> [j] | _ \<Rightarrow> []) (threads p))"

lemma pool_step_queue:
  "pool_step a p es q \<Longrightarrow> tasks p @ submitted es = started es @ tasks q"
  by (induction rule: pool_step.induct) (auto simp: pool_op_defs neq_Nil_conv take_Suc)

lemma mset_concat_update:
  "i < length xs \<Longrightarrow>
     mset (concat (map f (xs[i := y]))) + mset (f (xs ! i)) = mset (concat (map f xs)) + mset (f y)"
proof (induction xs arbitrary: i)
  case Nil
  then show ?case by simp
next
  case (Cons x xs)
  then show ?case by (cases i) (auto simp: ac_simps)
qed

lemma executing_update:
  "i < length (threads p) \<Longrightarrow>
     mset (executing (p\<lparr>threads := (threads p)[i := t]\<rparr>)) +
       mset (case threads p ! i of Executing j \<Rightarrow> [j] | _ \<Rightarrow> []) =
     mset (executing p) + mset (case t of Executing j \<Rightarrow> [j] | _ \<Rightarrow> [])"
  unfolding executing_def by (simp add: mset_concat_update)

lemma executing_cong: "threads p = threads q \<Longrightarrow> executing p = executing q"
  by (simp add: executing_def)

lemma executing_wake: "executing (p\<lparr>threads := map wake (threads p)\<rparr>) = executing p"
  by (auto simp: executing_def comp_def wake_def split: pool_thread.splits
      intro!: arg_cong [where f = concat] map_cong)

lemma pool_step_jobs:
  "pool_step a p es q \<Longrightarrow>
     mset (executing p) + mset (started es) = mset (executing q) + mset (completed es)"
proof (induction rule: pool_step.induct)
  case (take i p)
  note up = executing_update [OF take(1)]
  show ?case
  proof (cases "tasks p")
    case Nil
    then show ?thesis
      using up [where t = Sleeping] up [where t = Exited] take(2)
      by (auto simp: WorkerLoop_take_def)
  next
    case (Cons j js)
    have "executing (WorkerLoop_take i p) = executing (p\<lparr>threads := (threads p)[i := Executing j]\<rparr>)"
      using Cons by (intro executing_cong) (simp add: WorkerLoop_take_def)
    then show ?thesis using up [where t = "Executing j"] take(2) Cons by (simp add: take_Suc)
  qed
next
  case (run i p j)
  then show ?case using executing_update [OF run(1), where t = Finishing] by simp
next
  case (finish i p)
  have "executing (WorkerLoop_done i p) = executing (p\<lparr>threads := (threads p)[i := Ready]\<rparr>)"
    by (intro executing_cong) (simp add: WorkerLoop_done_def Let_def)
  then show ?case using executing_update [OF finish(1), where t = Ready] finish(2) by simp
next
  case (notify_one p n i)
  have "executing (p\<lparr>unsent_one := n, threads := (threads p)[i := Ready]\<rparr>) =
    executing (p\<lparr>threads := (threads p)[i := Ready]\<rparr>)" by (intro executing_cong) simp
  then show ?case using executing_update [OF notify_one(2), where t = Ready] notify_one(3) by simp
next
  case (spurious i p)
  then show ?case using executing_update [OF spurious(1), where t = Ready] by simp
next
  case (notify_all p n)
  have "executing (p\<lparr>unsent_all := n, threads := map wake (threads p)\<rparr>) =
    executing (p\<lparr>threads := map wake (threads p)\<rparr>)" by (intro executing_cong) simp
  then show ?case using executing_wake [of p] by simp
next
  case (join p)
  have "executing p = []" using join(3) by (auto simp: executing_def split: pool_thread.splits)
  then show ?case by (simp add: ThreadPool_join_def executing_def)
qed (auto simp: ThreadPool_Submit_def ThreadPool_WaitIdle_def ThreadPool_Shutdown_def executing_def)

lemma pool_run_jobs:
  assumes "pool_run A p es q" and "tasks p = []" and "executing p = []"
  shows "submitted es = started es @ tasks q"
    and "mset (started es) = mset (executing q) + mset (completed es)"
  using assms
proof (induction rule: pool_run.induct)
  case pool_start
  case 1
  then show ?case by simp
next
  case pool_start
  case 2
  then show ?case by simp
next
  case (pool_next es q a fs r)
  case 1
  then show ?case using pool_next(4) pool_step_queue [OF pool_next(3)] by simp
next
  case (pool_next es q a fs r)
  case 2
  have "mset (started (es @ fs)) = mset (completed es) + (mset (executing q) + mset (started fs))"
    using 2 pool_next(5) by (simp add: ac_simps)
  then show ?case unfolding pool_step_jobs [OF pool_next(3)] by (simp add: ac_simps)
qed

lemma pool_run_count: "pool_run A p es q \<Longrightarrow> thread_count q = thread_count p"
proof (induction rule: pool_run.induct)
  case (pool_next es q a fs r)
  have "thread_count r = thread_count q"
    using pool_next(3) by (induction rule: pool_step.induct) (simp_all add: pool_op_defs)
  then show ?case using pool_next(4) by simp
qed simp

lemma pool_inv_bound: "pool_inv p \<Longrightarrow> active_count p \<le> thread_count p"
  using length_filter_le [of busy "threads p"] by (auto simp: pool_inv_def simp del: length_filter_le)

text \<open>A pool of one thread that has run one job.\<close>

lemma sample_run:
  "\<exists>p. pool_run {Client, Internal} (ThreadPool_create 1) [Submitted (7 :: nat), Started 7, Completed 7] p \<and>
     threads p = [Finishing]"
proof -
  let ?p0 = "ThreadPool_create 1 :: nat ThreadPool" and ?A = "{Client, Internal}"
  let ?p1 = "ThreadPool_Submit 7 ?p0"
  let ?p2 = "WorkerLoop_take 0 ?p1"
  note simps = ThreadPool_create_def ThreadPool_Submit_def WorkerLoop_take_def
  have "pool_run ?A ?p0 ([] @ [Submitted 7]) ?p1"
    using submit [of ?p0 7] by (intro pool_next [OF pool_start]) (auto simp: simps)
  moreover have "pool_step Internal ?p1 [Started 7] ?p2"
    using take [of 0 ?p1] by (simp add: simps)
  moreover have "pool_step Internal ?p2 [Completed 7] (?p2\<lparr>threads := [Finishing]\<rparr>)"
    using run [of 0 ?p2 7] by (simp add: simps)
  ultimately have "pool_run ?A ?p0 ((([] @ [Submitted 7]) @ [Started 7]) @ [Completed 7])
    (?p2\<lparr>threads := [Finishing]\<rparr>)"
    by (meson insertI1 insertI2 pool_next)
  then show ?thesis by (intro exI [of _ "?p2\<lparr>threads := [Finishing]\<rparr>"]) simp
qed

text \<open>
  C17: the pool starts the accepted jobs in the order they were submitted, each exactly once, and
  loses none: at every moment the accepted jobs are those started followed by those queued, and
  the started ones are those completed together with those in execution.
\<close>

theorem pool_jobs_in_order:
  assumes "pool_run A (ThreadPool_create n) es p"
  shows "submitted es = started es @ tasks p \<and>
    mset (started es) = mset (executing p) + mset (completed es)"
  using pool_run_jobs [OF assms] by (simp add: ThreadPool_create_def executing_def)

theorem pool_jobs_in_order_witness:
  "\<exists>p. pool_run {Client, Internal} (ThreadPool_create 1) [Submitted (7 :: nat), Started 7, Completed 7] p \<and>
    tasks p = [] \<and> executing p = []"
proof -
  obtain p where p: "pool_run {Client, Internal} (ThreadPool_create 1) [Submitted (7 :: nat), Started 7, Completed 7] p"
    using sample_run by blast
  show ?thesis using pool_jobs_in_order [OF p] p by auto
qed

text \<open>
  C18: the counters tell the truth. \<open>PendingCount\<close> is the number of accepted jobs no thread has
  started; \<open>ActiveCount\<close> is the number of threads between the two locked sections of \<open>WorkerLoop\<close>, so it
  never exceeds the number of threads and the decrement never wraps below zero; \<open>InFlightCount\<close> is the
  number of jobs that are queued or with such a thread, and when it is zero every accepted job is
  completed. A caller blocked in \<open>WaitIdle\<close> always has a job to wait for.
\<close>

theorem pool_counts:
  assumes "pool_run A (ThreadPool_create n) es p"
  shows "length (submitted es) = length (started es) + PendingCount p \<and>
    ActiveCount p = length (filter busy (threads p)) \<and> ActiveCount p \<le> n \<and>
    InFlightCount p = length (tasks p) + length (filter busy (threads p)) \<and>
    (InFlightCount p = 0 \<longrightarrow> mset (submitted es) = mset (completed es)) \<and>
    (Finishing \<in> set (threads p) \<longrightarrow> 0 < ActiveCount p) \<and>
    (Blocked \<in> set (idle_waiters p) \<longrightarrow> 0 < InFlightCount p)"
proof -
  have inv: "pool_inv p" using pool_run_inv [OF assms pool_inv_create] .
  have count: "thread_count p = n" using pool_run_count [OF assms] by (simp add: ThreadPool_create_def)
  have jobs: "submitted es = started es @ tasks p" "mset (started es) = mset (executing p) + mset (completed es)"
    using pool_run_jobs [OF assms] by (simp_all add: ThreadPool_create_def executing_def)
  have "executing p = []" if "filter busy (threads p) = []"
    using that by (auto simp: executing_def filter_empty_conv split: pool_thread.splits)
  then have idle: "InFlightCount p = 0 \<longrightarrow> mset (submitted es) = mset (completed es)"
    using jobs inv by (auto simp: InFlightCount_def pool_inv_def)
  have "Finishing \<in> set (threads p) \<longrightarrow> 0 < active_count p"
    using inv length_filter_pos [of Finishing "threads p" busy] by (auto simp: pool_inv_def)
  with idle show ?thesis
    using inv count pool_inv_bound [OF inv] jobs(1)
    by (auto simp: pool_inv_def ActiveCount_def InFlightCount_def PendingCount_def is_idle_def)
qed

theorem pool_counts_witness:
  "\<exists>p. pool_run {Client, Internal} (ThreadPool_create 1) [Submitted (7 :: nat), Started 7, Completed 7] p \<and>
     PendingCount p = 0 \<and> ActiveCount p = 1 \<and> InFlightCount p = 1"
proof -
  obtain p where p: "pool_run {Client, Internal} (ThreadPool_create 1) [Submitted (7 :: nat), Started 7, Completed 7] p"
    and t: "threads p = [Finishing]"
    using sample_run by blast
  show ?thesis using pool_counts [OF p] p t by (intro exI conjI) (auto simp: PendingCount_def)
qed

section \<open>The pool by itself always comes to rest\<close>

text \<open>
  A bound on the steps the pool can make by itself. A job costs its taking, running and
  finishing, the last of which may wake every caller of \<open>WaitIdle\<close>; \<open>notify_all\<close> wakes every thread.
\<close>

fun thread_weight :: "nat \<Rightarrow> 'j pool_thread \<Rightarrow> nat" where
  "thread_weight w Ready = 1"
| "thread_weight w Sleeping = 0"
| "thread_weight w (Executing j) = 3 + w"
| "thread_weight w Finishing = 2 + w"
| "thread_weight w Exited = 0"

definition pool_bound :: "'j ThreadPool \<Rightarrow> nat" where
  "pool_bound p =
     (let w = length (idle_waiters p)
      in (3 + w) * length (tasks p) + sum_list (map (thread_weight w) (threads p)) +
         2 * unsent_one p + Suc (length (threads p)) * unsent_all p +
         length (filter ((=) Asking) (idle_waiters p)))"

lemma wake_weight: "sum_list (map (\<lambda>t. thread_weight w (wake t)) ts) \<le> sum_list (map (thread_weight w) ts) + length ts"
proof (induction ts)
  case (Cons t ts)
  have "thread_weight w (wake t) \<le> Suc (thread_weight w t)" by (cases t) simp_all
  then show ?case using Cons by simp
qed simp

lemma pool_step_decreases:
  assumes "pool_step a p es q" and "a = Internal"
  shows "pool_bound q < pool_bound p"
  using assms
proof (induction rule: pool_step.induct)
  case (notify_one p n i)
  then show ?case
    using sum_list_map_update [OF notify_one(2), of "thread_weight (length (idle_waiters p))" Ready]
    by (simp add: pool_bound_def Let_def)
next
  case (take i p)
  note up = sum_list_map_update [OF take(1), of "thread_weight (length (idle_waiters p))"]
  show ?case
    using take up [of Sleeping] up [of Exited] up [of "Executing (hd (tasks p))"]
    by (cases "tasks p") (auto simp: pool_bound_def Let_def WorkerLoop_take_def)
next
  case (run i p j)
  then show ?case
    using sum_list_map_update [OF run(1), of "thread_weight (length (idle_waiters p))" Finishing]
    by (simp add: pool_bound_def Let_def)
next
  case (finish i p)
  let ?ws = "idle_waiters p"
  have "length (filter P ?ws) \<le> length ?ws" for P by (rule length_filter_le)
  then have ask: "length (filter ((=) Asking) (idle_waiters (WorkerLoop_done i p))) \<le>
      length ?ws + length (filter ((=) Asking) ?ws)"
    by (auto simp: WorkerLoop_done_def Let_def filter_map intro: trans_le_add1)
  have same: "threads (WorkerLoop_done i p) = (threads p)[i := Ready]" "tasks (WorkerLoop_done i p) = tasks p"
    "unsent_one (WorkerLoop_done i p) = unsent_one p" "unsent_all (WorkerLoop_done i p) = unsent_all p"
    "length (idle_waiters (WorkerLoop_done i p)) = length ?ws"
    by (simp_all add: WorkerLoop_done_def Let_def)
  show ?case
    using finish ask sum_list_map_update [OF finish(1), of "thread_weight (length ?ws)" Ready]
    unfolding pool_bound_def Let_def same by simp
next
  case (wait_test i p)
  then show ?case
    using length_filter_update [OF wait_test(1), of "(=) Asking" Passed]
      length_filter_update [OF wait_test(1), of "(=) Asking" Blocked]
    by (auto simp: pool_bound_def Let_def ThreadPool_WaitIdle_def)
next
  case (notify_all p n)
  then show ?case
    using wake_weight [of "length (idle_waiters p)" "threads p"] by (simp add: pool_bound_def Let_def comp_def)
qed (simp_all add: pool_bound_def Let_def)

text \<open>A pool that can make no step by itself.\<close>

definition at_rest :: "'j ThreadPool \<Rightarrow> bool" where
  "at_rest p \<longleftrightarrow> (\<nexists>es q. pool_step Internal p es q)"

lemma at_rest_steps:
  assumes "at_rest p"
  shows "set (threads p) \<subseteq> {Sleeping, Exited}" "unsent_one p = 0" "unsent_all p = 0"
    "Asking \<notin> set (idle_waiters p)"
proof -
  show "set (threads p) \<subseteq> {Sleeping, Exited}"
  proof
    fix t assume "t \<in> set (threads p)"
    then obtain i where i: "i < length (threads p)" "threads p ! i = t" by (auto simp: in_set_conv_nth)
    show "t \<in> {Sleeping, Exited}"
      using assms i take [of i p] run [of i p] finish [of i p] unfolding at_rest_def
      by (cases t) auto
  qed
  show "unsent_all p = 0"
    using assms notify_all [of p] unfolding at_rest_def by (cases "unsent_all p") auto
  show "unsent_one p = 0"
    using assms notify_one [of p] notify_none [of p] unfolding at_rest_def
    by (cases "unsent_one p") (auto simp: in_set_conv_nth)
  show "Asking \<notin> set (idle_waiters p)"
    using assms wait_test [of _ p] unfolding at_rest_def by (auto simp: in_set_conv_nth)
qed

lemma at_rest_done:
  assumes "at_rest p" and "pool_inv p" and "0 < thread_count p"
  shows "tasks p = []" "active_count p = 0" "set (idle_waiters p) \<subseteq> {Passed}"
    "stop p \<Longrightarrow> set (threads p) \<subseteq> {Exited}"
proof -
  note rest = at_rest_steps [OF assms(1)]
  have "filter busy (threads p) = []" "filter ((=) Ready) (threads p) = []"
    using rest(1) by (fastforce simp: filter_empty_conv)+
  then show tasks: "tasks p = []" and active: "active_count p = 0"
    using assms(2,3) rest(1,2) by (cases "threads p"; force simp: pool_inv_def)+
  have "Blocked \<notin> set (idle_waiters p)"
    using tasks active assms(2) by (auto simp: pool_inv_def is_idle_def)
  then show "set (idle_waiters p) \<subseteq> {Passed}"
    using rest(4) by (metis idle_waiter.exhaust insertI1 subsetI)
  show "set (threads p) \<subseteq> {Exited}" if "stop p"
    using that rest(1,3) assms(2) by (auto simp: pool_inv_def)
qed

lemma pool_run_append:
  assumes "pool_run B q fs r" and "pool_run A p es q"
  shows "pool_run (A \<union> B) p (es @ fs) r"
  using assms(1)
proof (induction rule: pool_run.induct)
  case pool_start
  have "pool_run (A \<union> B) p es q"
    using assms(2) by (induction rule: pool_run.induct) (auto intro: pool_run.intros)
  then show ?case by simp
next
  case (pool_next gs s a hs t)
  then show ?case using pool_run.pool_next by (metis UnI2 append.assoc)
qed

lemma comes_to_rest: "\<exists>es q. pool_run {Internal} p es q \<and> at_rest q"
proof (induction "pool_bound p" arbitrary: p rule: less_induct)
  case less
  show ?case
  proof (cases "at_rest p")
    case True
    then show ?thesis using pool_start by blast
  next
    case False
    then obtain es q where step: "pool_step Internal p es q" by (auto simp: at_rest_def)
    from less [OF pool_step_decreases [OF step refl]]
    obtain fs r where r: "pool_run {Internal} q fs r" "at_rest r" by blast
    have "pool_run {Internal} p es q" using pool_next [OF pool_start _ step] by simp
    then show ?thesis using pool_run_append [OF r(1)] r(2) by fastforce
  qed
qed

lemma internal_run:
  "pool_run {Internal} p es q \<Longrightarrow> submitted es = [] \<and> (stop p \<longrightarrow> stop q)"
proof (induction rule: pool_run.induct)
  case (pool_next es q a fs r)
  have "submitted fs = [] \<and> (stop q \<longrightarrow> stop r)"
    using pool_next(2,3) by (cases rule: pool_step.cases [OF pool_next(3)])
      (auto simp: pool_op_defs take_Suc submitted_def split: list.splits)
  then show ?case using pool_next(4) by simp
qed simp

lemma rest_completed:
  assumes "pool_run A (ThreadPool_create n) es p" and "at_rest p" and "0 < n"
  shows "mset (completed es) = mset (submitted es)" "set (idle_waiters p) \<subseteq> {Passed}"
    "stop p \<longrightarrow> set (threads p) \<subseteq> {Exited}"
proof -
  have inv: "pool_inv p" using pool_run_inv [OF assms(1) pool_inv_create] .
  have n: "0 < thread_count p" using pool_run_count [OF assms(1)] assms(3) by (simp add: ThreadPool_create_def)
  have "executing p = []"
    using at_rest_steps(1) [OF assms(2)] by (auto simp: executing_def split: pool_thread.splits)
  then show "mset (completed es) = mset (submitted es)"
    using pool_run_jobs [OF assms(1)] at_rest_done(1) [OF assms(2) inv n]
    by (simp add: ThreadPool_create_def executing_def)
  show "set (idle_waiters p) \<subseteq> {Passed}" "stop p \<longrightarrow> set (threads p) \<subseteq> {Exited}"
    using at_rest_done(3,4) [OF assms(2) inv n] by blast+
qed

text \<open>
  C19: left alone, the pool does all its work. From every state it can reach, the steps it makes
  by itself end, after at most \<open>pool_bound\<close> of them, and when they do every accepted job has been
  completed exactly once, every caller of \<open>WaitIdle\<close> has returned, and if \<open>Shutdown\<close> was called
  every thread has left \<open>WorkerLoop\<close>, so that the joins return. No wake-up is lost on the way.
\<close>

theorem pool_completes_work:
  assumes "pool_run A (ThreadPool_create n) es p" and "0 < n"
  shows "(\<forall>fs q. pool_step Internal p fs q \<longrightarrow> pool_bound q < pool_bound p) \<and>
    (\<exists>fs q. pool_run {Internal} p fs q \<and> at_rest q) \<and>
    (\<forall>fs q. pool_run {Internal} p fs q \<and> at_rest q \<longrightarrow>
       mset (completed (es @ fs)) = mset (submitted es) \<and> set (idle_waiters q) \<subseteq> {Passed} \<and>
       (stop p \<longrightarrow> set (threads q) \<subseteq> {Exited}))"
proof (intro conjI allI impI)
  fix fs q assume q: "pool_run {Internal} p fs q \<and> at_rest q"
  then have run: "pool_run (A \<union> {Internal}) (ThreadPool_create n) (es @ fs) q"
    using pool_run_append assms(1) by blast
  show "mset (completed (es @ fs)) = mset (submitted es)"
    "set (idle_waiters q) \<subseteq> {Passed}"
    using rest_completed [OF run] internal_run q assms(2) by auto
  show "set (threads q) \<subseteq> {Exited}" if "stop p"
    using rest_completed(3) [OF run] internal_run q assms(2) that by blast
qed (auto intro: pool_step_decreases comes_to_rest)

theorem pool_completes_work_witness:
  "\<exists>p fs q. pool_run {Client, Internal} (ThreadPool_create 1) [Submitted (7 :: nat), Started 7, Completed 7] p \<and>
    pool_run {Internal} p fs q \<and> at_rest q \<and> set (idle_waiters q) \<subseteq> {Passed}"
proof -
  obtain p where p: "pool_run {Client, Internal} (ThreadPool_create 1) [Submitted (7 :: nat), Started 7, Completed 7] p"
    using sample_run by blast
  show ?thesis using pool_completes_work [OF p] p by simp blast
qed

text \<open>
  A stopped pool. \<open>Submit\<close> after \<open>Shutdown\<close> returns as if it had worked, but the job is dropped:
  in every run from a stopped pool no job is accepted.
\<close>

theorem stopped_pool_drops_jobs:
  assumes "stop p" and "pool_run A p es q"
  shows "ThreadPool_Submit j p = p \<and> stop q \<and> submitted es = []"
  using assms(2)
proof (induction rule: pool_run.induct)
  case pool_start
  then show ?case using assms(1) by (simp add: ThreadPool_Submit_def)
next
  case (pool_next es q a fs r)
  then have "stop q" by blast
  then have "submitted fs = [] \<and> stop r"
    by (cases rule: pool_step.cases [OF pool_next(3)])
      (auto simp: pool_op_defs take_Suc submitted_def split: list.splits)
  then show ?case using pool_next(4) by simp
qed

theorem stopped_pool_drops_jobs_witness:
  "ThreadPool_Submit (7 :: nat) (ThreadPool_Shutdown (ThreadPool_create 1)) =
     ThreadPool_Shutdown (ThreadPool_create 1)"
  using stopped_pool_drops_jobs [of "ThreadPool_Shutdown (ThreadPool_create 1)" "{}" "[]", OF _ pool_start, of 7]
  by (simp add: ThreadPool_Shutdown_def ThreadPool_create_def)

end
