(* ===== verification/Worker.thy ===== *)
theory Worker
  imports Broker Task_Registry Thread_Pool
begin

text \<open>
  The worker (src/worker.cc, include/taskqueue/worker.h): construction and configuration, the
  heartbeat, the processing of a task and \<open>RunOnce\<close>. The state is the worker object, the state of
  the application its handlers act on, and the broker. Readings of the two clocks are arguments:
  \<^verbatim>\<open>steady_clock\<close> in nanoseconds, \<open>NowUnixMs\<close> in milliseconds. The loop of \<open>Run\<close> with its
  threads is in Worker_Loop.
\<close>

section \<open>State\<close>

definition kDefaultVisibilityTimeoutMs :: int where "kDefaultVisibilityTimeoutMs = 30000"
definition kDefaultWorkerHeartbeatIntervalMs :: int where "kDefaultWorkerHeartbeatIntervalMs = 5000"
definition kDefaultWorkerHeartbeatTtlSeconds :: int where "kDefaultWorkerHeartbeatTtlSeconds = 15"

record 'w Worker =
  w_registry :: "'w TaskRegistry"
  w_thread_pool :: "TaskMessage ThreadPool"
  w_running :: bool
  w_worker_id :: string
  w_hostname :: string
  w_pid :: int
  w_started_at_ms :: int
  w_poll_interval :: int
  w_visibility_timeout :: int
  w_heartbeat_interval :: int
  w_heartbeat_ttl_seconds :: int
  w_last_heartbeat_at :: int

record ('w, 's) system =
  sys_worker :: "'w Worker"
  sys_app :: 'w
  sys_broker :: 's

text \<open>A call of the broker; the caller holds \<^verbatim>\<open>broker_mutex_\<close>, so it is not interrupted.\<close>

definition on_broker :: "('s, 'a) io \<Rightarrow> (('w, 's) system, 'a) io" where
  "on_broker m = (\<lambda>s. case m (sys_broker s) of (r, b) \<Rightarrow> (r, s\<lparr>sys_broker := b\<rparr>))"

section \<open>Construction and configuration\<close>

definition ThrowIfInvalid :: "ConfigValidation \<Rightarrow> exn + unit" where
  "ThrowIfInvalid validation =
     (if pr_Ok validation then Inr () else Inl (InvalidArgument (pr_error validation)))"

text \<open>\<open>name\<close> is the buffer after \<^verbatim>\<open>gethostname\<close>, \<open>None\<close> when the call fails.\<close>

definition ReadHostname :: "string option \<Rightarrow> string" where
  "ReadHostname name =
     (case name of
        None \<Rightarrow> ''unknown''
      | Some buffer \<Rightarrow> takeWhile (\<lambda>c. c \<noteq> CHR 0x00) (take 255 buffer))"

definition Worker_create ::
    "8 word list \<Rightarrow> string option \<Rightarrow> int \<Rightarrow> nat \<Rightarrow> exn + 'w Worker" where
  "Worker_create bytes host getpid n =
     bind_sum (ThrowIfInvalid (ValidateWorkerConcurrency n)) (\<lambda>_.
     bind_sum (ThrowIfInvalid (ValidatePollInterval 100)) (\<lambda>_.
     bind_sum (ThrowIfInvalid (ValidateVisibilityTimeout kDefaultVisibilityTimeoutMs)) (\<lambda>_.
     bind_sum (ThrowIfInvalid (ValidatePollInterval kDefaultWorkerHeartbeatIntervalMs)) (\<lambda>_.
       Inr \<lparr>w_registry = TaskRegistry_empty, w_thread_pool = ThreadPool_create n, w_running = False,
            w_worker_id = TaskId_Value (TaskId_Generate bytes), w_hostname = ReadHostname host,
            w_pid = getpid, w_started_at_ms = 0, w_poll_interval = 100,
            w_visibility_timeout = kDefaultVisibilityTimeoutMs,
            w_heartbeat_interval = kDefaultWorkerHeartbeatIntervalMs,
            w_heartbeat_ttl_seconds = kDefaultWorkerHeartbeatTtlSeconds,
            w_last_heartbeat_at = 0\<rparr>))))"

definition Worker_RegisterTask :: "string \<Rightarrow> 'w TaskHandler \<Rightarrow> 'w Worker \<Rightarrow> 'w Worker" where
  "Worker_RegisterTask name handler w =
     w\<lparr>w_registry := TaskRegistry_RegisterTask name handler (w_registry w)\<rparr>"

definition Worker_SetPollInterval :: "int \<Rightarrow> 'w Worker \<Rightarrow> exn + 'w Worker" where
  "Worker_SetPollInterval interval w =
     bind_sum (ThrowIfInvalid (ValidatePollInterval interval)) (\<lambda>_. Inr (w\<lparr>w_poll_interval := interval\<rparr>))"

definition Worker_SetVisibilityTimeout :: "int \<Rightarrow> 'w Worker \<Rightarrow> exn + 'w Worker" where
  "Worker_SetVisibilityTimeout timeout w =
     bind_sum (ThrowIfInvalid (ValidateVisibilityTimeout timeout)) (\<lambda>_.
       Inr (w\<lparr>w_visibility_timeout := timeout\<rparr>))"

definition Worker_SetHeartbeatInterval :: "int \<Rightarrow> 'w Worker \<Rightarrow> exn + 'w Worker" where
  "Worker_SetHeartbeatInterval interval w =
     bind_sum (ThrowIfInvalid (ValidatePollInterval interval)) (\<lambda>_.
       Inr (w\<lparr>w_heartbeat_interval := interval\<rparr>))"

definition Worker_Stop :: "'w Worker \<Rightarrow> 'w Worker" where
  "Worker_Stop w = w\<lparr>w_running := False\<rparr>"

definition Worker_IsRunning :: "'w Worker \<Rightarrow> bool" where
  "Worker_IsRunning w = w_running w"

definition Worker_Concurrency :: "'w Worker \<Rightarrow> nat" where
  "Worker_Concurrency w = thread_count (w_thread_pool w)"

definition Worker_CanAcceptTask :: "'w Worker \<Rightarrow> bool" where
  "Worker_CanAcceptTask w \<longleftrightarrow> InFlightCount (w_thread_pool w) < thread_count (w_thread_pool w)"

section \<open>Heartbeat\<close>

definition worker_heartbeat :: "int \<Rightarrow> 'w Worker \<Rightarrow> WorkerHeartbeat" where
  "worker_heartbeat now_ms w =
     \<lparr>worker_id = w_worker_id w, hostname = w_hostname w, pid = w_pid w,
      started_at_ms = w_started_at_ms w, last_seen_ms = now_ms,
      concurrency = of_nat (thread_count (w_thread_pool w)),
      currently_running = of_nat (InFlightCount (w_thread_pool w))\<rparr>"

definition Worker_MaybePublishHeartbeat ::
    "'s Broker \<Rightarrow> int \<Rightarrow> int \<Rightarrow> (('w, 's) system, unit) io" where
  "Worker_MaybePublishHeartbeat B steady_now now_ms =
     (\<lambda>s. let w = sys_worker s
          in if w_last_heartbeat_at w \<noteq> 0 \<and>
                steady_now - w_last_heartbeat_at w < w_heartbeat_interval w * 1000000
             then (Inr (), s)
             else let w = w\<lparr>w_last_heartbeat_at := steady_now\<rparr>
                  in on_broker (b_UpsertWorkerHeartbeat B (worker_heartbeat now_ms w)
                       (w_heartbeat_ttl_seconds w)) (s\<lparr>sys_worker := w\<rparr>))"

section \<open>Processing a task\<close>

text \<open>\<^verbatim>\<open>duration_cast<milliseconds>\<close> of a difference in nanoseconds: rounded towards zero.\<close>

definition elapsed_ms :: "int \<Rightarrow> int \<Rightarrow> int" where
  "elapsed_ms started_at finished_at =
     (let d = finished_at - started_at in if d < 0 then - (- d div 1000000) else d div 1000000)"

definition Worker_ProcessTask ::
    "'s Broker \<Rightarrow> int \<Rightarrow> int \<Rightarrow> int \<Rightarrow> TaskMessage \<Rightarrow> (('w, 's) system, unit) io" where
  "Worker_ProcessTask B started_at finished_at now_ms task =
     (\<lambda>s. let r = w_registry (sys_worker s)
          in if \<not> TaskRegistry_HasTask r (m_name task)
             then on_broker (b_Fail B (m_id task) (''unknown task: '' @ m_name task)) s
             else let (result, app) = TaskRegistry_Execute r (m_name task) (m_payload task) (sys_app s)
                  in on_broker
                      (then_io (b_RecordDurationMs B kTaskExecutionDurationMs (elapsed_ms started_at finished_at))
                        (if tr_success result then b_Ack B (m_id task)
                         else then_io (b_RecordCounter B kTasksFailedTotal 1)
                               (if ShouldRetry task then b_Retry B now_ms task (tr_error_message result)
                                else b_Fail B (m_id task) (tr_error_message result))))
                      (s\<lparr>sys_app := app\<rparr>))"

text \<open>On a pool thread nothing catches an exception.\<close>

definition on_pool_thread :: "('s, unit) io \<Rightarrow> ('s, unit) io" where
  "on_pool_thread m = catch_io m (\<lambda>_. throw Terminated)"

section \<open>RunOnce\<close>

text \<open>One pass of the scheduler and a reservation, under the broker's mutex.\<close>

definition Worker_poll ::
    "'s Broker \<Rightarrow> int \<Rightarrow> int \<Rightarrow> (('w, 's) system, TaskMessage option option) io" where
  "Worker_poll B tick_ms reserve_ms =
     (\<lambda>s. on_broker
        (bind_io (RunSchedulerTick B tick_ms (w_visibility_timeout (sys_worker s))) (\<lambda>ticked.
           case ticked of
             None \<Rightarrow> ret None
           | Some _ \<Rightarrow> bind_io (b_Reserve B reserve_ms) (\<lambda>task. ret (Some task)))) s)"

text \<open>
  \<open>RunOnce\<close> on a pool that is idle when it is called: \<^verbatim>\<open>WaitIdle\<close> returns once the submitted task
  has been run by a pool thread, or at once when the pool is stopped and \<^verbatim>\<open>Submit\<close> drops the task.
  \<open>None\<close> means that the scheduler tick has not ended.
\<close>

definition Worker_RunOnce ::
    "'s Broker \<Rightarrow> int \<Rightarrow> int \<Rightarrow> int \<Rightarrow> int \<Rightarrow> int \<Rightarrow> (('w, 's) system, bool option) io" where
  "Worker_RunOnce B tick_ms reserve_ms started_at finished_at now_ms =
     bind_io (Worker_poll B tick_ms reserve_ms) (\<lambda>polled.
       case polled of
         None \<Rightarrow> ret None
       | Some None \<Rightarrow> ret (Some False)
       | Some (Some task) \<Rightarrow>
           (\<lambda>s. if tasks (ThreadPool_Submit task (w_thread_pool (sys_worker s))) = []
                then (Inr (Some True), s)
                else then_io (on_pool_thread (Worker_ProcessTask B started_at finished_at now_ms task))
                       (ret (Some True)) s))"

end
