(* ===== verification/Script_Sim.thy ===== *)
theory Script_Sim
  imports Redis_Broker "HOL-Library.Multiset"
begin

text \<open>
  How a client call acts on the server's keyspace. The locale \<open>external\<close> joins the contracts of
  the external code. A script run by any server that meets the contract does on the view of its
  state what the same script does on the keyspace itself (\<open>dbx\<close>), and \<open>Eval\<close> runs it exactly
  once, whatever the script cache holds; a lost message leaves the keyspace before or after it.
\<close>

section \<open>Scripts on the bare keyspace\<close>

definition db_redis :: "redis_db redis_ops" where
  "db_redis =
     \<lparr>call = redis_sem, script_sha = sha_of, script_load = (\<lambda>i db. db),
      script_find = (\<lambda>sha db. None)\<rparr>"

definition dbx :: "text_ops \<Rightarrow> redis_db ext" where
  "dbx T = \<lparr>codec = T, rds = db_redis, umap_order = id\<rparr>"

lemma dbx_simps [simp]: "codec (dbx T) = T" "rds (dbx T) = db_redis"
  by (simp_all add: dbx_def)

definition no_error :: "redis_reply \<times> redis_db \<Rightarrow> bool" where
  "no_error p \<longleftrightarrow> (case fst p of RErr _ \<Rightarrow> False | _ \<Rightarrow> True)"

lemma redis_call_db:
  "redis_call (dbx T) c db =
     (case redis_sem c db of (RErr e, db') \<Rightarrow> (Inl (RedisError e), db') | (r, db') \<Rightarrow> (Inr r, db'))"
  by (simp add: redis_call_def run_cmd_def db_redis_def)

section \<open>The connection and the keyspace behind it\<close>

text \<open>
  \<open>loaded\<close>: the client holds the hash of every script, as \<^verbatim>\<open>LoadScripts\<close> leaves it.
  \<open>connected\<close>: in addition no message will be lost, and the keyspace is the given one.
\<close>

definition loaded :: "'s ext \<Rightarrow> 's conn \<Rightarrow> bool" where
  "loaded X c \<longleftrightarrow> (\<forall>i. shas c i = script_sha (rds X) i)"

definition connected :: "'s ext \<Rightarrow> ('s \<Rightarrow> redis_db) \<Rightarrow> 's conn \<Rightarrow> redis_db \<Rightarrow> bool" where
  "connected X view c db \<longleftrightarrow> loaded X c \<and> net c = [] \<and> view (srv c) = db"

text \<open>
  \<open>yields X view m db r db'\<close>: on a connection without losses to a server with keyspace \<open>db\<close> the
  computation \<open>m\<close> ends with the result \<open>r\<close> and leaves the keyspace \<open>db'\<close>.
\<close>

definition yields ::
    "'s ext \<Rightarrow> ('s \<Rightarrow> redis_db) \<Rightarrow> ('s conn, 'a) io \<Rightarrow> redis_db \<Rightarrow> exn + 'a \<Rightarrow> redis_db \<Rightarrow> bool" where
  "yields X view m db r db' \<longleftrightarrow>
     (\<forall>c. connected X view c db \<longrightarrow> (\<exists>c'. m c = (r, c') \<and> connected X view c' db'))"

lemma yieldsD:
  "yields X view m db r db' \<Longrightarrow> connected X view c db \<Longrightarrow>
     \<exists>c'. m c = (r, c') \<and> connected X view c' db'"
  by (simp add: yields_def)

lemma yields_pure [intro]:
  "yields X view (ret a) db (Inr a) db" "yields X view (lift_io r) db r db"
  "yields X view (throw e) db (Inl e) db"
  by (simp_all add: yields_def ret_def lift_io_def throw_def)

lemma yields_bind:
  "yields X view m db (Inr a) db1 \<Longrightarrow> yields X view (f a) db1 r db2 \<Longrightarrow>
     yields X view (bind_io m f) db r db2"
  by (fastforce simp: yields_def bind_io_def)

lemma yields_then:
  "yields X view m db (Inr a) db1 \<Longrightarrow> yields X view n db1 r db2 \<Longrightarrow>
     yields X view (then_io m n) db r db2"
  by (simp add: then_io_def yields_bind)

lemma yields_bind_fail:
  "yields X view m db (Inl e) db1 \<Longrightarrow> yields X view (bind_io m f) db (Inl e) db1"
  by (fastforce simp: yields_def bind_io_def)

lemma yields_catch:
  "yields X view m db (Inr a) db1 \<Longrightarrow> yields X view (catch_io m h) db (Inr a) db1"
  by (fastforce simp: yields_def catch_io_def)

lemma yields_lift_bind: "yields X view (f a) db r db' \<Longrightarrow> yields X view (bind_io (lift_io (Inr a)) f) db r db'"
  by (rule yields_bind [OF yields_pure(2)])

text \<open>\<open>conn_keeps X view I m\<close>: whatever messages are lost, \<open>m\<close> keeps \<open>I\<close> of the keyspace.\<close>

definition conn_inv :: "'s ext \<Rightarrow> ('s \<Rightarrow> redis_db) \<Rightarrow> (redis_db \<Rightarrow> bool) \<Rightarrow> 's conn \<Rightarrow> bool" where
  "conn_inv X view I c \<longleftrightarrow> loaded X c \<and> I (view (srv c))"

abbreviation conn_keeps ::
    "'s ext \<Rightarrow> ('s \<Rightarrow> redis_db) \<Rightarrow> (redis_db \<Rightarrow> bool) \<Rightarrow> ('s conn, 'a) io \<Rightarrow> bool" where
  "conn_keeps X view I m \<equiv> keeps (conn_inv X view I) m"

section \<open>The contract of the external code\<close>

locale external =
  wire_text "codec X" + redis_server "rds X" view
  for X :: "'s ext" and view :: "'s \<Rightarrow> redis_db" +
  assumes umap_mset [simp]: "mset (umap_order X xs) = mset xs"
begin

lemma umap_order_simps [simp]: "umap_order X [] = []" "umap_order X [p] = [p]"
  using umap_mset [of "[]"] umap_mset [of "[p]"] by (simp_all del: umap_mset)

lemma umap_set [simp]: "set (umap_order X xs) = set xs"
  by (rule mset_eq_setD) simp

lemma umap_distinct [simp]: "distinct (map fst (umap_order X xs)) \<longleftrightarrow> distinct (map fst xs)"
  by (rule mset_eq_imp_distinct_iff) simp

lemma umap_filter_length [simp]: "length (filter P (umap_order X xs)) = length (filter P xs)"
  by (metis mset_filter size_mset umap_mset)

lemma umap_map_of [simp]: "distinct (map fst xs) \<Longrightarrow> map_of (umap_order X xs) = map_of xs"
  by (subst map_of_inject_set) simp_all

text \<open>\<open>sim m n\<close>: what \<open>m\<close> does on the server is, seen through the view, what \<open>n\<close> does on the keyspace.\<close>

definition sim :: "('s, 'a) io \<Rightarrow> (redis_db, 'a) io \<Rightarrow> bool" where
  "sim m n \<longleftrightarrow> (\<forall>s. n (view s) = map_prod id view (m s))"

lemma simD: "sim m n \<Longrightarrow> m s = (r, s') \<Longrightarrow> n (view s) = (r, view s')"
  by (simp add: sim_def)

lemma sim_ret: "sim (ret a) (ret a)" "sim (throw e) (throw e)"
  by (simp_all add: sim_def ret_def throw_def)

lemma sim_bind: "sim m n \<Longrightarrow> (\<And>a. sim (f a) (g a)) \<Longrightarrow> sim (bind_io m f) (bind_io n g)"
  by (auto simp: sim_def bind_io_def split: prod.splits sum.splits)

lemma sim_then: "sim m n \<Longrightarrow> sim m' n' \<Longrightarrow> sim (then_io m m') (then_io n n')"
  by (simp add: then_io_def sim_bind)

lemma sim_catch: "sim m n \<Longrightarrow> (\<And>e. sim (f e) (g e)) \<Longrightarrow> sim (catch_io m f) (catch_io n g)"
  by (auto simp: sim_def catch_io_def split: prod.splits sum.splits)

lemma sim_run_cmd: "well_keyed c \<Longrightarrow> sim (run_cmd (rds X) c) (run_cmd db_redis c)"
  using call_sem [of c] by (auto simp: sim_def run_cmd_def db_redis_def split: prod.splits redis_reply.splits)

lemma sim_call: "well_keyed c \<Longrightarrow> sim (redis_call X c) (redis_call (dbx (codec X)) c)"
  by (simp add: redis_call_def sim_run_cmd)

lemma sim_encode: "sim (cjson_encode X v) (cjson_encode (dbx (codec X)) v)"
  by (auto simp: cjson_encode_def sim_ret split: option.splits)

lemma sim_lua_arg: "sim (lua_arg X v) (lua_arg (dbx (codec X)) v)"
  by (cases v) (simp_all add: sim_ret)

lemma sim_tonumber: "sim (tonumber X v) (tonumber (dbx (codec X)) v)"
  by (cases v) (auto simp: sim_ret split: option.splits)

lemmas sim_rules = sim_ret sim_bind sim_then sim_call sim_encode sim_lua_arg sim_tonumber

lemma sim_kReserve:
  "kind_of k1 = ListKey \<Longrightarrow> kind_of k2 = HashKey \<Longrightarrow> kind_of k3 = HashKey \<Longrightarrow>
     sim (kReserveScript X k1 k2 k3 n) (kReserveScript (dbx (codec X)) k1 k2 k3 n)"
  unfolding kReserveScript_def Let_def
  by (auto intro!: sim_rules split: redis_reply.splits option.splits)

lemma sim_kPromoteOne:
  "kind_of k1 = ZsetKey \<Longrightarrow> kind_of k2 = ListKey \<Longrightarrow> kind_of k3 = HashKey \<Longrightarrow>
     sim (kPromoteOneScript X k1 k2 k3 n p) (kPromoteOneScript (dbx (codec X)) k1 k2 k3 n p)"
  unfolding kPromoteOneScript_def Let_def
  by (auto intro!: sim_rules split: redis_reply.splits option.splits list.splits)

lemma sim_kReclaimOne:
  "kind_of k1 = HashKey \<Longrightarrow> kind_of k2 = ListKey \<Longrightarrow> kind_of k3 = HashKey \<Longrightarrow>
     sim (kReclaimOneScript X k1 k2 k3 i n m) (kReclaimOneScript (dbx (codec X)) k1 k2 k3 i n m)"
  unfolding kReclaimOneScript_def Let_def
  by (auto intro!: sim_rules split: redis_reply.splits option.splits)

lemma sim_kRetry:
  "kind_of k1 = HashKey \<Longrightarrow> kind_of k2 = ZsetKey \<Longrightarrow> kind_of k3 = HashKey \<Longrightarrow> kind_of k4 = HashKey \<Longrightarrow>
     sim (kRetryScript X k1 k2 k3 k4 i j t r st) (kRetryScript (dbx (codec X)) k1 k2 k3 k4 i j t r st)"
  unfolding kRetryScript_def by (auto intro!: sim_rules)

lemma sim_kFail:
  "kind_of k1 = HashKey \<Longrightarrow> kind_of k2 = ListKey \<Longrightarrow> kind_of k3 = HashKey \<Longrightarrow> kind_of k4 = HashKey \<Longrightarrow>
     sim (kFailScript X k1 k2 k3 k4 i r st) (kFailScript (dbx (codec X)) k1 k2 k3 k4 i r st)"
  unfolding kFailScript_def Let_def
  by (auto intro!: sim_rules split: redis_reply.splits option.splits)

lemma sim_kAck:
  "kind_of k1 = HashKey \<Longrightarrow> kind_of k2 = HashKey \<Longrightarrow> kind_of k3 = HashKey \<Longrightarrow> kind_of k4 = HashKey \<Longrightarrow>
     sim (kAckScript X k1 k2 k3 k4 i r st) (kAckScript (dbx (codec X)) k1 k2 k3 k4 i r st)"
  unfolding kAckScript_def by (auto intro!: sim_rules)

lemma sim_retry_dead_loop:
  "kind_of k1 = ListKey \<Longrightarrow> kind_of k2 = ListKey \<Longrightarrow> kind_of k3 = HashKey \<Longrightarrow> kind_of k4 = HashKey \<Longrightarrow>
     sim (retry_dead_loop X k1 k2 k3 k4 i items) (retry_dead_loop (dbx (codec X)) k1 k2 k3 k4 i items)"
  by (induction items) (auto intro!: sim_rules simp: Let_def split: option.splits)

lemma sim_kRetryDeadTask:
  "kind_of k1 = ListKey \<Longrightarrow> kind_of k2 = ListKey \<Longrightarrow> kind_of k3 = HashKey \<Longrightarrow> kind_of k4 = HashKey \<Longrightarrow>
     sim (kRetryDeadTaskScript X k1 k2 k3 k4 i) (kRetryDeadTaskScript (dbx (codec X)) k1 k2 k3 k4 i)"
  unfolding kRetryDeadTaskScript_def
  by (auto intro!: sim_rules sim_retry_dead_loop split: redis_reply.splits)

section \<open>Calls\<close>

lemma sim_script_load: "view (script_load (rds X) i s) = view s"
  by (rule load_view)

lemma sim_catch_reply:
  "sim m n \<Longrightarrow> sim (catch_io m (\<lambda>e. throw (error_reply e))) (catch_io n (\<lambda>e. throw (error_reply e)))"
  by (rule sim_catch) (simp_all add: sim_ret)

lemma keeps_transmit:
  assumes "sim m n" and "keeps I n"
  shows "conn_keeps X view I (transmit m)"
proof (rule keepsI)
  fix c assume c: "conn_inv X view I c"
  obtain r s' where m: "m (srv c) = (r, s')" by (cases "m (srv c)")
  have "I (view s')" using keepsD [OF assms(2)] simD [OF assms(1) m] c by (force simp: conn_inv_def)
  with c m show "conn_inv X view I (snd (transmit m c))"
    by (auto simp: transmit_def conn_inv_def loaded_def split: list.splits net_event.splits)
qed

lemma keeps_LoadScript: "conn_keeps X view I (LoadScript X i)"
  by (rule keepsI) (auto simp: LoadScript_def transmit_def bind_io_def conn_inv_def loaded_def load_view
      split: list.splits net_event.splits)

lemma keeps_evalsha:
  assumes "sim (run_script X i keys args) n" and "keeps I n"
  shows "conn_keeps X view I (evalsha X i keys args)"
proof (rule keepsI)
  fix c assume c: "conn_inv X view I c"
  let ?m = "server_evalsha X (shas c i) keys args"
  have "I (view (snd (?m s)))" if I: "I (view s)" for s
  proof (cases "script_find (rds X) (shas c i) s")
    case None
    then show ?thesis using I by (simp add: server_evalsha_def)
  next
    case (Some j)
    then have [simp]: "j = i"
      using c find_sha [OF Some] sha_inj by (auto simp: conn_inv_def loaded_def dest: injD)
    show ?thesis
      using Some I keepsD [OF assms(2) I] assms(1)
      by (cases "run_script X i keys args s")
        (auto simp: server_evalsha_def catch_io_def throw_def sim_def split: sum.splits)
  qed
  then have "I (view (srv (snd (transmit ?m c))))"
    using c by (force simp: transmit_def conn_inv_def split: list.splits net_event.splits prod.splits)
  moreover have "loaded X (snd (transmit ?m c))"
    using c by (auto simp: transmit_def conn_inv_def loaded_def split: list.splits net_event.splits prod.splits)
  ultimately show "conn_inv X view I (snd (evalsha X i keys args c))"
    by (simp add: evalsha_def conn_inv_def)
qed

lemma keeps_Eval:
  assumes "sim (run_script X i keys args) n" and "keeps I n"
  shows "conn_keeps X view I (Eval X i keys args)"
  unfolding Eval_def using keeps_evalsha [OF assms] keeps_LoadScript
  by (auto intro!: keeps_intros)

lemma keeps_redis_do:
  "well_keyed c \<Longrightarrow> keeps I (run_cmd db_redis c) \<Longrightarrow> conn_keeps X view I (redis_do (rds X) c)"
  unfolding redis_do_def by (rule keeps_transmit [OF sim_run_cmd])

lemma sim_run_cmds: "list_all well_keyed cs \<Longrightarrow> sim (run_cmds (rds X) cs) (run_cmds db_redis cs)"
  by (induction cs) (auto intro: sim_ret sim_then sim_run_cmd)

lemma keeps_multi_exec:
  "list_all well_keyed cs \<Longrightarrow> keeps I (run_cmds db_redis cs) \<Longrightarrow>
     conn_keeps X view I (multi_exec (rds X) cs)"
  unfolding multi_exec_def by (rule keeps_transmit [OF sim_run_cmds])

lemma yields_transmit:
  assumes "sim m n" and "n db = (r, db')"
  shows "yields X view (transmit m) db r db'"
proof -
  have "\<exists>c'. transmit m c = (r, c') \<and> connected X view c' db'" if c: "connected X view c db" for c
  proof -
    obtain r' s' where m: "m (srv c) = (r', s')" by (cases "m (srv c)")
    have "r' = r" "view s' = db'" using simD [OF assms(1) m] assms(2) c by (simp_all add: connected_def)
    then show ?thesis using m c by (simp add: transmit_def connected_def loaded_def)
  qed
  then show ?thesis by (simp add: yields_def)
qed

lemma yields_redis_do:
  "well_keyed c \<Longrightarrow> run_cmd db_redis c db = (r, db') \<Longrightarrow> yields X view (redis_do (rds X) c) db r db'"
  unfolding redis_do_def by (rule yields_transmit [OF sim_run_cmd])

lemma yields_multi_exec:
  "list_all well_keyed cs \<Longrightarrow> run_cmds db_redis cs db = (r, db') \<Longrightarrow>
     yields X view (multi_exec (rds X) cs) db r db'"
  unfolding multi_exec_def by (rule yields_transmit [OF sim_run_cmds])

text \<open>\<open>Eval\<close> runs the script once, whether the server has it in its cache or answers NOSCRIPT.\<close>

lemma evalsha_found:
  assumes "sim (run_script X i keys args) n" and "n db = (Inr r, db')"
    and "connected X view c db" and "script_find (rds X) (shas c i) (srv c) = Some j"
  shows "\<exists>c'. evalsha X i keys args c = (Inr r, c') \<and> connected X view c' db'"
proof -
  have [simp]: "j = i"
    using assms(3,4) find_sha [OF assms(4)] sha_inj by (auto simp: connected_def loaded_def dest: injD)
  obtain r' s' where m: "run_script X i keys args (srv c) = (r', s')"
    by (cases "run_script X i keys args (srv c)")
  have "r' = Inr r" "view s' = db'" using simD [OF assms(1) m] assms(2,3) by (simp_all add: connected_def)
  then show ?thesis
    using m assms(3,4) by (simp add: evalsha_def transmit_def server_evalsha_def catch_io_def connected_def loaded_def)
qed

lemma yields_Eval:
  assumes "sim (run_script X i keys args) n" and "n db = (Inr r, db')"
  shows "yields X view (Eval X i keys args) db (Inr r) db'"
proof -
  have "\<exists>c'. Eval X i keys args c = (Inr r, c') \<and> connected X view c' db'" if c: "connected X view c db" for c
  proof (cases "script_find (rds X) (shas c i) (srv c)")
    case (Some j)
    show ?thesis using evalsha_found [OF assms c Some] by (auto simp: Eval_def catch_io_def)
  next
    case None
    let ?c = "c\<lparr>srv := script_load (rds X) i (srv c), shas := (shas c)(i := script_sha (rds X) i)\<rparr>"
    have miss: "evalsha X i keys args c = (Inl noscript, c)"
      using None c by (simp add: evalsha_def transmit_def server_evalsha_def connected_def)
    have load: "LoadScript X i c = (Inr (), ?c)"
      using c by (simp add: LoadScript_def bind_io_def transmit_def connected_def)
    have c': "connected X view ?c db" using c by (simp add: connected_def loaded_def load_view)
    have "script_find (rds X) (shas ?c i) (srv ?c) = Some i" by (simp add: load_find)
    from evalsha_found [OF assms c' this] show ?thesis
      using miss load by (auto simp: Eval_def catch_io_def then_io_def bind_io_def noscript_def)
  qed
  then show ?thesis by (simp add: yields_def)
qed

text \<open>The constructor: \<open>LoadScripts\<close> leaves every hash in place.\<close>

lemma LoadScript_ok:
  "net c = [] \<Longrightarrow> LoadScript X i c =
     (Inr (), c\<lparr>srv := script_load (rds X) i (srv c), shas := (shas c)(i := script_sha (rds X) i)\<rparr>)"
  by (simp add: LoadScript_def bind_io_def transmit_def)

lemma LoadScriptList_ok:
  "net c = [] \<Longrightarrow>
     \<exists>c'. LoadScriptList X is c = (Inr (), c') \<and> net c' = [] \<and> view (srv c') = view (srv c) \<and>
          (\<forall>i. shas c' i = (if i \<in> set is then script_sha (rds X) i else shas c i))"
proof (induction "is" arbitrary: c)
  case Nil
  then show ?case by (simp add: ret_def)
next
  case (Cons i "is")
  let ?c = "c\<lparr>srv := script_load (rds X) i (srv c), shas := (shas c)(i := script_sha (rds X) i)\<rparr>"
  have "net ?c = []" using Cons.prems by simp
  from Cons.IH [OF this] obtain c' where
    "LoadScriptList X is ?c = (Inr (), c')" "net c' = []" "view (srv c') = view (srv c)"
    "\<forall>j. shas c' j = (if j \<in> set is then script_sha (rds X) j else shas ?c j)"
    by (auto simp: load_view)
  then show ?case
    using LoadScript_ok [OF Cons.prems, of i] by (auto simp: then_io_def bind_io_def)
qed

lemma LoadScripts_connected:
  assumes "net c = []"
  shows "\<exists>c'. LoadScripts X c = (Inr (), c') \<and> connected X view c' (view (srv c))"
proof -
  have all: "i \<in> set [kReserve, kPromoteOne, kReclaimOne, kRetry, kFail, kAck, kRetryDeadTask]" for i
    by (cases i) simp_all
  from LoadScriptList_ok [OF assms,
      of "[kReserve, kPromoteOne, kReclaimOne, kRetry, kFail, kAck, kRetryDeadTask]"]
  show ?thesis using all by (auto simp: LoadScripts_def connected_def loaded_def)
qed

end

section \<open>An instance\<close>

definition ref_ext :: "mem_server ext" where
  "ref_ext = \<lparr>codec = ref_text, rds = mem_redis, umap_order = rev\<rparr>"

lemma ref_ext_simps [simp]:
  "codec ref_ext = ref_text" "rds ref_ext = mem_redis" "umap_order ref_ext = rev"
  by (simp_all add: ref_ext_def)

interpretation refx: external ref_ext fst
  by (simp add: external_def external_axioms_def ref.wire_text_axioms mem.redis_server_axioms)

text \<open>A connection to the in-memory server, with an empty script cache.\<close>

definition ref_conn :: "redis_db \<Rightarrow> mem_server conn" where
  "ref_conn db = \<lparr>srv = (db, []), net = [], shas = sha_of\<rparr>"

lemma ref_conn_connected [simp]: "connected ref_ext fst (ref_conn db) db"
  by (simp add: connected_def loaded_def ref_conn_def mem_redis_def)

end
