(* ===== verification/Queue_Spec.thy ===== *)
theory Queue_Spec
  imports Task_Status "HOL-Library.Multiset"
begin

text \<open>
  What a broker promises, without texts, keys and clocks: a task identifier is pending, delayed,
  running or dead, and a finished one has a result. Each rule of \<open>qstep\<close> is the effect of one
  atomic request. The scheduling decisions (which delayed task is due, which running task is
  stale) are left open here; the theorems on the scripts fix them.
\<close>

record queue =
  q_pending :: "string list"
  q_delayed :: "string multiset"
  q_running :: "string set"
  q_dead :: "string list"
  q_status :: "string \<Rightarrow> TaskStatus option"
  q_done :: "string set"

definition empty_queue :: queue where
  "empty_queue =
     \<lparr>q_pending = [], q_delayed = {#}, q_running = {}, q_dead = [], q_status = (\<lambda>_. None),
      q_done = {}\<rparr>"

text \<open>New tasks enter the pending list at its head; the next task to run is its last element.\<close>

inductive qstep :: "queue \<Rightarrow> queue \<Rightarrow> bool" where
  enqueue:
    "qstep q (q\<lparr>q_pending := i # q_pending q, q_status := (q_status q)(i \<mapsto> kPending)\<rparr>)"
| enqueue_later:
    "qstep q (q\<lparr>q_delayed := add_mset i (q_delayed q), q_status := (q_status q)(i \<mapsto> kPending)\<rparr>)"
| enqueue_again:
    "i \<in># q_delayed q \<Longrightarrow> qstep q (q\<lparr>q_status := (q_status q)(i \<mapsto> kPending)\<rparr>)"
| reserve:
    "q_pending q = p @ [i] \<Longrightarrow>
     qstep q (q\<lparr>q_pending := p, q_running := insert i (q_running q),
                q_status := (q_status q)(i \<mapsto> kRunning)\<rparr>)"
| promote:
    "i \<in># q_delayed q \<Longrightarrow>
     qstep q (q\<lparr>q_pending := i # q_pending q, q_delayed := q_delayed q - {#i#},
                q_status := (q_status q)(i \<mapsto> kPending)\<rparr>)"
| reclaim:
    "i \<in> q_running q \<Longrightarrow>
     qstep q (q\<lparr>q_pending := i # q_pending q, q_running := q_running q - {i},
                q_status := (q_status q)(i \<mapsto> kPending)\<rparr>)"
| retry:
    "qstep q (q\<lparr>q_delayed := add_mset i (q_delayed q), q_running := q_running q - {i},
                q_status := (q_status q)(i \<mapsto> kRetrying)\<rparr>)"
| retry_again:
    "i \<in># q_delayed q \<Longrightarrow>
     qstep q (q\<lparr>q_running := q_running q - {i}, q_status := (q_status q)(i \<mapsto> kRetrying)\<rparr>)"
| fail:
    "i \<in> q_running q \<Longrightarrow>
     qstep q (q\<lparr>q_running := q_running q - {i}, q_dead := i # q_dead q,
                q_status := (q_status q)(i \<mapsto> kDead)\<rparr>)"
| fail_absent:
    "i \<notin> q_running q \<Longrightarrow> qstep q (q\<lparr>q_status := (q_status q)(i \<mapsto> kDead)\<rparr>)"
| ack:
    "qstep q (q\<lparr>q_running := q_running q - {i}, q_done := insert i (q_done q),
                q_status := (q_status q)(i \<mapsto> kSucceeded)\<rparr>)"
| retry_dead:
    "i \<in> set (q_dead q) \<Longrightarrow>
     qstep q (q\<lparr>q_pending := i # q_pending q, q_dead := remove1 i (q_dead q),
                q_status := (q_status q)(i \<mapsto> kPending)\<rparr>)"

inductive_cases qstepE: "qstep q q'"

text \<open>
  The same moves as operations, one per kind of request: an operation has a name and changes the
  queue in one way. \<open>QDelayAgain\<close> and \<open>QRetryAgain\<close> bring a text that the delayed set holds already.
\<close>

datatype qop =
    QEnqueue string
  | QDelay string
  | QDelayAgain string
  | QReserve
  | QPromote string
  | QReclaim string
  | QRetry string
  | QRetryAgain string
  | QFail string
  | QAck string
  | QRevive string
  | QIdle

abbreviation set_status :: "string \<Rightarrow> TaskStatus \<Rightarrow> queue \<Rightarrow> queue" where
  "set_status i st q \<equiv> q\<lparr>q_status := (q_status q)(i \<mapsto> st)\<rparr>"

fun qapply :: "qop \<Rightarrow> queue \<Rightarrow> queue" where
  "qapply (QEnqueue i) q = set_status i kPending (q\<lparr>q_pending := i # q_pending q\<rparr>)"
| "qapply (QDelay i) q = set_status i kPending (q\<lparr>q_delayed := add_mset i (q_delayed q)\<rparr>)"
| "qapply (QDelayAgain i) q = (if i \<in># q_delayed q then set_status i kPending q else q)"
| "qapply QReserve q =
     (if q_pending q = [] then q
      else set_status (last (q_pending q)) kRunning
        (q\<lparr>q_pending := butlast (q_pending q),
           q_running := insert (last (q_pending q)) (q_running q)\<rparr>))"
| "qapply (QPromote i) q =
     (if i \<in># q_delayed q
      then set_status i kPending
        (q\<lparr>q_pending := i # q_pending q, q_delayed := q_delayed q - {#i#}\<rparr>)
      else q)"
| "qapply (QReclaim i) q =
     (if i \<in> q_running q
      then set_status i kPending
        (q\<lparr>q_pending := i # q_pending q, q_running := q_running q - {i}\<rparr>)
      else q)"
| "qapply (QRetry i) q =
     set_status i kRetrying
       (q\<lparr>q_delayed := add_mset i (q_delayed q), q_running := q_running q - {i}\<rparr>)"
| "qapply (QRetryAgain i) q =
     (if i \<in># q_delayed q then set_status i kRetrying (q\<lparr>q_running := q_running q - {i}\<rparr>) else q)"
| "qapply (QFail i) q =
     (if i \<in> q_running q
      then set_status i kDead (q\<lparr>q_running := q_running q - {i}, q_dead := i # q_dead q\<rparr>)
      else set_status i kDead q)"
| "qapply (QAck i) q =
     set_status i kSucceeded
       (q\<lparr>q_running := q_running q - {i}, q_done := insert i (q_done q)\<rparr>)"
| "qapply (QRevive i) q =
     (if i \<in> set (q_dead q)
      then set_status i kPending
        (q\<lparr>q_pending := i # q_pending q, q_dead := remove1 i (q_dead q)\<rparr>)
      else q)"
| "qapply QIdle q = q"

lemma qapply_qstep: "qapply op q = q \<or> qstep q (qapply op q)"
proof (cases op)
  case QReserve
  show ?thesis
  proof (cases "q_pending q = []")
    case False
    then show ?thesis
      using QReserve qstep.reserve [of q "butlast (q_pending q)" "last (q_pending q)"] by simp
  qed (simp add: QReserve)
qed (auto intro: qstep.intros)

text \<open>Only acknowledging or failing a task takes it out of the pending, delayed and running ones.\<close>

definition live :: "queue \<Rightarrow> string set" where
  "live q = set (q_pending q) \<union> set_mset (q_delayed q) \<union> q_running q"

lemma last_or_butlast: "xs \<noteq> [] \<Longrightarrow> x \<in> set xs \<Longrightarrow> x = last xs \<or> x \<in> set (butlast xs)"
  by (metis append_butlast_last_id in_set_conv_decomp rotate1.simps(2) set_ConsD set_rotate1)

lemma qapply_live:
  assumes "i \<in> live q" and "op \<noteq> QAck i" and "op \<noteq> QFail i"
  shows "i \<in> live (qapply op q)"
proof (cases op)
  case QReserve
  then show ?thesis using assms(1) last_or_butlast [of "q_pending q" i] by (auto simp: live_def)
next
  case (QPromote j)
  then show ?thesis using assms(1) by (auto simp: live_def in_diff_count)
qed (use assms in \<open>auto simp: live_def\<close>)

text \<open>Only failing a task makes it dead.\<close>

lemma qapply_dead: "op \<noteq> QFail i \<Longrightarrow> i \<in> set (q_dead (qapply op q)) \<Longrightarrow> i \<in> set (q_dead q)"
  by (cases op) (auto dest: subsetD [OF set_remove1_subset] split: if_splits)

lemma qapply_done: "op \<noteq> QAck i \<Longrightarrow> i \<in> q_done (qapply op q) \<Longrightarrow> i \<in> q_done q"
  by (cases op) (auto split: if_splits)

text \<open>Still to be run: in the queues, not among the dead tasks, without a result.\<close>

definition unsettled :: "string \<Rightarrow> queue \<Rightarrow> bool" where
  "unsettled i q \<longleftrightarrow> i \<in> live q \<and> i \<notin> set (q_dead q) \<and> i \<notin> q_done q"

lemma qapply_unsettled:
  "unsettled i q \<Longrightarrow> op \<noteq> QAck i \<Longrightarrow> op \<noteq> QFail i \<Longrightarrow> unsettled i (qapply op q)"
  using qapply_live qapply_dead qapply_done by (auto simp: unsettled_def)

section \<open>No task is lost\<close>

text \<open>The identifiers that are queued somewhere or have a result.\<close>

definition known :: "queue \<Rightarrow> string set" where
  "known q = set (q_pending q) \<union> set_mset (q_delayed q) \<union> q_running q \<union> set (q_dead q) \<union> q_done q"

lemma mset_minus_single: "set_mset m \<subseteq> insert i (set_mset (m - {#i#}))"
  by (metis insert_DiffM2 insert_absorb set_mset_add_mset_insert subset_insertI subset_refl
      add_mset_remove_trivial_If diff_single_trivial)

lemma set_remove1_insert: "set xs \<subseteq> insert i (set (remove1 i xs))"
  by (induction xs) auto

lemma qstep_known: "qstep q q' \<Longrightarrow> known q \<subseteq> known q'"
proof (induction rule: qstep.induct)
  case (promote i q)
  then show ?case using mset_minus_single [of "q_delayed q" i] by (auto simp: known_def)
next
  case (retry_dead i q)
  then show ?case using set_remove1_insert [of "q_dead q" i] by (auto simp: known_def)
qed (auto simp: known_def)

lemma qsteps_known: "qstep\<^sup>*\<^sup>* q q' \<Longrightarrow> known q \<subseteq> known q'"
  by (induction rule: rtranclp_induct) (auto dest: qstep_known)

text \<open>What is recorded as done stays recorded.\<close>

lemma qsteps_done: "qstep\<^sup>*\<^sup>* q q' \<Longrightarrow> q_done q \<subseteq> q_done q'"
  by (induction rule: rtranclp_induct) (auto elim!: qstepE)

section \<open>One copy of each task\<close>

text \<open>
  Steps of clients that keep to the protocol: an identifier is enqueued once, and only a task
  that is running is acknowledged, retried or failed.
\<close>

inductive ostep :: "queue \<Rightarrow> queue \<Rightarrow> bool" where
  o_enqueue:
    "q_status q i = None \<Longrightarrow>
     ostep q (q\<lparr>q_pending := i # q_pending q, q_status := (q_status q)(i \<mapsto> kPending)\<rparr>)"
| o_enqueue_later:
    "q_status q i = None \<Longrightarrow>
     ostep q (q\<lparr>q_delayed := add_mset i (q_delayed q), q_status := (q_status q)(i \<mapsto> kPending)\<rparr>)"
| o_reserve:
    "q_pending q = p @ [i] \<Longrightarrow>
     ostep q (q\<lparr>q_pending := p, q_running := insert i (q_running q),
                q_status := (q_status q)(i \<mapsto> kRunning)\<rparr>)"
| o_promote:
    "i \<in># q_delayed q \<Longrightarrow>
     ostep q (q\<lparr>q_pending := i # q_pending q, q_delayed := q_delayed q - {#i#},
                q_status := (q_status q)(i \<mapsto> kPending)\<rparr>)"
| o_reclaim:
    "i \<in> q_running q \<Longrightarrow>
     ostep q (q\<lparr>q_pending := i # q_pending q, q_running := q_running q - {i},
                q_status := (q_status q)(i \<mapsto> kPending)\<rparr>)"
| o_retry:
    "i \<in> q_running q \<Longrightarrow>
     ostep q (q\<lparr>q_delayed := add_mset i (q_delayed q), q_running := q_running q - {i},
                q_status := (q_status q)(i \<mapsto> kRetrying)\<rparr>)"
| o_fail:
    "i \<in> q_running q \<Longrightarrow>
     ostep q (q\<lparr>q_running := q_running q - {i}, q_dead := i # q_dead q,
                q_status := (q_status q)(i \<mapsto> kDead)\<rparr>)"
| o_ack:
    "i \<in> q_running q \<Longrightarrow>
     ostep q (q\<lparr>q_running := q_running q - {i}, q_done := insert i (q_done q),
                q_status := (q_status q)(i \<mapsto> kSucceeded)\<rparr>)"
| o_retry_dead:
    "i \<in> set (q_dead q) \<Longrightarrow>
     ostep q (q\<lparr>q_pending := i # q_pending q, q_dead := remove1 i (q_dead q),
                q_status := (q_status q)(i \<mapsto> kPending)\<rparr>)"

lemma ostep_qstep: "ostep q q' \<Longrightarrow> qstep q q'"
  by (induction rule: ostep.induct) (blast intro: qstep.intros)+

definition copies :: "queue \<Rightarrow> string \<Rightarrow> nat" where
  "copies q i =
     count (mset (q_pending q)) i + count (q_delayed q) i + (if i \<in> q_running q then 1 else 0) +
     count (mset (q_dead q)) i"

text \<open>
  \<open>coherent\<close>: every task is in at most one place, and the status table says which one.
\<close>

definition coherent_id :: "queue \<Rightarrow> string \<Rightarrow> bool" where
  "coherent_id q i \<longleftrightarrow>
     (case q_status q i of
        None \<Rightarrow> copies q i = 0
      | Some kPending \<Rightarrow>
          copies q i = 1 \<and> (i \<in> set (q_pending q) \<or> i \<in># q_delayed q)
      | Some kRunning \<Rightarrow> copies q i = 1 \<and> i \<in> q_running q
      | Some kRetrying \<Rightarrow> copies q i = 1 \<and> i \<in># q_delayed q
      | Some kDead \<Rightarrow> copies q i = 1 \<and> i \<in> set (q_dead q)
      | Some kSucceeded \<Rightarrow> copies q i = 0 \<and> i \<in> q_done q
      | Some kFailed \<Rightarrow> False)"

definition coherent :: "queue \<Rightarrow> bool" where
  "coherent q \<longleftrightarrow> (\<forall>i. coherent_id q i)"

lemma coherent_empty: "coherent empty_queue"
  by (simp add: coherent_def coherent_id_def copies_def empty_queue_def)

lemma coherent_cases:
  assumes "coherent_id q i"
  shows "copies q i \<le> 1"
    and "copies q i = 1 \<Longrightarrow> i \<in> set (q_pending q) \<or> i \<in># q_delayed q \<or> i \<in> q_running q \<or> i \<in> set (q_dead q)"
  using assms by (auto simp: coherent_id_def split: option.splits TaskStatus.splits)

lemma copies_ge:
  "i \<in> set (q_pending q) \<Longrightarrow> 1 \<le> copies q i" "i \<in># q_delayed q \<Longrightarrow> 1 \<le> copies q i"
  "i \<in> q_running q \<Longrightarrow> 1 \<le> copies q i" "i \<in> set (q_dead q) \<Longrightarrow> 1 \<le> copies q i"
proof -
  have "x \<in># m \<Longrightarrow> 1 \<le> count m x" for x :: string and m by (simp add: Suc_le_eq)
  then show "i \<in> set (q_pending q) \<Longrightarrow> 1 \<le> copies q i" "i \<in># q_delayed q \<Longrightarrow> 1 \<le> copies q i"
    "i \<in> q_running q \<Longrightarrow> 1 \<le> copies q i" "i \<in> set (q_dead q) \<Longrightarrow> 1 \<le> copies q i"
    unfolding copies_def by (metis add.commute set_mset_mset trans_le_add1 trans_le_add2 order_refl)+
qed

text \<open>A step that acts on one identifier leaves the others as they are.\<close>

definition same_at :: "queue \<Rightarrow> queue \<Rightarrow> string \<Rightarrow> bool" where
  "same_at q q' j \<longleftrightarrow>
     q_status q' j = q_status q j \<and> count (mset (q_pending q')) j = count (mset (q_pending q)) j \<and>
     count (q_delayed q') j = count (q_delayed q) j \<and> (j \<in> q_running q' \<longleftrightarrow> j \<in> q_running q) \<and>
     count (mset (q_dead q')) j = count (mset (q_dead q)) j \<and> (j \<in> q_done q' \<longleftrightarrow> j \<in> q_done q)"

lemma coherent_id_same: "same_at q q' j \<Longrightarrow> coherent_id q j \<Longrightarrow> coherent_id q' j"
proof -
  assume s: "same_at q q' j" and c: "coherent_id q j"
  have "copies q' j = copies q j" "q_status q' j = q_status q j" "j \<in> q_done q' \<longleftrightarrow> j \<in> q_done q"
    using s by (simp_all add: same_at_def copies_def)
  moreover have "j \<in> set (q_pending q') \<longleftrightarrow> j \<in> set (q_pending q)" "j \<in># q_delayed q' \<longleftrightarrow> j \<in># q_delayed q"
    "j \<in> q_running q' \<longleftrightarrow> j \<in> q_running q" "j \<in> set (q_dead q') \<longleftrightarrow> j \<in> set (q_dead q)"
    using s unfolding same_at_def
    by (metis count_greater_zero_iff set_mset_mset)+
  ultimately show ?thesis using c unfolding coherent_id_def by (simp split: option.splits TaskStatus.splits)
qed

lemma coherentI:
  assumes "coherent q" and "\<And>j. j \<noteq> i \<Longrightarrow> same_at q q' j" and "coherent_id q' i"
  shows "coherent q'"
  unfolding coherent_def
proof
  fix j show "coherent_id q' j"
    using assms coherent_id_same [of q q' j] by (cases "j = i") (auto simp: coherent_def)
qed

lemma same_at_simps [simp]:
  "j \<noteq> i \<Longrightarrow> count (mset (remove1 i xs)) j = count (mset xs) j"
  by (simp add: in_diff_count)

lemma count_pos: "x \<in># m \<Longrightarrow> count m x \<le> 1 \<Longrightarrow> count m x = 1"
  by (meson count_greater_eq_one_iff le_antisym)

lemma copies_le:
  assumes "coherent q"
  shows "count (mset (q_pending q)) i + count (q_delayed q) i + (if i \<in> q_running q then 1 else 0) +
    count (mset (q_dead q)) i \<le> 1"
  using assms coherent_cases(1) [of q i] by (simp add: coherent_def copies_def)

lemmas coherent_step = same_at_def coherent_id_def copies_def

text \<open>A step that changes what is known of \<open>i\<close> only, in a queue that holds at most one copy of it.\<close>

lemma coherent_stepI:
  assumes "coherent q"
    and "count (mset (q_pending q)) i + count (q_delayed q) i + (if i \<in> q_running q then 1 else 0) +
      count (mset (q_dead q)) i \<le> 1 \<Longrightarrow> coherent_id q' i"
    and "\<And>j. j \<noteq> i \<Longrightarrow> same_at q q' j"
  shows "coherent q'"
  using coherentI [OF assms(1,3)] assms(2) copies_le [OF assms(1), of i] by blast

lemma ostep_coherent: "ostep q q' \<Longrightarrow> coherent q \<Longrightarrow> coherent q'"
proof (induction rule: ostep.induct)
  case (o_enqueue q i)
  then have "copies q i = 0" by (auto simp: coherent_def coherent_id_def dest: spec [of _ i])
  then show ?case by (intro coherent_stepI [OF o_enqueue(2), of i]) (simp_all add: coherent_step)
next
  case (o_enqueue_later q i)
  then have "copies q i = 0" by (auto simp: coherent_def coherent_id_def dest: spec [of _ i])
  then show ?case by (intro coherent_stepI [OF o_enqueue_later(2), of i]) (simp_all add: coherent_step)
next
  case (o_promote i q)
  have "count (q_delayed q) i = 1"
    using count_pos [OF o_promote(1)] copies_le [OF o_promote(2), of i] by linarith
  then show ?case
    by (intro coherent_stepI [OF o_promote(2), of i]) (simp_all add: coherent_step split: if_splits)
next
  case (o_retry_dead i q)
  have "count (mset (q_dead q)) i = 1"
    using count_pos [of i "mset (q_dead q)"] o_retry_dead(1) copies_le [OF o_retry_dead(2), of i]
    by simp
  then show ?case
    by (intro coherent_stepI [OF o_retry_dead(2), of i]) (simp_all add: coherent_step split: if_splits)
qed (erule coherent_stepI; simp add: coherent_step split: if_splits)+

lemma osteps_coherent: "ostep\<^sup>*\<^sup>* q q' \<Longrightarrow> coherent q \<Longrightarrow> coherent q'"
  by (induction rule: rtranclp_induct) (auto dest: ostep_coherent)

end
