(* ===== verification/Queue_Refine.thy ===== *)
theory Queue_Refine
  imports Script_Sim Queue_Spec
begin

text \<open>
  The requests the broker sends, executed on the keyspace, implement the abstract queue: texts
  are abstracted to the identifiers they carry (\<open>abs_queue\<close>), and every request does to the
  abstract queue what the operation of that request does (\<open>exec_implements\<close>, \<open>events_refine\<close>).
\<close>

section \<open>Task texts\<close>

text \<open>A table the encoder accepts, carrying the identifier \<open>i\<close>.\<close>

definition task_table :: "string \<Rightarrow> lua \<Rightarrow> bool" where
  "task_table i v \<longleftrightarrow> is_table v \<and> encodable v \<and> lget v ''id'' = LStr i"

definition good_text :: "text_ops \<Rightarrow> string \<Rightarrow> string \<Rightarrow> bool" where
  "good_text T i t \<longleftrightarrow> (case cj_decode T t of Some v \<Rightarrow> task_table i v | None \<Rightarrow> False)"

definition text_id :: "text_ops \<Rightarrow> string \<Rightarrow> string" where
  "text_id T t =
     (case cj_decode T t of
        Some v \<Rightarrow> (case lget v ''id'' of LStr i \<Rightarrow> i | _ \<Rightarrow> '''')
      | None \<Rightarrow> '''')"

lemma good_text_id: "good_text T i t \<Longrightarrow> text_id T t = i"
  by (auto simp: good_text_def text_id_def task_table_def split: option.splits)

lemma good_textE:
  assumes "good_text T i t"
  obtains v where "cj_decode T t = Some v" "task_table i v"
  using assms by (auto simp: good_text_def split: option.splits)

lemma task_tableD:
  "task_table i v \<Longrightarrow> is_table v" "task_table i v \<Longrightarrow> truthy (lget v ''id'')"
  "task_table i v \<Longrightarrow> lget v ''id'' = LStr i"
  by (simp_all add: task_table_def)

definition scalar :: "lua \<Rightarrow> bool" where
  "scalar x \<longleftrightarrow> x = LNil \<or> (\<exists>s. x = LStr s) \<or> (\<exists>q. x = LNum (DFin q) \<and> rnd q = DFin q)"

lemma scalar_simps [simp]: "scalar LNil" "scalar (LStr s)" "scalar (LNum (DFin 0))"
  by (simp_all add: scalar_def rnd_def)

lemma scalar_time: "in_i64 n \<Longrightarrow> scalar (LNum (double_of_int n))"
  using rnd_int64_idem [of n] by (auto simp: scalar_def double_of_int_def in_i64_def)

text \<open>Assigning a scalar to another field keeps the table a task table.\<close>

lemma task_table_lset:
  assumes "task_table i v" and "k \<noteq> ''id''" and "scalar x"
  shows "task_table i (lset k x v)"
proof -
  obtain fs xs where v: "v = LTable fs xs" using assms(1) by (cases v) (auto simp: task_table_def)
  have all: "lua_all (\<lambda>_. True) v" and dep: "lua_depth v \<le> 1000"
    using assms(1) by (auto simp: task_table_def encodable_def)
  have "fs \<noteq> []" using assms(1) by (auto simp: task_table_def v lget_def)
  with all have [simp]: "xs = []" by (auto simp: v)
  have x: "x = LNil \<or> lua_all (\<lambda>_. True) x" "lua_depth x \<le> 999"
    using assms(3) by (auto simp: scalar_def)
  have "encodable (lset k x v)"
    using lua_all_lset [OF _ x(1), of fs k] lua_depth_lset [OF _ x(2), of fs xs k] all dep
    by (simp add: encodable_def v del: lset.simps)
  moreover have "lget (lset k x v) ''id'' = LStr i"
    using lget_lset [OF all] assms(1,2) by (simp add: task_table_def)
  ultimately show ?thesis using assms(1) by (simp add: task_table_def)
qed

text \<open>The texts the scripts write, as functions of the text they read.\<close>

definition running_table :: "int \<Rightarrow> lua \<Rightarrow> lua" where
  "running_table now v =
     lset ''reserved_at_ms'' (LNum (double_of_int now)) (lset ''status'' (LStr ''running'') v)"

definition promoted_table :: "lua \<Rightarrow> lua" where
  "promoted_table v = lset ''status'' (LStr ''pending'') (lset ''run_at_ms'' LNil v)"

definition reclaimed_table :: "lua \<Rightarrow> lua" where
  "reclaimed_table v = lset ''reserved_at_ms'' LNil (lset ''status'' (LStr ''pending'') v)"

definition dead_table :: "string \<Rightarrow> lua \<Rightarrow> lua" where
  "dead_table reason v = lset ''last_error'' (LStr reason) (lset ''status'' (LStr ''dead'') v)"

definition revived_table :: "lua \<Rightarrow> lua" where
  "revived_table v =
     lset ''reserved_at_ms'' LNil (lset ''run_at_ms'' LNil (lset ''last_error'' LNil
       (lset ''retry_count'' (LNum (DFin 0)) (lset ''status'' (LStr ''pending'') v))))"

lemmas table_defs =
  running_table_def promoted_table_def reclaimed_table_def dead_table_def revived_table_def

lemma task_tables:
  "task_table i v \<Longrightarrow> in_i64 now \<Longrightarrow> task_table i (running_table now v)"
  "task_table i v \<Longrightarrow> task_table i (promoted_table v)"
  "task_table i v \<Longrightarrow> task_table i (reclaimed_table v)"
  "task_table i v \<Longrightarrow> task_table i (dead_table reason v)"
  "task_table i v \<Longrightarrow> task_table i (revived_table v)"
  by (simp_all add: table_defs task_table_lset scalar_time)

definition recode :: "text_ops \<Rightarrow> (lua \<Rightarrow> lua) \<Rightarrow> string \<Rightarrow> string" where
  "recode T f t = the (cj_encode T (f (the (cj_decode T t))))"

section \<open>The abstraction\<close>

definition abs_queue :: "text_ops \<Rightarrow> redis_db \<Rightarrow> queue" where
  "abs_queue T db =
     \<lparr>q_pending = map (text_id T) (list_at db redis_kPending),
      q_delayed = image_mset (\<lambda>p. text_id T (fst p)) (mset (zset_at db redis_kDelayed)),
      q_running = fst ` set (hash_at db redis_kRunning),
      q_dead = map (text_id T) (list_at db redis_kDead),
      q_status = (\<lambda>i. map_option (\<lambda>s. pr_value (TaskStatusFromString s))
                        (map_of (hash_at db redis_kStatus) i)),
      q_done = fst ` set (hash_at db redis_kResults)\<rparr>"

definition sound_text :: "text_ops \<Rightarrow> string \<Rightarrow> bool" where
  "sound_text T t \<longleftrightarrow> good_text T (text_id T t) t"

definition filed :: "text_ops \<Rightarrow> (string \<times> string) list \<Rightarrow> bool" where
  "filed T h \<longleftrightarrow> (\<forall>(i, t) \<in> set h. good_text T i t) \<and> distinct (map fst h)"

text \<open>Every stored text is a task text; a running task is filed under its identifier.\<close>

definition wf_db :: "text_ops \<Rightarrow> redis_db \<Rightarrow> bool" where
  "wf_db T db \<longleftrightarrow>
     (\<forall>t \<in> set (list_at db redis_kPending). sound_text T t) \<and>
     (\<forall>t \<in> set (list_at db redis_kDead). sound_text T t) \<and>
     (\<forall>p \<in> set (zset_at db redis_kDelayed). sound_text T (fst p)) \<and>
     distinct (map fst (zset_at db redis_kDelayed)) \<and>
     sorted (map (\<lambda>(m, sc). (sc, m)) (zset_at db redis_kDelayed)) \<and>
     filed T (hash_at db redis_kRunning)"

lemma good_sound: "good_text T i t \<Longrightarrow> sound_text T t"
  using good_text_id [of T i t] by (simp add: sound_text_def)

lemma wf_empty: "wf_db T empty_db" "abs_queue T empty_db = empty_queue"
  by (simp_all add: wf_db_def filed_def abs_queue_def empty_queue_def)

section \<open>Requests\<close>

text \<open>
  One request is one message to the server, executed atomically there: a transaction of
  \<open>Enqueue\<close>, a script call, or a single command that does not touch the queues (metrics,
  heartbeats, reads).
\<close>

datatype request =
    Push string string
  | Schedule string string int
  | RunReserve int
  | RunPromoteOne int
  | RunReclaimOne string int int
  | RunRetry string string int string
  | RunFail string string
  | RunAck string string
  | RunRetryDeadTask string
  | Side redis_cmd

definition push_cmds :: "string \<Rightarrow> string \<Rightarrow> redis_cmd list" where
  "push_cmds i t = [LPUSH redis_kPending t, HSET redis_kStatus i (TaskStatusToString kPending)]"

definition schedule_cmds :: "string \<Rightarrow> string \<Rightarrow> int \<Rightarrow> redis_cmd list" where
  "schedule_cmds i t run_at =
     [ZADD redis_kDelayed (score_of run_at) t, HSET redis_kStatus i (TaskStatusToString kPending)]"

fun exec :: "text_ops \<Rightarrow> request \<Rightarrow> redis_db \<Rightarrow> redis_db" where
  "exec T (Push i t) db = snd (run_cmds db_redis (push_cmds i t) db)"
| "exec T (Schedule i t run_at) db = snd (run_cmds db_redis (schedule_cmds i t run_at) db)"
| "exec T (RunReserve now) db =
     snd (kReserveScript (dbx T) redis_kPending redis_kRunning redis_kStatus now db)"
| "exec T (RunPromoteOne now) db =
     snd (kPromoteOneScript (dbx T) redis_kDelayed redis_kPending redis_kStatus now
       (TaskStatusToString kPending) db)"
| "exec T (RunReclaimOne i now timeout) db =
     snd (kReclaimOneScript (dbx T) redis_kRunning redis_kPending redis_kStatus i now timeout db)"
| "exec T (RunRetry i t run_at reason) db =
     snd (kRetryScript (dbx T) redis_kRunning redis_kDelayed redis_kStatus redis_kFailures
       i t run_at reason (TaskStatusToString kRetrying) db)"
| "exec T (RunFail i reason) db =
     snd (kFailScript (dbx T) redis_kRunning redis_kDead redis_kFailures redis_kStatus
       i reason (TaskStatusToString kDead) db)"
| "exec T (RunAck i result) db =
     snd (kAckScript (dbx T) redis_kRunning redis_kStatus redis_kResults redis_kFailures
       i result (TaskStatusToString kSucceeded) db)"
| "exec T (RunRetryDeadTask i) db =
     snd (kRetryDeadTaskScript (dbx T) redis_kDead redis_kPending redis_kStatus redis_kFailures i db)"
| "exec T (Side c) db = snd (run_cmd db_redis c db)"

definition side_key :: "string \<Rightarrow> bool" where
  "side_key k \<longleftrightarrow> k = redis_kMetrics \<or> take (length redis_kWorkersPrefix) k = redis_kWorkersPrefix"

fun side_cmd :: "redis_cmd \<Rightarrow> bool" where
  "side_cmd (HSET k _ _) = side_key k"
| "side_cmd (HINCRBY k _ _) = side_key k"
| "side_cmd (EXPIRE k _) = side_key k"
| "side_cmd (HDEL k _) = side_key k"
| "side_cmd (RPOP k) = False"
| "side_cmd (LPUSH k _) = False"
| "side_cmd (LREM_one k _) = False"
| "side_cmd (ZADD k _ _) = False"
| "side_cmd (ZREM k _) = False"
| "side_cmd _ = True"

fun valid_request :: "text_ops \<Rightarrow> request \<Rightarrow> bool" where
  "valid_request T (Push i t) = good_text T i t"
| "valid_request T (Schedule i t run_at) = good_text T i t"
| "valid_request T (RunRetry i t run_at reason) = good_text T i t"
| "valid_request T (RunReserve now) = in_i64 now"
| "valid_request T (Side c) = side_cmd c"
| "valid_request T _ = True"

text \<open>Besides the requests of all clients, the server expires heartbeats.\<close>

inductive server_step :: "text_ops \<Rightarrow> redis_db \<Rightarrow> redis_db \<Rightarrow> bool" for T where
  step_request: "valid_request T r \<Longrightarrow> server_step T db (exec T r db)"
| step_expire: "server_step T db (put_hash (WorkerKey w) [] db)"

text \<open>The same events as data: a request of some client, or the expiry of a heartbeat.\<close>

datatype server_event = Request request | Expiry string

fun happen :: "text_ops \<Rightarrow> server_event \<Rightarrow> redis_db \<Rightarrow> redis_db" where
  "happen T (Request r) db = exec T r db"
| "happen T (Expiry w) db = put_hash (WorkerKey w) [] db"

fun valid_event :: "text_ops \<Rightarrow> server_event \<Rightarrow> bool" where
  "valid_event T (Request r) = valid_request T r"
| "valid_event T (Expiry w) = True"

section \<open>The scripts on the keyspace\<close>

text \<open>When the visibility timeout of a running task has passed.\<close>

definition reserved_at :: "text_ops \<Rightarrow> lua \<Rightarrow> double option" where
  "reserved_at T v =
     (case lget v ''reserved_at_ms'' of LNum d \<Rightarrow> Some d | LStr s \<Rightarrow> text_num T s | _ \<Rightarrow> None)"

definition is_stale :: "text_ops \<Rightarrow> int \<Rightarrow> int \<Rightarrow> string \<Rightarrow> bool" where
  "is_stale T now timeout t \<longleftrightarrow>
     (case cj_decode T t of
        None \<Rightarrow> False
      | Some v \<Rightarrow>
          (case reserved_at T v of
             Some d \<Rightarrow> \<not> dle (dsub (double_of_int now) d) (double_of_int timeout)
           | None \<Rightarrow> False))"

text \<open>
  The operation of the abstract queue that a request is. The request alone says which one, but
  for the scheduling decisions, which depend on the times in the keyspace: promotion takes the
  first delayed text that is due, if there is one, and reclaiming \<open>i\<close> takes place if \<open>i\<close> is
  running and its visibility timeout has passed.
\<close>

fun qop_of :: "text_ops \<Rightarrow> redis_db \<Rightarrow> request \<Rightarrow> qop" where
  "qop_of T db (Push i t) = QEnqueue i"
| "qop_of T db (Schedule i t run_at) =
     (if t \<in> fst ` set (zset_at db redis_kDelayed) then QDelayAgain i else QDelay i)"
| "qop_of T db (RunReserve now) = QReserve"
| "qop_of T db (RunPromoteOne now) =
     (case filter (\<lambda>p. snd p \<le> score_of now) (zset_at db redis_kDelayed) of
        [] \<Rightarrow> QIdle
      | p # _ \<Rightarrow> QPromote (text_id T (fst p)))"
| "qop_of T db (RunReclaimOne i now timeout) =
     (case map_of (hash_at db redis_kRunning) i of
        Some t \<Rightarrow> if is_stale T now timeout t then QReclaim i else QIdle
      | None \<Rightarrow> QIdle)"
| "qop_of T db (RunRetry i t run_at reason) =
     (if t \<in> fst ` set (zset_at db redis_kDelayed) then QRetryAgain i else QRetry i)"
| "qop_of T db (RunFail i reason) = QFail i"
| "qop_of T db (RunAck i result) = QAck i"
| "qop_of T db (RunRetryDeadTask i) = QRevive i"
| "qop_of T db (Side c) = QIdle"

fun qop_event :: "text_ops \<Rightarrow> redis_db \<Rightarrow> server_event \<Rightarrow> qop" where
  "qop_event T db (Request r) = qop_of T db r"
| "qop_event T db (Expiry w) = QIdle"

fun qops :: "text_ops \<Rightarrow> redis_db \<Rightarrow> server_event list \<Rightarrow> qop list" where
  "qops T db [] = []"
| "qops T db (e # es) = qop_event T db e # qops T (happen T e db) es"

lemmas on_db =
  redis_call_db bind_io_def then_io_def ret_def throw_def cjson_encode_def Let_def

context wire_text
begin

lemma encode_task:
  assumes "task_table i v"
  shows "\<exists>t. cj_encode T v = Some t \<and> good_text T i t"
  using encode_fields [of v] assms by (auto simp: task_table_def good_text_def)

lemma recode_good:
  assumes "good_text T i t" and "\<And>v. task_table i v \<Longrightarrow> task_table i (f v)" and "cj_decode T t = Some v"
  shows "cj_encode T (f v) = Some (recode T f t)" and "good_text T i (recode T f t)"
  using encode_task [of i "f v"] assms by (auto simp: recode_def good_text_def)

lemma reserve_db:
  assumes "list_at db redis_kPending = p @ [t]" and "good_text T i t" and "in_i64 now"
  shows "kReserveScript (dbx T) redis_kPending redis_kRunning redis_kStatus now db =
    (Inr (RBulk (recode T (running_table now) t)),
     put_hash redis_kStatus (AList.update i ''running'' (hash_at db redis_kStatus))
       (put_hash redis_kRunning
          (AList.update i (recode T (running_table now) t) (hash_at db redis_kRunning))
          (put_list redis_kPending p db)))"
proof -
  obtain v where v: "cj_decode T t = Some v" "task_table i v" using good_textE [OF assms(2)] .
  note enc = recode_good(1) [OF assms(2) _ v(1), of "running_table now", OF task_tables(1) [OF _ assms(3)]]
  have tab: "task_table i (running_table now v)" by (rule task_tables(1) [OF v(2) assms(3)])
  show ?thesis
    using assms(1) v enc task_tableD [OF v(2)] task_tableD(3) [OF tab]
    by (simp add: kReserveScript_def on_db running_table_def key_simps)
qed

lemma reserve_db_empty:
  "list_at db redis_kPending = [] \<Longrightarrow>
   kReserveScript (dbx T) redis_kPending redis_kRunning redis_kStatus now db = (Inr RNil, db)"
  by (simp add: kReserveScript_def on_db)

lemma promote_db:
  assumes "filter (\<lambda>p. snd p \<le> score_of now) (zset_at db redis_kDelayed) = (t, sc) # rest"
    and "good_text T i t"
  shows "kPromoteOneScript (dbx T) redis_kDelayed redis_kPending redis_kStatus now st db =
    (Inr (RInt 1),
     put_hash redis_kStatus (AList.update i st (hash_at db redis_kStatus))
       (put_list redis_kPending (recode T promoted_table t # list_at db redis_kPending)
          (put_zset redis_kDelayed (filter (\<lambda>p. fst p \<noteq> t) (zset_at db redis_kDelayed)) db)))"
proof -
  obtain v where v: "cj_decode T t = Some v" "task_table i v" using good_textE [OF assms(2)] .
  note enc = recode_good(1) [OF assms(2) _ v(1), of promoted_table, OF task_tables(2)]
  have tab: "task_table i (promoted_table v)" by (rule task_tables(2) [OF v(2)])
  have "(t, sc) \<in> set (zset_at db redis_kDelayed)"
    using arg_cong [OF assms(1), of set] by auto
  then have "map_of (zset_at db redis_kDelayed) t \<noteq> None" by (metis weak_map_of_SomeI option.discI)
  then show ?thesis
    using assms(1) v enc task_tableD [OF v(2)] task_tableD(3) [OF tab]
    by (simp add: kPromoteOneScript_def on_db promoted_table_def key_simps)
qed

lemma promote_db_none:
  "filter (\<lambda>p. snd p \<le> score_of now) (zset_at db redis_kDelayed) = [] \<Longrightarrow>
   kPromoteOneScript (dbx T) redis_kDelayed redis_kPending redis_kStatus now st db = (Inr (RInt 0), db)"
  by (simp add: kPromoteOneScript_def on_db)


lemma reclaim_db_stale:
  assumes "map_of (hash_at db redis_kRunning) i = Some t" and "good_text T i t"
    and "is_stale T now timeout t"
  shows "kReclaimOneScript (dbx T) redis_kRunning redis_kPending redis_kStatus i now timeout db =
    (Inr (RInt 1),
     put_hash redis_kStatus (AList.update i ''pending'' (hash_at db redis_kStatus))
       (put_list redis_kPending (recode T reclaimed_table t # list_at db redis_kPending)
          (put_hash redis_kRunning (AList.delete i (hash_at db redis_kRunning)) db)))"
proof -
  obtain v where v: "cj_decode T t = Some v" "task_table i v" using good_textE [OF assms(2)] .
  note enc = recode_good(1) [OF assms(2) _ v(1), of reclaimed_table, OF task_tables(3)]
  obtain d where d: "reserved_at T v = Some d"
    "\<not> dle (dsub (double_of_int now) d) (double_of_int timeout)"
    using assms(3) v(1) by (auto simp: is_stale_def split: option.splits)
  have "truthy (lget v ''reserved_at_ms'')" and "tonumber (dbx T) (lget v ''reserved_at_ms'') = ret d"
    using d(1) by (auto simp: reserved_at_def split: lua.splits)
  then show ?thesis
    using assms(1) v enc d(2) task_tableD [OF v(2)]
    by (simp add: kReclaimOneScript_def on_db reclaimed_table_def key_simps)
qed

lemma reclaim_db_other:
  assumes "\<And>t. map_of (hash_at db redis_kRunning) i = Some t \<Longrightarrow> \<not> is_stale T now timeout t"
  shows "snd (kReclaimOneScript (dbx T) redis_kRunning redis_kPending redis_kStatus i now timeout db) = db"
proof (cases "map_of (hash_at db redis_kRunning) i")
  case None
  then show ?thesis by (simp add: kReclaimOneScript_def on_db)
next
  case (Some t)
  show ?thesis
    using Some assms [OF Some]
    by (cases "cj_decode T t"; cases "lget (the (cj_decode T t)) ''reserved_at_ms''")
      (auto simp: kReclaimOneScript_def on_db is_stale_def reserved_at_def split: option.splits)
qed

lemma retry_db:
  "kRetryScript (dbx T) redis_kRunning redis_kDelayed redis_kStatus redis_kFailures i t run_at reason st db =
    (Inr (RInt 1),
     put_hash redis_kFailures (AList.update i reason (hash_at db redis_kFailures))
       (put_hash redis_kStatus (AList.update i st (hash_at db redis_kStatus))
          (put_zset redis_kDelayed (zset_insert t (score_of run_at) (zset_at db redis_kDelayed))
             (put_hash redis_kRunning (AList.delete i (hash_at db redis_kRunning)) db))))"
  by (simp add: kRetryScript_def on_db key_simps)

lemma fail_db:
  assumes "map_of (hash_at db redis_kRunning) i = Some t" and "good_text T i t"
  shows "kFailScript (dbx T) redis_kRunning redis_kDead redis_kFailures redis_kStatus i reason st db =
    (Inr (RInt 1),
     put_hash redis_kStatus (AList.update i st (hash_at db redis_kStatus))
       (put_hash redis_kFailures (AList.update i reason (hash_at db redis_kFailures))
          (put_list redis_kDead (recode T (dead_table reason) t # list_at db redis_kDead)
             (put_hash redis_kRunning (AList.delete i (hash_at db redis_kRunning)) db))))"
proof -
  obtain v where v: "cj_decode T t = Some v" "task_table i v" using good_textE [OF assms(2)] .
  note enc = recode_good(1) [OF assms(2) _ v(1), of "dead_table reason", OF task_tables(4)]
  show ?thesis
    using assms(1) v enc task_tableD [OF v(2)]
    by (simp add: kFailScript_def on_db dead_table_def key_simps)
qed

lemma fail_db_absent:
  assumes "map_of (hash_at db redis_kRunning) i = None"
  shows "kFailScript (dbx T) redis_kRunning redis_kDead redis_kFailures redis_kStatus i reason st db =
    (Inr (RInt 1),
     put_hash redis_kStatus (AList.update i st (hash_at db redis_kStatus))
       (put_hash redis_kFailures (AList.update i reason (hash_at db redis_kFailures))
          (put_hash redis_kRunning (AList.delete i (hash_at db redis_kRunning)) db)))"
  using assms by (simp add: kFailScript_def on_db key_simps)

lemma ack_db:
  "kAckScript (dbx T) redis_kRunning redis_kStatus redis_kResults redis_kFailures i result st db =
    (Inr (RInt 1),
     put_hash redis_kFailures (AList.delete i (hash_at db redis_kFailures))
       (put_hash redis_kResults (AList.update i result (hash_at db redis_kResults))
          (put_hash redis_kStatus (AList.update i st (hash_at db redis_kStatus))
             (put_hash redis_kRunning (AList.delete i (hash_at db redis_kRunning)) db))))"
  by (simp add: kAckScript_def on_db key_simps)

text \<open>The dead task that is revived is the first one in the list that carries the identifier.\<close>

lemma retry_dead_loop_db:
  assumes "list_at db redis_kDead = us @ ts"
    and "\<forall>t \<in> set ts. sound_text T t" and "\<forall>t \<in> set us. text_id T t \<noteq> i"
  shows "retry_dead_loop (dbx T) redis_kDead redis_kPending redis_kStatus redis_kFailures i ts db =
    (case find (\<lambda>t. text_id T t = i) ts of
       None \<Rightarrow> (Inr (RInt 0), db)
     | Some t \<Rightarrow>
         (Inr (RInt 1),
          put_hash redis_kFailures (AList.delete i (hash_at db redis_kFailures))
            (put_hash redis_kStatus (AList.update i ''pending'' (hash_at db redis_kStatus))
               (put_list redis_kPending (recode T revived_table t # list_at db redis_kPending)
                  (put_list redis_kDead (remove1 t (list_at db redis_kDead)) db)))))"
  using assms
proof (induction ts arbitrary: us)
  case Nil
  then show ?case by (simp add: ret_def)
next
  case (Cons t ts)
  have good: "good_text T (text_id T t) t" using Cons.prems(2) by (simp add: sound_text_def)
  obtain v where v: "cj_decode T t = Some v" "task_table (text_id T t) v" using good_textE [OF good] .
  show ?case
  proof (cases "text_id T t = i")
    case True
    note enc = recode_good(1) [OF good _ v(1), of revived_table, OF task_tables(5)]
    show ?thesis
      using True v enc task_tableD [OF v(2)] Cons.prems(1)
      by (simp add: on_db revived_table_def key_simps)
  next
    case False
    then show ?thesis
      using v task_tableD [OF v(2)] Cons.IH [of "us @ [t]"] Cons.prems by simp
  qed
qed

lemma retry_dead_db:
  assumes "\<forall>t \<in> set (list_at db redis_kDead). sound_text T t"
  shows "kRetryDeadTaskScript (dbx T) redis_kDead redis_kPending redis_kStatus redis_kFailures i db =
    (case find (\<lambda>t. text_id T t = i) (list_at db redis_kDead) of
       None \<Rightarrow> (Inr (RInt 0), db)
     | Some t \<Rightarrow>
         (Inr (RInt 1),
          put_hash redis_kFailures (AList.delete i (hash_at db redis_kFailures))
            (put_hash redis_kStatus (AList.update i ''pending'' (hash_at db redis_kStatus))
               (put_list redis_kPending (recode T revived_table t # list_at db redis_kPending)
                  (put_list redis_kDead (remove1 t (list_at db redis_kDead)) db)))))"
  using retry_dead_loop_db [of db "[]" "list_at db redis_kDead" i] assms
  by (simp add: kRetryDeadTaskScript_def on_db)

end

section \<open>The requests refine the abstract steps\<close>

lemma fst_set_update: "fst ` set (AList.update i t h) = insert i (fst ` set h)"
  by (metis dom_map_of_conv_image_fst map_of_AList_update dom_fun_upd option.discI)

lemma fst_set_delete: "fst ` set (AList.delete i h) = fst ` set h - {i}"
  by (metis dom_map_of_conv_image_fst map_of_AList_delete dom_fun_upd)

lemma mset_zset_insert:
  "mset (zset_insert t sc z) = add_mset (t, sc) (mset (filter (\<lambda>p. fst p \<noteq> t) z))"
  by (simp add: zset_insert_def)

lemma mset_drop_key:
  "distinct (map fst z) \<Longrightarrow> (t, sc) \<in> set z \<Longrightarrow>
     mset z = add_mset (t, sc) (mset (filter (\<lambda>p. fst p \<noteq> t) z))"
proof (induction z)
  case Nil
  then show ?case by simp
next
  case (Cons p z)
  show ?case
  proof (cases "fst p = t")
    case True
    then have "p = (t, sc)" and "t \<notin> fst ` set z" using Cons.prems by (auto simp: rev_image_eqI)
    moreover from this have "filter (\<lambda>p. fst p \<noteq> t) z = z" by (force simp: filter_id_conv)
    ultimately show ?thesis by simp
  next
    case False
    then show ?thesis using Cons by auto
  qed
qed

lemma wf_zset_insert:
  assumes "distinct (map fst z)" and "sorted (map (\<lambda>(m, sc). (sc, m)) z)"
  shows "distinct (map fst (zset_insert t sc z))"
    and "sorted (map (\<lambda>(m, sc). (sc, m)) (zset_insert t sc z))"
proof -
  have "mset (map fst (zset_insert t sc z)) = mset (map fst ((t, sc) # filter (\<lambda>p. fst p \<noteq> t) z))"
    unfolding mset_map mset_zset_insert by simp
  moreover have "distinct (map fst ((t, sc) # filter (\<lambda>p. fst p \<noteq> t) z))"
    using assms(1) by (auto simp: distinct_map_filter)
  ultimately show "distinct (map fst (zset_insert t sc z))" by (metis mset_eq_imp_distinct_iff)
  show "sorted (map (\<lambda>(m, sc). (sc, m)) (zset_insert t sc z))"
    unfolding zset_insert_def sorted_insort_key using assms(2) by (rule sorted_filter)
qed

lemma delayed_ids_insert:
  assumes "distinct (map fst z)"
  shows "image_mset (\<lambda>p. f (fst p)) (mset (zset_insert t sc z)) =
    (if t \<in> fst ` set z then image_mset (\<lambda>p. f (fst p)) (mset z)
     else add_mset (f t) (image_mset (\<lambda>p. f (fst p)) (mset z)))"
proof (cases "t \<in> fst ` set z")
  case True
  then obtain sc0 where "(t, sc0) \<in> set z" by auto
  note arg_cong [OF mset_drop_key [OF assms this], of "image_mset (\<lambda>p. f (fst p))"]
  then have ids: "image_mset (\<lambda>p. f (fst p)) (mset z) =
    add_mset (f t) (image_mset (\<lambda>p. f (fst p)) (mset (filter (\<lambda>p. fst p \<noteq> t) z)))"
    by (simp only: image_mset_add_mset fst_conv)
  show ?thesis
    unfolding mset_zset_insert image_mset_add_mset fst_conv ids [symmetric] using True by simp
next
  case False
  then have "filter (\<lambda>p. fst p \<noteq> t) z = z" by (force simp: filter_id_conv)
  then show ?thesis using False by (simp add: mset_zset_insert)
qed

text \<open>The keyspace after a change to one of the five queues, abstractly and in form.\<close>

lemmas abs_simps = abs_queue_def key_simps fst_set_update fst_set_delete fun_eq_iff

lemma status_values [simp]:
  "pr_value (TaskStatusFromString ''pending'') = kPending"
  "pr_value (TaskStatusFromString ''running'') = kRunning"
  "pr_value (TaskStatusFromString ''succeeded'') = kSucceeded"
  "pr_value (TaskStatusFromString ''retrying'') = kRetrying"
  "pr_value (TaskStatusFromString ''dead'') = kDead"
  by (simp_all add: TaskStatusFromString_def)

lemma run_cmd_db:
  "run_cmd db_redis c db =
     (case redis_sem c db of (RErr e, db') \<Rightarrow> (Inl (RedisError e), db') | (r, db') \<Rightarrow> (Inr r, db'))"
  by (simp add: run_cmd_def db_redis_def)

lemma push_db:
  "run_cmds db_redis (push_cmds i t) db =
    (Inr (), put_hash redis_kStatus (AList.update i ''pending'' (hash_at db redis_kStatus))
       (put_list redis_kPending (t # list_at db redis_kPending) db))"
  by (simp add: push_cmds_def run_cmd_db on_db)

lemma schedule_db:
  "run_cmds db_redis (schedule_cmds i t run_at) db =
    (Inr (), put_hash redis_kStatus (AList.update i ''pending'' (hash_at db redis_kStatus))
       (put_zset redis_kDelayed (zset_insert t (score_of run_at) (zset_at db redis_kDelayed)) db))"
  by (simp add: schedule_cmds_def run_cmd_db on_db)

definition simulates :: "text_ops \<Rightarrow> redis_db \<Rightarrow> redis_db \<Rightarrow> bool" where
  "simulates T db db' \<longleftrightarrow>
     wf_db T db' \<and> (abs_queue T db' = abs_queue T db \<or> qstep (abs_queue T db) (abs_queue T db'))"

text \<open>The request does to the abstract queue what its operation does.\<close>

definition implements :: "text_ops \<Rightarrow> redis_db \<Rightarrow> request \<Rightarrow> bool" where
  "implements T db r \<longleftrightarrow>
     wf_db T (exec T r db) \<and> abs_queue T (exec T r db) = qapply (qop_of T db r) (abs_queue T db)"

lemma implementsI:
  "wf_db T (exec T r db) \<Longrightarrow> abs_queue T (exec T r db) = q' \<Longrightarrow>
   q' = qapply (qop_of T db r) (abs_queue T db) \<Longrightarrow> implements T db r"
  by (simp add: implements_def)

lemma implements_same:
  "wf_db T db \<Longrightarrow> exec T r db = db \<Longrightarrow> qapply (qop_of T db r) (abs_queue T db) = abs_queue T db \<Longrightarrow>
   implements T db r"
  by (simp add: implements_def)

lemma implements_simulates: "implements T db r \<Longrightarrow> simulates T db (exec T r db)"
  using qapply_qstep [of "qop_of T db r" "abs_queue T db"] by (auto simp: implements_def simulates_def)

lemma filed_update: "filed T h \<Longrightarrow> good_text T i t \<Longrightarrow> filed T (AList.update i t h)"
  using set_AList_update_subset [of i t h] by (auto simp: filed_def)

lemma filed_delete: "filed T h \<Longrightarrow> filed T (AList.delete j h)"
  using set_AList_delete_subset [of j h] by (auto simp: filed_def)

lemma filedD: "filed T h \<Longrightarrow> map_of h i = Some t \<Longrightarrow> good_text T i t"
  by (auto simp: filed_def dest: map_of_SomeD)

lemmas wf_simps = wf_db_def key_simps filed_update filed_delete good_sound

context wire_text
begin

lemma delayed_mem: "t \<in> fst ` set z \<Longrightarrow> f t \<in># image_mset (\<lambda>p. f (fst p)) (mset z)"
  by auto

lemma running_mem:
  "map_of h i = Some t \<Longrightarrow> i \<in> fst ` set h" "map_of h i = None \<Longrightarrow> i \<notin> fst ` set h"
  by (auto simp: map_of_eq_None_iff rev_image_eqI dest: map_of_SomeD)

lemma map_remove1_first:
  "find (\<lambda>x. f x = i) xs = Some t \<Longrightarrow> map f (remove1 t xs) = remove1 i (map f xs)"
  by (induction xs) (auto simp: find_Some_iff split: if_splits)

subsection \<open>The abstract effect of each request\<close>

lemma abs_Push:
  assumes "good_text T i t"
  shows "abs_queue T (exec T (Push i t) db) =
    (abs_queue T db)\<lparr>q_pending := i # q_pending (abs_queue T db),
      q_status := (q_status (abs_queue T db))(i \<mapsto> kPending)\<rparr>"
  using assms by (simp add: push_db abs_simps good_text_id)

lemma abs_Schedule:
  assumes "wf_db T db" and "good_text T i t"
  shows "abs_queue T (exec T (Schedule i t run_at) db) =
    (abs_queue T db)\<lparr>q_delayed :=
        (if t \<in> fst ` set (zset_at db redis_kDelayed) then q_delayed (abs_queue T db)
         else add_mset i (q_delayed (abs_queue T db))),
      q_status := (q_status (abs_queue T db))(i \<mapsto> kPending)\<rparr>"
proof -
  have dist: "distinct (map fst (zset_at db redis_kDelayed))" using assms(1) by (simp add: wf_db_def)
  show ?thesis
    using good_text_id [OF assms(2)] by (simp add: schedule_db abs_simps delayed_ids_insert [OF dist])
qed

lemma abs_RunReserve:
  assumes "list_at db redis_kPending = p @ [t]" and "good_text T i t" and "in_i64 now"
  shows "abs_queue T (exec T (RunReserve now) db) =
    (abs_queue T db)\<lparr>q_pending := map (text_id T) p,
      q_running := insert i (q_running (abs_queue T db)),
      q_status := (q_status (abs_queue T db))(i \<mapsto> kRunning)\<rparr>"
  by (simp add: reserve_db [OF assms] abs_simps)

lemma abs_RunPromoteOne:
  assumes "wf_db T db" and "filter (\<lambda>p. snd p \<le> score_of now) (zset_at db redis_kDelayed) = (t, sc) # rest"
    and "good_text T i t"
  shows "i \<in># q_delayed (abs_queue T db)"
    and "wf_db T (exec T (RunPromoteOne now) db)"
    and "abs_queue T (exec T (RunPromoteOne now) db) =
    (abs_queue T db)\<lparr>q_pending := i # q_pending (abs_queue T db),
      q_delayed := q_delayed (abs_queue T db) - {#i#},
      q_status := (q_status (abs_queue T db))(i \<mapsto> kPending)\<rparr>"
proof -
  have mem: "(t, sc) \<in> set (zset_at db redis_kDelayed)" using arg_cong [OF assms(2), of set] by auto
  obtain v where v: "cj_decode T t = Some v" "task_table i v" using good_textE [OF assms(3)] .
  note new = recode_good(2) [OF assms(3) _ v(1), of promoted_table, OF task_tables(2)]
  have dist: "distinct (map fst (zset_at db redis_kDelayed))" using assms(1) by (simp add: wf_db_def)
  have ids: "image_mset (\<lambda>p. text_id T (fst p)) (mset (zset_at db redis_kDelayed)) =
    add_mset i (image_mset (\<lambda>p. text_id T (fst p))
      (mset (filter (\<lambda>p. fst p \<noteq> t) (zset_at db redis_kDelayed))))"
    using arg_cong [OF mset_drop_key [OF dist mem], of "image_mset (\<lambda>p. text_id T (fst p))"]
      good_text_id [OF assms(3)]
    by (simp only: image_mset_add_mset fst_conv)
  note db' = promote_db [OF assms(2,3)]
  show "i \<in># q_delayed (abs_queue T db)" using ids by (simp add: abs_queue_def)
  show "wf_db T (exec T (RunPromoteOne now) db)"
    using assms(1) new by (simp add: db' wf_simps distinct_map_filter sorted_filter)
  show "abs_queue T (exec T (RunPromoteOne now) db) =
    (abs_queue T db)\<lparr>q_pending := i # q_pending (abs_queue T db),
      q_delayed := q_delayed (abs_queue T db) - {#i#},
      q_status := (q_status (abs_queue T db))(i \<mapsto> kPending)\<rparr>"
    using good_text_id [OF new] ids by (simp add: db' abs_simps del: mset_filter)
qed

lemma abs_RunReclaimOne:
  assumes "wf_db T db" and "map_of (hash_at db redis_kRunning) i = Some t" and "is_stale T now timeout t"
  shows "wf_db T (exec T (RunReclaimOne i now timeout) db)"
    and "abs_queue T (exec T (RunReclaimOne i now timeout) db) =
    (abs_queue T db)\<lparr>q_pending := i # q_pending (abs_queue T db),
      q_running := q_running (abs_queue T db) - {i},
      q_status := (q_status (abs_queue T db))(i \<mapsto> kPending)\<rparr>"
proof -
  have good: "good_text T i t" using assms by (auto simp: wf_db_def intro: filedD)
  obtain v where v: "cj_decode T t = Some v" "task_table i v" using good_textE [OF good] .
  note new = recode_good(2) [OF good _ v(1), of reclaimed_table, OF task_tables(3)]
  note db' = reclaim_db_stale [OF assms(2) good assms(3)]
  show "wf_db T (exec T (RunReclaimOne i now timeout) db)" using assms(1) new by (simp add: db' wf_simps)
  show "abs_queue T (exec T (RunReclaimOne i now timeout) db) =
    (abs_queue T db)\<lparr>q_pending := i # q_pending (abs_queue T db),
      q_running := q_running (abs_queue T db) - {i},
      q_status := (q_status (abs_queue T db))(i \<mapsto> kPending)\<rparr>"
    using good_text_id [OF new] by (simp add: db' abs_simps)
qed

lemma abs_RunRetry:
  assumes "wf_db T db" and "good_text T i t"
  shows "abs_queue T (exec T (RunRetry i t run_at reason) db) =
    (abs_queue T db)\<lparr>q_delayed :=
        (if t \<in> fst ` set (zset_at db redis_kDelayed) then q_delayed (abs_queue T db)
         else add_mset i (q_delayed (abs_queue T db))),
      q_running := q_running (abs_queue T db) - {i},
      q_status := (q_status (abs_queue T db))(i \<mapsto> kRetrying)\<rparr>"
proof -
  have dist: "distinct (map fst (zset_at db redis_kDelayed))" using assms(1) by (simp add: wf_db_def)
  show ?thesis
    using good_text_id [OF assms(2)] by (simp add: retry_db abs_simps delayed_ids_insert [OF dist])
qed

lemma abs_RunFail:
  assumes "wf_db T db" and "map_of (hash_at db redis_kRunning) i = Some t"
  shows "wf_db T (exec T (RunFail i reason) db)"
    and "abs_queue T (exec T (RunFail i reason) db) =
    (abs_queue T db)\<lparr>q_running := q_running (abs_queue T db) - {i},
      q_dead := i # q_dead (abs_queue T db),
      q_status := (q_status (abs_queue T db))(i \<mapsto> kDead)\<rparr>"
proof -
  have good: "good_text T i t" using assms by (auto simp: wf_db_def intro: filedD)
  obtain v where v: "cj_decode T t = Some v" "task_table i v" using good_textE [OF good] .
  note new = recode_good(2) [OF good _ v(1), of "dead_table reason", OF task_tables(4)]
  note db' = fail_db [OF assms(2) good]
  show "wf_db T (exec T (RunFail i reason) db)" using assms(1) new by (simp add: db' wf_simps)
  show "abs_queue T (exec T (RunFail i reason) db) =
    (abs_queue T db)\<lparr>q_running := q_running (abs_queue T db) - {i},
      q_dead := i # q_dead (abs_queue T db),
      q_status := (q_status (abs_queue T db))(i \<mapsto> kDead)\<rparr>"
    using good_text_id [OF new] by (simp add: db' abs_simps)
qed

lemma abs_RunFail_absent:
  assumes "map_of (hash_at db redis_kRunning) i = None"
  shows "abs_queue T (exec T (RunFail i reason) db) =
    (abs_queue T db)\<lparr>q_status := (q_status (abs_queue T db))(i \<mapsto> kDead)\<rparr>"
proof -
  have "AList.delete i (hash_at db redis_kRunning) = hash_at db redis_kRunning"
    using assms by (simp add: map_of_eq_None_iff delete_id)
  then show ?thesis by (simp add: fail_db_absent [OF assms] abs_queue_def key_simps fun_eq_iff)
qed

lemma abs_RunAck:
  "abs_queue T (exec T (RunAck i result) db) =
    (abs_queue T db)\<lparr>q_running := q_running (abs_queue T db) - {i},
      q_done := insert i (q_done (abs_queue T db)),
      q_status := (q_status (abs_queue T db))(i \<mapsto> kSucceeded)\<rparr>"
  by (simp add: ack_db abs_simps)

lemma abs_RunRetryDeadTask:
  assumes "wf_db T db" and "find (\<lambda>t. text_id T t = i) (list_at db redis_kDead) = Some t"
  shows "i \<in> set (q_dead (abs_queue T db))"
    and "wf_db T (exec T (RunRetryDeadTask i) db)"
    and "abs_queue T (exec T (RunRetryDeadTask i) db) =
    (abs_queue T db)\<lparr>q_pending := i # q_pending (abs_queue T db),
      q_dead := remove1 i (q_dead (abs_queue T db)),
      q_status := (q_status (abs_queue T db))(i \<mapsto> kPending)\<rparr>"
proof -
  have t: "t \<in> set (list_at db redis_kDead)" "text_id T t = i"
    using assms(2) by (auto simp: find_Some_iff)
  have good: "good_text T i t" using assms(1) t by (auto simp: wf_db_def sound_text_def)
  obtain v where v: "cj_decode T t = Some v" "task_table i v" using good_textE [OF good] .
  note new = recode_good(2) [OF good _ v(1), of revived_table, OF task_tables(5)]
  have db': "exec T (RunRetryDeadTask i) db =
    put_hash redis_kFailures (AList.delete i (hash_at db redis_kFailures))
      (put_hash redis_kStatus (AList.update i ''pending'' (hash_at db redis_kStatus))
         (put_list redis_kPending (recode T revived_table t # list_at db redis_kPending)
            (put_list redis_kDead (remove1 t (list_at db redis_kDead)) db)))"
    using assms by (simp add: retry_dead_db wf_db_def)
  show "i \<in> set (q_dead (abs_queue T db))" using t by (auto simp: abs_queue_def)
  show "wf_db T (exec T (RunRetryDeadTask i) db)"
    using assms(1) new set_remove1_subset [of t "list_at db redis_kDead"] unfolding db'
    by (auto simp: wf_simps)
  show "abs_queue T (exec T (RunRetryDeadTask i) db) =
    (abs_queue T db)\<lparr>q_pending := i # q_pending (abs_queue T db),
      q_dead := remove1 i (q_dead (abs_queue T db)),
      q_status := (q_status (abs_queue T db))(i \<mapsto> kPending)\<rparr>"
    using good_text_id [OF new] map_remove1_first [OF assms(2)] unfolding db' by (simp add: abs_simps)
qed

subsection \<open>Refinement, operation by operation\<close>

lemma implements_Push:
  assumes "wf_db T db" and "good_text T i t"
  shows "implements T db (Push i t)"
  using assms by (intro implementsI [OF _ abs_Push]) (simp_all add: push_db wf_simps)

lemma delayed_here:
  "t \<in> fst ` set (zset_at db redis_kDelayed) \<Longrightarrow> good_text T i t \<Longrightarrow> i \<in># q_delayed (abs_queue T db)"
  using delayed_mem [of t "zset_at db redis_kDelayed" "text_id T"] good_text_id [of T i t]
  by (simp add: abs_queue_def del: set_image_mset)

lemma implements_Schedule:
  assumes "wf_db T db" and "good_text T i t"
  shows "implements T db (Schedule i t run_at)"
proof (rule implementsI [OF _ abs_Schedule [OF assms]])
  show "wf_db T (exec T (Schedule i t run_at) db)"
    using assms by (auto simp: schedule_db wf_simps wf_zset_insert set_zset_insert)
qed (use delayed_here [OF _ assms(2)] in simp)

lemma implements_RunReserve:
  assumes "wf_db T db" and "in_i64 now"
  shows "implements T db (RunReserve now)"
proof (cases "list_at db redis_kPending" rule: rev_cases)
  case Nil
  then show ?thesis
    using assms(1) by (intro implements_same) (simp_all add: reserve_db_empty abs_queue_def)
next
  case (snoc p t)
  define i where "i = text_id T t"
  have good: "good_text T i t" using assms(1) snoc by (simp add: wf_db_def sound_text_def i_def)
  obtain v where v: "cj_decode T t = Some v" "task_table i v" using good_textE [OF good] .
  note run = recode_good(2) [OF good _ v(1), of "running_table now", OF task_tables(1) [OF _ assms(2)]]
  have "q_pending (abs_queue T db) = map (text_id T) p @ [i]" by (simp add: abs_queue_def snoc i_def)
  moreover have "wf_db T (exec T (RunReserve now) db)"
    using assms(1) snoc run by (simp add: reserve_db [OF snoc good assms(2)] wf_simps)
  ultimately show ?thesis by (intro implementsI [OF _ abs_RunReserve [OF snoc good assms(2)]]) simp_all
qed

lemma implements_RunPromoteOne:
  assumes "wf_db T db"
  shows "implements T db (RunPromoteOne now)"
proof (cases "filter (\<lambda>p. snd p \<le> score_of now) (zset_at db redis_kDelayed)")
  case Nil
  then show ?thesis using assms by (intro implements_same) (simp_all add: promote_db_none)
next
  case (Cons p rest)
  obtain t sc where p: "p = (t, sc)" by (cases p)
  have "(t, sc) \<in> set (zset_at db redis_kDelayed)" using arg_cong [OF Cons, of set] p by auto
  then have good: "good_text T (text_id T t) t" using assms by (fastforce simp: wf_db_def sound_text_def)
  note abs = abs_RunPromoteOne [OF assms Cons [unfolded p] good]
  show ?thesis using abs(1) by (intro implementsI [OF abs(2,3)]) (simp add: Cons p)
qed

lemma implements_RunReclaimOne:
  assumes "wf_db T db"
  shows "implements T db (RunReclaimOne i now timeout)"
proof (cases "\<exists>t. map_of (hash_at db redis_kRunning) i = Some t \<and> is_stale T now timeout t")
  case False
  then show ?thesis
    using assms by (intro implements_same) (auto simp: reclaim_db_other split: option.split)
next
  case True
  then obtain t where t: "map_of (hash_at db redis_kRunning) i = Some t" "is_stale T now timeout t"
    by blast
  have "i \<in> q_running (abs_queue T db)" using running_mem(1) [OF t(1)] by (simp add: abs_queue_def)
  then show ?thesis using t by (intro implementsI [OF abs_RunReclaimOne [OF assms t]]) simp
qed

lemma implements_RunRetry:
  assumes "wf_db T db" and "good_text T i t"
  shows "implements T db (RunRetry i t run_at reason)"
proof (rule implementsI [OF _ abs_RunRetry [OF assms]])
  show "wf_db T (exec T (RunRetry i t run_at reason) db)"
    using assms by (auto simp: retry_db wf_simps wf_zset_insert set_zset_insert)
qed (use delayed_here [OF _ assms(2)] in simp)

lemma implements_RunFail:
  assumes "wf_db T db"
  shows "implements T db (RunFail i reason)"
proof (cases "map_of (hash_at db redis_kRunning) i")
  case None
  then have "i \<notin> q_running (abs_queue T db)" using running_mem(2) by (simp add: abs_queue_def)
  moreover have "wf_db T (exec T (RunFail i reason) db)"
    using assms by (simp add: fail_db_absent [OF None] wf_simps)
  ultimately show ?thesis by (intro implementsI [OF _ abs_RunFail_absent [OF None]]) simp_all
next
  case (Some t)
  then have "i \<in> q_running (abs_queue T db)" using running_mem(1) [OF Some] by (simp add: abs_queue_def)
  then show ?thesis by (intro implementsI [OF abs_RunFail [OF assms Some]]) simp
qed

lemma implements_RunAck:
  assumes "wf_db T db"
  shows "implements T db (RunAck i result)"
  using assms by (intro implementsI [OF _ abs_RunAck]) (simp_all add: ack_db wf_simps)

lemma implements_RunRetryDeadTask:
  assumes "wf_db T db"
  shows "implements T db (RunRetryDeadTask i)"
proof (cases "find (\<lambda>t. text_id T t = i) (list_at db redis_kDead)")
  case None
  then have "i \<notin> set (q_dead (abs_queue T db))" by (auto simp: abs_queue_def find_None_iff)
  then show ?thesis using None assms by (intro implements_same) (simp_all add: retry_dead_db wf_db_def)
next
  case (Some t)
  note abs = abs_RunRetryDeadTask [OF assms Some]
  show ?thesis using abs(1) by (intro implementsI [OF abs(2,3)]) simp
qed

text \<open>Metrics and heartbeats live under keys of their own.\<close>

lemma side_key_neq:
  assumes "side_key k"
  shows "k \<noteq> redis_kRunning" "k \<noteq> redis_kStatus" "k \<noteq> redis_kResults"
  using assms by (auto simp: side_key_def key_defs)

lemma queues_same:
  assumes "list_at db' = list_at db" "zset_at db' = zset_at db"
    and "\<And>k. \<not> side_key k \<Longrightarrow> hash_at db' k = hash_at db k"
  shows "wf_db T db' \<longleftrightarrow> wf_db T db" "abs_queue T db' = abs_queue T db"
proof -
  have "hash_at db' k = hash_at db k" if "k \<in> {redis_kRunning, redis_kStatus, redis_kResults}" for k
    using that assms(3) side_key_neq by blast
  then show "wf_db T db' \<longleftrightarrow> wf_db T db" "abs_queue T db' = abs_queue T db"
    using assms(1,2) by (simp_all add: wf_db_def abs_queue_def)
qed

lemma side_queues:
  assumes "side_cmd c"
  shows "wf_db T (exec T (Side c) db) \<longleftrightarrow> wf_db T db"
    and abs_Side: "abs_queue T (exec T (Side c) db) = abs_queue T db"
proof -
  let ?db' = "snd (redis_sem c db)"
  have "list_at ?db' = list_at db" "zset_at ?db' = zset_at db"
    using assms by (cases c; auto split: option.splits sum.splits)+
  moreover have "\<And>k. \<not> side_key k \<Longrightarrow> hash_at ?db' k = hash_at db k"
    using assms by (cases c) (auto split: option.splits sum.splits)
  moreover have "exec T (Side c) db = ?db'" by (auto simp: run_cmd_db split: prod.splits redis_reply.splits)
  ultimately show "wf_db T (exec T (Side c) db) \<longleftrightarrow> wf_db T db"
    and "abs_queue T (exec T (Side c) db) = abs_queue T db"
    using queues_same [of ?db' db] by simp_all
qed

lemma implements_Side: "wf_db T db \<Longrightarrow> side_cmd c \<Longrightarrow> implements T db (Side c)"
  by (simp add: implements_def side_queues del: exec.simps)

lemma exec_implements: "valid_request T r \<Longrightarrow> wf_db T db \<Longrightarrow> implements T db r"
  by (cases r)
    (simp_all add: implements_Push implements_Schedule implements_RunReserve implements_RunPromoteOne
      implements_RunReclaimOne implements_RunRetry implements_RunFail implements_RunAck
      implements_RunRetryDeadTask implements_Side)

lemma expiry_queues:
  "wf_db T (put_hash (WorkerKey w) [] db) \<longleftrightarrow> wf_db T db"
  "abs_queue T (put_hash (WorkerKey w) [] db) = abs_queue T db"
proof -
  have "\<not> side_key k \<Longrightarrow> k \<noteq> WorkerKey w" for k by (auto simp: side_key_def WorkerKey_def)
  then show "wf_db T (put_hash (WorkerKey w) [] db) \<longleftrightarrow> wf_db T db"
    "abs_queue T (put_hash (WorkerKey w) [] db) = abs_queue T db"
    using queues_same [of "put_hash (WorkerKey w) [] db" db] by simp_all
qed

lemma server_step_sim:
  assumes "server_step T db db'" and "wf_db T db"
  shows "simulates T db db'"
  using assms
  by (induction rule: server_step.induct)
    (simp_all add: implements_simulates exec_implements simulates_def [of _ _ "put_hash _ _ _"] expiry_queues
      del: exec.simps)

lemma server_steps_sim:
  assumes "(server_step T)\<^sup>*\<^sup>* db db'" and "wf_db T db"
  shows "wf_db T db' \<and> qstep\<^sup>*\<^sup>* (abs_queue T db) (abs_queue T db')"
  using assms
proof (induction rule: rtranclp_induct)
  case base
  then show ?case by simp
next
  case (step db1 db2)
  then show ?case using server_step_sim [of db1 db2]
    by (auto simp: simulates_def intro: rtranclp.rtrancl_into_rtrancl)
qed

lemma happen_refines:
  assumes "valid_event T e" and "wf_db T db"
  shows "wf_db T (happen T e db)"
    and "abs_queue T (happen T e db) = qapply (qop_event T db e) (abs_queue T db)"
  using assms exec_implements
  by (cases e; simp add: implements_def expiry_queues del: exec.simps)+

lemma events_refine:
  assumes "\<forall>e \<in> set es. valid_event T e" and "wf_db T db"
  shows "wf_db T (fold (happen T) es db) \<and>
    abs_queue T (fold (happen T) es db) = fold qapply (qops T db es) (abs_queue T db)"
  using assms
proof (induction es arbitrary: db)
  case (Cons e es)
  then show ?case using happen_refines [of e db] Cons.IH [of "happen T e db"] by simp
qed simp

end

end
