(* ===== verification/Broker_Safety.thy ===== *)
theory Broker_Safety
  imports Queue_Refine
begin

text \<open>
  Every operation of the broker, whatever messages the connection loses, takes the server
  through a sequence of requests (\<open>run_call_steps\<close>); by the refinement of Queue_Refine no
  operation loses a task, and clients that keep to the protocol keep one copy of each task.
\<close>

section \<open>Messages that can be stored\<close>

text \<open>
  The payload is a value of the JSON library with at most 999 levels, the numbers are in range
  and the multiplier is finite.
\<close>

definition storable :: "TaskMessage \<Rightarrow> bool" where
  "storable m \<longleftrightarrow>
     in_range_message m \<and> json_wf (m_payload m) \<and> lua_depth (lua_of_json (m_payload m)) \<le> 998 \<and>
     (\<exists>q. multiplier (m_retry_policy m) = DFin q \<and> rnd q = DFin q)"

lemma lua_all_of_json: "json_wf j \<Longrightarrow> lua_all (\<lambda>_. True) (lua_of_json j)"
proof (induction j rule: json_wf.induct)
  case (1 i)
  then have "\<bar>i\<bar> \<le> 2 ^ 64" by auto
  then show ?case using rnd_int64_idem [of i] by (auto simp: double_of_int_def)
next
  case (5 kvs)
  have "map fst (map (\<lambda>(k, v). (k, lua_of_json v)) kvs) = map fst kvs" by (auto simp: comp_def split_def)
  then have "smap (map (\<lambda>(k, v). (k, lua_of_json v)) kvs)"
    using 5(2) unfolding smap_def by (simp only: json_wf.simps smap_def)
  moreover have "lua_all (\<lambda>_. True) (lua_of_json v)" if "(k, v) \<in> set kvs" for k v
    using 5 that by fastforce
  ultimately show ?case by auto
qed auto

text \<open>JSON values whose numbers satisfy \<open>P\<close>, of at most \<open>n\<close> levels.\<close>

definition flat :: "(rat \<Rightarrow> bool) \<Rightarrow> nat \<Rightarrow> json \<Rightarrow> bool" where
  "flat P n j \<longleftrightarrow> json_wf j \<and> lua_all P (lua_of_json j) \<and> lua_depth (lua_of_json j) \<le> n"

lemma smap_lua_fields: "smap (map (\<lambda>(k, v). (k, lua_of_json v)) kvs) \<longleftrightarrow> smap kvs"
proof -
  have "map fst (map (\<lambda>(k, v). (k, lua_of_json v)) kvs) = map fst kvs" by (auto simp: comp_def split_def)
  then show ?thesis unfolding smap_def by (simp only:)
qed

lemma flat_object: "flat P (Suc n) (JObject kvs) \<longleftrightarrow> smap kvs \<and> (\<forall>(k, v) \<in> set kvs. flat P n v)"
  by (auto simp: flat_def lua_depth_le_Suc smap_lua_fields)

lemma flat_put:
  "is_object j \<Longrightarrow> flat P (Suc n) j \<Longrightarrow> flat P n v \<Longrightarrow> flat P (Suc n) (json_put k v j)"
  using set_sput_subset by (cases j) (fastforce simp: flat_object)+

lemmas flat_put_1000 = flat_put [where n = 999, simplified]

lemma flat_foldl:
  "smap m \<Longrightarrow> (\<forall>(k, v) \<in> set m. flat P n v) \<Longrightarrow> (\<forall>(k, v) \<in> set kvs. flat P n v) \<Longrightarrow>
     (\<forall>(k, v) \<in> set (foldl (\<lambda>m (k, v). sput k v m) m kvs). flat P n v)"
proof (induction kvs arbitrary: m)
  case Nil
  then show ?case by simp
next
  case (Cons p kvs)
  obtain k v where p: "p = (k, v)" by (cases p)
  have "\<forall>(k, v) \<in> set (sput k v m). flat P n v"
    using Cons.prems set_sput_subset [of k v m] by (auto simp: p)
  then show ?case using Cons.IH [of "sput k v m"] Cons.prems by (simp add: p)
qed

lemma flat_json_object: "(\<forall>(k, v) \<in> set kvs. flat P n v) \<Longrightarrow> flat P (Suc n) (json_object kvs)"
  unfolding json_object_def flat_object sbuild_def
  using flat_foldl [of "[]" P n kvs] foldl_sput_smap [of "[]" kvs] by simp

lemma flat_string [simp]: "flat P n (JString s)"
  by (simp add: flat_def)

lemma flat_float [simp]: "rnd q = DFin q \<Longrightarrow> P q \<Longrightarrow> flat P n (JFloat (DFin q))"
  by (simp add: flat_def)

text \<open>The parts of a message decide whether its JSON form has the property.\<close>

definition flat_message :: "(rat \<Rightarrow> bool) \<Rightarrow> TaskMessage \<Rightarrow> bool" where
  "flat_message P m \<longleftrightarrow>
     (\<forall>n. flat P n (JInt 1) \<and> flat P n (JInt (m_retry_count m)) \<and>
          flat P n (JInt (max_retries (m_retry_policy m))) \<and>
          flat P n (JInt (base_delay_ms (m_retry_policy m))) \<and>
          flat P n (JFloat (multiplier (m_retry_policy m))) \<and>
          flat P n (JInt (m_created_at_ms m)) \<and>
          pred_option (\<lambda>t. flat P n (JInt t)) (m_run_at_ms m) \<and>
          pred_option (\<lambda>t. flat P n (JInt t)) (m_reserved_at_ms m)) \<and>
     flat P 999 (m_payload m)"

lemma flat_message_json:
  assumes "flat_message P m"
  shows "flat P 1000 (TaskMessage_ToJson m)"
proof -
  have pol: "flat P (Suc 998) (RetryPolicy_ToJson (m_retry_policy m))"
    unfolding RetryPolicy_ToJson_def
    using assms by (intro flat_json_object) (simp add: flat_message_def)
  let ?base = "json_object
                [(''schema_version'', JInt kTaskSchemaVersion),
                 (''id'', JString (TaskId_Value (m_id m))),
                 (''name'', JString (m_name m)),
                 (''payload'', m_payload m),
                 (''status'', JString (TaskStatusToString (m_status m))),
                 (''retry_count'', JInt (m_retry_count m)),
                 (''retry_policy'', RetryPolicy_ToJson (m_retry_policy m)),
                 (''created_at_ms'', JInt (m_created_at_ms m))]"
  have "flat P (Suc 999) ?base"
    using assms pol by (intro flat_json_object) (simp add: flat_message_def kTaskSchemaVersion_def)
  then have "flat P (Suc 999) (TaskMessage_ToJson m)"
    using assms unfolding TaskMessage_ToJson_def Let_def
    by (auto simp: flat_message_def flat_put_1000 split: option.splits)
  then show ?thesis by simp
qed

lemma flat_int64: "in_i64 i \<Longrightarrow> flat (\<lambda>_. True) n (JInt i)"
  using lua_all_of_json [of "JInt i"] by (auto simp: flat_def in_i64_def)

lemma storable_flat:
  assumes "storable m"
  shows "flat (\<lambda>_. True) 1000 (TaskMessage_ToJson m)"
proof (rule flat_message_json)
  obtain q where q: "multiplier (m_retry_policy m) = DFin q" "rnd q = DFin q"
    using assms by (auto simp: storable_def)
  have "flat (\<lambda>_. True) 999 (m_payload m)"
    using assms lua_all_of_json by (simp add: storable_def flat_def)
  then show "flat_message (\<lambda>_. True) m"
    using assms q flat_int64 [of 1]
    by (auto simp: storable_def in_range_message_def flat_message_def in_i32_i64 flat_int64
        in_i64_def [of 1] split: option.splits elim!: option.pred_mono_strong)
qed

context wire_text
begin

lemma storable_text:
  assumes "storable m" and "dump T (TaskMessage_ToJson m) = Inr t"
  shows "good_text T (TaskId_Value (m_id m)) t"
proof -
  let ?j = "TaskMessage_ToJson m"
  have f: "json_wf ?j" "lua_depth (lua_of_json ?j) \<le> 1000"
    using storable_flat [OF assms(1)] by (auto simp: flat_def)
  have dec: "cj_decode T t = Some (lua_of_json ?j)" by (rule decode_dump [OF assms(2) f])
  obtain kvs where kvs: "?j = JObject kvs" using is_object_TaskMessage_ToJson [of m] by (cases ?j) auto
  have "map_of kvs ''id'' = Some (JString (TaskId_Value (m_id m)))"
    using find_TaskMessage_ToJson [of m "''id''"] by (simp add: kvs json_find_def)
  then have "lget (lua_of_json ?j) ''id'' = LStr (TaskId_Value (m_id m))"
    unfolding kvs lget_lua_of_json by simp
  moreover have "is_table (lua_of_json ?j)" by (simp add: kvs)
  ultimately show ?thesis
    using dec f lua_all_of_json [OF f(1)] by (simp add: good_text_def task_table_def encodable_def)
qed

end

section \<open>Operations are sequences of requests\<close>

text \<open>
  The calls a client can make, each with the values its operation takes from the clock and the
  random generator; queries share \<open>CallQuery\<close>.
\<close>

datatype broker_query =
    QGetStatus TaskId
  | QListDeadTasks
  | QGetFailureReason TaskId
  | QGetStats
  | QGetTaskResult TaskId
  | QListWorkers
  | QCollectMetrics

datatype broker_call =
    CallEnqueue "8 word list" int TaskMessage
  | CallPromoteDueTasks nat int
  | CallReserve int
  | CallReclaimStaleTasks int int
  | CallAck TaskId
  | CallRetry int TaskMessage string
  | CallFail TaskId string
  | CallRetryDeadTask TaskId
  | CallUpsertWorkerHeartbeat WorkerHeartbeat int
  | CallRecordCounter string int
  | CallRecordDurationMs string int
  | CallQuery broker_query

fun run_query :: "'s ext \<Rightarrow> broker_query \<Rightarrow> ('s conn, unit) io" where
  "run_query X (QGetStatus i) = then_io (RedisBroker_GetStatus X i) (ret ())"
| "run_query X QListDeadTasks = then_io (RedisBroker_ListDeadTasks X) (ret ())"
| "run_query X (QGetFailureReason i) = then_io (RedisBroker_GetFailureReason X i) (ret ())"
| "run_query X QGetStats = then_io (RedisBroker_GetStats X) (ret ())"
| "run_query X (QGetTaskResult i) = then_io (RedisBroker_GetTaskResult X i) (ret ())"
| "run_query X QListWorkers = then_io (RedisBroker_ListWorkers X) (ret ())"
| "run_query X QCollectMetrics = then_io (RedisBroker_CollectMetrics X) (ret ())"

fun run_call :: "'s ext \<Rightarrow> broker_call \<Rightarrow> ('s conn, unit) io" where
  "run_call X (CallEnqueue bytes now m) = then_io (RedisBroker_Enqueue X bytes now m) (ret ())"
| "run_call X (CallPromoteDueTasks fuel now) = then_io (RedisBroker_PromoteDueTasks X fuel now) (ret ())"
| "run_call X (CallReserve now) = then_io (RedisBroker_Reserve X now) (ret ())"
| "run_call X (CallReclaimStaleTasks now timeout) =
     then_io (RedisBroker_ReclaimStaleTasks X now timeout) (ret ())"
| "run_call X (CallAck i) = RedisBroker_Ack X i"
| "run_call X (CallRetry now m reason) = RedisBroker_Retry X now m reason"
| "run_call X (CallFail i reason) = RedisBroker_Fail X i reason"
| "run_call X (CallRetryDeadTask i) = then_io (RedisBroker_RetryDeadTask X i) (ret ())"
| "run_call X (CallUpsertWorkerHeartbeat h ttl) = RedisBroker_UpsertWorkerHeartbeat X h ttl"
| "run_call X (CallRecordCounter name delta) = RecordCounter X name delta"
| "run_call X (CallRecordDurationMs name d) = RecordDurationMs X name d"
| "run_call X (CallQuery q) = run_query X q"

fun valid_call :: "broker_call \<Rightarrow> bool" where
  "valid_call (CallEnqueue bytes now m) = storable m"
| "valid_call (CallRetry now m reason) = storable m"
| "valid_call (CallReserve now) = in_i64 now"
| "valid_call _ = True"

lemma storable_updates:
  "storable m \<Longrightarrow> storable (m\<lparr>m_id := i\<rparr>)" "storable m \<Longrightarrow> storable (m\<lparr>m_status := s\<rparr>)"
  "storable m \<Longrightarrow> storable (m\<lparr>m_run_at_ms := None\<rparr>)"
  by (simp_all add: storable_def in_range_message_def)

lemma retry_message_storable:
  assumes "storable m" and "retry_message now m reason = Inr m'"
  shows "storable m'" "m_id m' = m_id m"
proof -
  show "m_id m' = m_id m"
    using assms(2) by (auto simp: retry_message_def bind_sum_def Let_def split: sum.splits)
  show "storable m'"
    using assms
    by (auto simp: retry_message_def bind_sum_def Let_def storable_def in_range_message_def
        add_i32_def add_i64_def split: sum.splits if_splits)
qed

lemma side_worker [simp]: "side_key (WorkerKey w)" "side_key redis_kMetrics"
  by (simp_all add: side_key_def WorkerKey_def)

text \<open>What \<open>Enqueue\<close> stores for a message.\<close>

definition is_delayed :: "int \<Rightarrow> TaskMessage \<Rightarrow> bool" where
  "is_delayed now m \<longleftrightarrow> (case m_run_at_ms m of Some t \<Rightarrow> t > now | None \<Rightarrow> False)"

definition stored_message :: "8 word list \<Rightarrow> int \<Rightarrow> TaskMessage \<Rightarrow> TaskMessage" where
  "stored_message bytes now m =
     (let m = (if TaskId_Value (m_id m) = '''' then m\<lparr>m_id := TaskId_Generate bytes\<rparr> else m);
          m = m\<lparr>m_status := kPending\<rparr>
      in if is_delayed now m then m else m\<lparr>m_run_at_ms := None\<rparr>)"

definition enqueue_request :: "int \<Rightarrow> TaskMessage \<Rightarrow> string \<Rightarrow> request" where
  "enqueue_request now m t =
     (if is_delayed now m then Schedule (TaskId_Value (m_id m)) t (the (m_run_at_ms m))
      else Push (TaskId_Value (m_id m)) t)"

lemma Enqueue_stored:
  "RedisBroker_Enqueue X bytes now m =
     (let m' = stored_message bytes now m
      in bind_io (lift_io (dump (codec X) (TaskMessage_ToJson m'))) (\<lambda>json.
         then_io (multi_exec (rds X)
           (if is_delayed now m' then schedule_cmds (TaskId_Value (m_id m')) json (the (m_run_at_ms m'))
            else push_cmds (TaskId_Value (m_id m')) json))
        (then_io (RecordCounter X kTasksEnqueuedTotal 1) (ret (m_id m')))))"
  unfolding RedisBroker_Enqueue_def stored_message_def is_delayed_def [symmetric] Let_def
  by (simp add: is_delayed_def push_cmds_def schedule_cmds_def)

lemma keeps_catch_redis:
  "keeps I m \<Longrightarrow> keeps I h \<Longrightarrow> keeps I (catch_redis m h)"
  unfolding catch_redis_def by (intro keeps_catch) (auto split: exn.splits)

lemma keeps_bind_pure:
  "(\<And>a. r = Inr a \<Longrightarrow> keeps I (f a)) \<Longrightarrow> keeps I (bind_io (lift_io r) f)"
  by (cases r) (auto simp: keeps_def bind_io_def lift_io_def)

lemma keeps_bind_post:
  assumes "keeps I m" and "\<And>s a s'. m s = (Inr a, s') \<Longrightarrow> Q a" and "\<And>a. Q a \<Longrightarrow> keeps I (f a)"
  shows "keeps I (bind_io m f)"
proof (rule keepsI)
  fix s assume "I s"
  obtain r s' where m: "m s = (r, s')" by (cases "m s")
  then have "I s'" using keepsD [OF assms(1) \<open>I s\<close>] by simp
  then show "I (snd (bind_io m f s))"
    using m assms(2) [of s] keepsD [OF assms(3)] by (cases r) (auto simp: bind_io_def)
qed

text \<open>The requests of a call that bring a text or a time or settle a task satisfy \<open>ok\<close>.\<close>

fun call_ok :: "text_ops \<Rightarrow> (request \<Rightarrow> bool) \<Rightarrow> broker_call \<Rightarrow> bool" where
  "call_ok T ok (CallEnqueue bytes now m) =
     (\<forall>t. dump T (TaskMessage_ToJson (stored_message bytes now m)) = Inr t \<longrightarrow>
        ok (enqueue_request now (stored_message bytes now m) t))"
| "call_ok T ok (CallRetry now m reason) =
     (\<forall>m' t. retry_message now m reason = Inr m' \<and> dump T (TaskMessage_ToJson m') = Inr t \<longrightarrow>
        ok (RunRetry (TaskId_Value (m_id m)) t (the (m_run_at_ms m')) reason))"
| "call_ok T ok (CallReserve now) = ok (RunReserve now)"
| "call_ok T ok (CallAck i) = (\<forall>t. ok (RunAck (TaskId_Value i) t))"
| "call_ok T ok (CallFail i reason) = ok (RunFail (TaskId_Value i) reason)"
| "call_ok T ok _ = True"

text \<open>
  An invariant \<open>I\<close> of the keyspace that every request allowed by \<open>ok\<close> keeps; requests that bring
  no text of their own, do not stamp a time and settle no task are always allowed. Whatever messages the
  connection loses, an operation whose requests are allowed keeps \<open>I\<close>.
\<close>

fun request_free :: "request \<Rightarrow> bool" where
  "request_free (Push i t) = False"
| "request_free (Schedule i t run_at) = False"
| "request_free (RunRetry i t run_at reason) = False"
| "request_free (RunReserve now) = False"
| "request_free (RunAck i t) = False"
| "request_free (RunFail i reason) = False"
| "request_free (Side c) = side_cmd c"
| "request_free _ = True"

locale request_invariant = external X view
  for X :: "'s ext" and view :: "'s \<Rightarrow> redis_db" +
  fixes I :: "redis_db \<Rightarrow> bool" and ok :: "request \<Rightarrow> bool"
  assumes exec_ok: "ok r \<Longrightarrow> I db \<Longrightarrow> I (exec (codec X) r db)"
    and free_ok: "request_free r \<Longrightarrow> ok r"
begin

lemma keeps_request:
  assumes "ok r" and "\<And>db. snd (m db) = exec (codec X) r db"
  shows "keeps I m"
  using exec_ok [OF assms(1)] by (intro keepsI) (simp add: assms(2))

lemma keeps_side: "side_cmd c \<Longrightarrow> keeps I (run_cmd db_redis c)"
  by (rule keeps_request [where r = "Side c"]) (simp_all add: free_ok)

lemma keeps_do_side:
  "well_keyed c \<Longrightarrow> side_cmd c \<Longrightarrow> conn_keeps X view I (redis_do (rds X) c)"
  by (intro keeps_redis_do keeps_side)

lemma keeps_RecordRedisOperationError: "conn_keeps X view I (RecordRedisOperationError X)"
  unfolding RecordRedisOperationError_def
  by (intro keeps_catch_redis keeps_then keeps_do_side keeps_ret) (simp_all add: key_simps)

lemma keeps_RecordCounter: "conn_keeps X view I (RecordCounter X name delta)"
  unfolding RecordCounter_def
  by (intro keeps_catch_redis keeps_then keeps_do_side keeps_ret keeps_RecordRedisOperationError)
    (simp_all add: key_simps)

lemma keeps_RecordDurationMs: "conn_keeps X view I (RecordDurationMs X name d)"
  unfolding RecordDurationMs_def
  by (intro keeps_catch_redis keeps_then keeps_bind keeps_do_side keeps_RecordRedisOperationError)
    (auto simp: key_simps intro!: keeps_intros keeps_do_side split: option.splits)

lemma keeps_Reserve:
  "ok (RunReserve now) \<Longrightarrow> conn_keeps X view I (RedisBroker_Reserve X now)"
  unfolding RedisBroker_Reserve_def RedisScripts_Reserve_def
  by (intro keeps_bind keeps_Eval [OF _ keeps_request [where r = "RunReserve now"]])
    (auto simp: key_simps sim_kReserve intro!: keeps_intros split: option.splits)

lemma keeps_PromoteOne: "conn_keeps X view I (RedisScripts_PromoteOneDueTask X now)"
  unfolding RedisScripts_PromoteOneDueTask_def
  by (intro keeps_bind keeps_Eval [OF _ keeps_request [where r = "RunPromoteOne now"]])
    (auto simp: key_simps sim_kPromoteOne free_ok)

lemma keeps_PromoteDueTasks:
  "conn_keeps X view I (RedisBroker_PromoteDueTasks X fuel now)"
  unfolding RedisBroker_PromoteDueTasks_def
  by (induction fuel) (auto intro!: keeps_intros keeps_PromoteOne)

lemma keeps_ReclaimOne:
  "conn_keeps X view I (RedisScripts_ReclaimOneStaleTask X i now timeout)"
  unfolding RedisScripts_ReclaimOneStaleTask_def
  by (intro keeps_bind keeps_Eval [OF _ keeps_request [where r = "RunReclaimOne i now timeout"]])
    (auto simp: key_simps sim_kReclaimOne free_ok)

lemma keeps_reclaim_loop: "conn_keeps X view I (reclaim_loop X now timeout n ps)"
  by (induction ps arbitrary: n) (auto intro!: keeps_intros keeps_ReclaimOne)

lemma keeps_ReclaimStaleTasks:
  "conn_keeps X view I (RedisBroker_ReclaimStaleTasks X now timeout)"
  unfolding RedisBroker_ReclaimStaleTasks_def
  by (intro keeps_bind keeps_do_side keeps_ret keeps_reclaim_loop) (simp_all add: key_simps)

lemma keeps_Ack:
  assumes "\<And>t. ok (RunAck (TaskId_Value i) t)"
  shows "conn_keeps X view I (RedisBroker_Ack X i)"
proof -
  have "conn_keeps X view I (RedisScripts_Ack X (TaskId_Value i) t)" for t
    unfolding RedisScripts_Ack_def
    by (intro keeps_bind keeps_Eval [OF _ keeps_request [OF assms [of t]]]) (auto simp: key_simps sim_kAck)
  then show ?thesis
    unfolding RedisBroker_Ack_def by (intro keeps_bind keeps_then keeps_ret keeps_RecordCounter)
qed

lemma keeps_Fail:
  assumes "ok (RunFail (TaskId_Value i) reason)"
  shows "conn_keeps X view I (RedisBroker_Fail X i reason)"
proof -
  have "conn_keeps X view I (RedisScripts_Fail X (TaskId_Value i) reason)"
    unfolding RedisScripts_Fail_def
    by (intro keeps_bind keeps_Eval [OF _ keeps_request [OF assms]]) (auto simp: key_simps sim_kFail)
  then show ?thesis
    unfolding RedisBroker_Fail_def by (intro keeps_then keeps_RecordCounter)
qed

lemma keeps_RetryDeadTask: "conn_keeps X view I (RedisBroker_RetryDeadTask X i)"
proof -
  have "conn_keeps X view I (RedisScripts_RetryDeadTask X j)" for j
    unfolding RedisScripts_RetryDeadTask_def
    by (intro keeps_bind keeps_Eval [OF _ keeps_request [where r = "RunRetryDeadTask j"]])
      (auto simp: key_simps sim_kRetryDeadTask free_ok)
  then show ?thesis
    unfolding RedisBroker_RetryDeadTask_def by (intro keeps_bind) auto
qed

lemma keeps_Retry:
  assumes "\<And>m' t. retry_message now m reason = Inr m' \<Longrightarrow> dump (codec X) (TaskMessage_ToJson m') = Inr t \<Longrightarrow>
      ok (RunRetry (TaskId_Value (m_id m)) t (the (m_run_at_ms m')) reason)"
  shows "conn_keeps X view I (RedisBroker_Retry X now m reason)"
proof -
  have "conn_keeps X view I (RedisScripts_Retry X j t at_ms reason)"
    if "ok (RunRetry j t at_ms reason)" for j t at_ms
    unfolding RedisScripts_Retry_def
    by (intro keeps_bind keeps_Eval [OF _ keeps_request [OF that]]) (auto simp: key_simps sim_kRetry)
  then show ?thesis
    unfolding RedisBroker_Retry_def
    by (intro keeps_bind_pure keeps_then keeps_RecordCounter) (simp add: assms)
qed

lemma keeps_Enqueue:
  assumes "\<And>t. dump (codec X) (TaskMessage_ToJson (stored_message bytes now m)) = Inr t \<Longrightarrow>
      ok (enqueue_request now (stored_message bytes now m) t)"
  shows "conn_keeps X view I (RedisBroker_Enqueue X bytes now m)"
proof -
  have "conn_keeps X view I (multi_exec (rds X) (push_cmds j t))" if "ok (Push j t)" for j t
    by (intro keeps_multi_exec keeps_request [OF that]) (auto simp: push_cmds_def key_simps)
  moreover have "conn_keeps X view I (multi_exec (rds X) (schedule_cmds j t at_ms))"
    if "ok (Schedule j t at_ms)" for j t at_ms
    by (intro keeps_multi_exec keeps_request [OF that]) (auto simp: schedule_cmds_def key_simps)
  ultimately show ?thesis
    unfolding Enqueue_stored Let_def
    using assms
    by (intro keeps_bind_pure keeps_then keeps_RecordCounter keeps_ret)
      (auto simp: enqueue_request_def split: if_splits)
qed

text \<open>The keys of the heartbeats are hash keys.\<close>

lemma KEYS_prefix_post:
  assumes "redis_do (rds X) (KEYS_prefix p) c = (Inr r, c')"
  shows "\<exists>ks. r = RMulti ks \<and> (\<forall>k \<in> set ks. take (length p) k = p)"
proof -
  obtain r1 s1 where call: "call (rds X) (KEYS_prefix p) (srv c) = (r1, s1)"
    by (cases "call (rds X) (KEYS_prefix p) (srv c)")
  have "redis_sem (KEYS_prefix p) (view (srv c)) = (r1, view s1)" by (rule call_sem [OF _ call]) simp
  then obtain ks where r1: "r1 = RMulti ks" and ks: "\<forall>k \<in> set ks. take (length p) k = p" by auto
  with assms call show ?thesis
    by (auto simp: redis_do_def transmit_def run_cmd_def lost_def split: list.splits net_event.splits)
qed

lemma worker_prefix_hash: "take (length redis_kWorkersPrefix) k = redis_kWorkersPrefix \<Longrightarrow> kind_of k = HashKey"
  by (auto simp: kind_of_def key_defs)

lemma keeps_list_workers_loop:
  "\<forall>k \<in> set ks. kind_of k = HashKey \<Longrightarrow> conn_keeps X view I (list_workers_loop X ks)"
  by (induction ks) (auto intro!: keeps_intros keeps_do_side)

lemma keeps_ListWorkers: "conn_keeps X view I (RedisBroker_ListWorkers X)"
  unfolding RedisBroker_ListWorkers_def
proof (rule keeps_bind_post [where Q = "\<lambda>r. \<exists>ks. r = RMulti ks \<and> (\<forall>k \<in> set ks. kind_of k = HashKey)"])
  show "conn_keeps X view I (redis_do (rds X) (KEYS_prefix redis_kWorkersPrefix))"
    by (rule keeps_do_side) simp_all
qed (auto dest!: KEYS_prefix_post simp: worker_prefix_hash intro!: keeps_bind_pure keeps_list_workers_loop)

lemma keeps_GetStats: "conn_keeps X view I (RedisBroker_GetStats X)"
  unfolding RedisBroker_GetStats_def
  by (intro keeps_bind keeps_do_side keeps_ret) (simp_all add: key_simps)

lemma keeps_CollectMetrics: "conn_keeps X view I (RedisBroker_CollectMetrics X)"
proof -
  have "conn_keeps X view I (ApplyLiveGauges X s)" for s
    unfolding ApplyLiveGauges_def by (intro keeps_bind keeps_GetStats keeps_ListWorkers keeps_ret)
  then show ?thesis
    unfolding RedisBroker_CollectMetrics_def
    by (intro keeps_bind keeps_catch_redis keeps_then keeps_RecordRedisOperationError keeps_do_side)
      (auto simp: key_simps intro!: keeps_intros split: option.splits)
qed

lemma keeps_query: "conn_keeps X view I (run_query X q)"
proof (cases q)
  case QListWorkers
  then show ?thesis by (simp add: keeps_then keeps_ListWorkers)
next
  case QCollectMetrics
  then show ?thesis by (simp add: keeps_then keeps_CollectMetrics)
next
  case QGetStats
  then show ?thesis by (simp add: keeps_then keeps_GetStats)
qed (auto simp: RedisBroker_GetStatus_def RedisBroker_ListDeadTasks_def
    RedisBroker_GetFailureReason_def RedisBroker_GetTaskResult_def key_simps
    intro!: keeps_intros keeps_do_side split: option.splits sum.splits exn.splits)

lemma keeps_heartbeat: "conn_keeps X view I (RedisBroker_UpsertWorkerHeartbeat X h ttl)"
  unfolding RedisBroker_UpsertWorkerHeartbeat_def Let_def
  by (intro keeps_then keeps_do_side) (auto simp: key_simps intro!: keeps_intros keeps_do_side)

lemma keeps_call: "call_ok (codec X) ok cl \<Longrightarrow> conn_keeps X view I (run_call X cl)"
  by (cases cl)
    (auto intro!: keeps_then keeps_Enqueue keeps_PromoteDueTasks keeps_Reserve keeps_ReclaimStaleTasks
      keeps_Ack keeps_Retry keeps_Fail keeps_RetryDeadTask keeps_heartbeat keeps_RecordCounter
      keeps_RecordDurationMs keeps_query)

end

context external
begin

abbreviation reached :: "redis_db \<Rightarrow> redis_db \<Rightarrow> bool" where
  "reached db0 \<equiv> (server_step (codec X))\<^sup>*\<^sup>* db0"

lemma reached_invariant: "request_invariant X view (reached db0) (valid_request (codec X))"
proof unfold_locales
  show "reached db0 (exec (codec X) r db)" if "valid_request (codec X) r" "reached db0 db" for r db
    using that(2) step_request [OF that(1)] by (rule rtranclp.rtrancl_into_rtrancl)
  show "valid_request (codec X) r" if "request_free r" for r using that by (cases r) simp_all
qed

lemma valid_call_ok: "valid_call cl \<Longrightarrow> call_ok (codec X) (valid_request (codec X)) cl"
proof (cases cl)
  case (CallEnqueue bytes now m)
  assume "valid_call cl"
  with CallEnqueue have "storable (stored_message bytes now m)"
    by (simp add: stored_message_def Let_def storable_updates)
  then show ?thesis using storable_text CallEnqueue by (auto simp: enqueue_request_def)
next
  case (CallRetry now m reason)
  assume "valid_call cl"
  with CallRetry have "storable m" by simp
  then have "good_text (codec X) (TaskId_Value (m_id m)) t"
    if "retry_message now m reason = Inr m'" "dump (codec X) (TaskMessage_ToJson m') = Inr t" for m' t
    using retry_message_storable [OF _ that(1)] storable_text [OF _ that(2)] by simp
  then show ?thesis using CallRetry by simp
qed simp_all

lemma run_call_steps:
  assumes "valid_call cl" and "loaded X c"
  shows "loaded X (snd (run_call X cl c)) \<and>
    reached (view (srv c)) (view (srv (snd (run_call X cl c))))"
  using keepsD [OF request_invariant.keeps_call [OF reached_invariant valid_call_ok [OF assms(1)]], of "view (srv c)" c] assms(2) by (simp add: conn_inv_def)

lemma transmit_Inr: "transmit f c = (Inr a, c') \<Longrightarrow> f (srv c) = (Inr a, srv c')"
  by (auto simp: transmit_def split: prod.splits list.splits net_event.splits)

lemma transmit_loaded: "transmit f c = (r, c') \<Longrightarrow> loaded X c \<Longrightarrow> loaded X c'"
  by (auto simp: transmit_def loaded_def split: prod.splits list.splits net_event.splits)

text \<open>When \<open>Enqueue\<close> returns an identifier, its transaction has been executed.\<close>

lemma Enqueue_executed:
  assumes "storable m" and "loaded X c" and "RedisBroker_Enqueue X bytes now m c = (Inr i, c')"
  shows "\<exists>r. valid_request (codec X) r \<and>
    ((\<exists>t. r = Push (TaskId_Value i) t) \<or> (\<exists>t a. r = Schedule (TaskId_Value i) t a)) \<and>
    reached (exec (codec X) r (view (srv c))) (view (srv c'))"
proof -
  define m1 where "m1 = (if TaskId_Value (m_id m) = '''' then m\<lparr>m_id := TaskId_Generate bytes\<rparr> else m)\<lparr>m_status := kPending\<rparr>"
  define del where "del = (case m_run_at_ms m1 of Some t \<Rightarrow> t > now | None \<Rightarrow> False)"
  define m2 where "m2 = (if del then m1 else m1\<lparr>m_run_at_ms := None\<rparr>)"
  define cmds where "cmds t = (if del then schedule_cmds (TaskId_Value (m_id m2)) t (the (m_run_at_ms m1))
    else push_cmds (TaskId_Value (m_id m2)) t)" for t
  define r where "r t = (if del then Schedule (TaskId_Value (m_id m2)) t (the (m_run_at_ms m1))
    else Push (TaskId_Value (m_id m2)) t)" for t
  have "RedisBroker_Enqueue X bytes now m =
    bind_io (lift_io (dump (codec X) (TaskMessage_ToJson m2))) (\<lambda>json.
      then_io (multi_exec (rds X) (cmds json))
     (then_io (RecordCounter X kTasksEnqueuedTotal 1) (ret (m_id m2))))"
    unfolding RedisBroker_Enqueue_def Let_def m1_def [symmetric] del_def [symmetric]
    by (simp add: m2_def cmds_def push_cmds_def schedule_cmds_def)
  with assms(3) obtain t c1 c2 where t: "dump (codec X) (TaskMessage_ToJson m2) = Inr t"
    and c1: "multi_exec (rds X) (cmds t) c = (Inr (), c1)"
    and c2: "RecordCounter X kTasksEnqueuedTotal 1 c1 = (Inr (), c2)"
    and i: "i = m_id m2" and [simp]: "c' = c2"
    by (auto simp: bind_io_def then_io_def lift_io_def ret_def split: prod.splits sum.splits)
  have "storable m2" using assms(1) by (simp add: m1_def m2_def storable_updates)
  then have good: "good_text (codec X) (TaskId_Value (m_id m2)) t" using t by (rule storable_text)
  have wk: "list_all well_keyed (cmds t)"
    by (simp add: cmds_def push_cmds_def schedule_cmds_def key_simps)
  have "run_cmds db_redis (cmds t) (view (srv c)) = (Inr (), view (srv c1))"
    using simD [OF sim_run_cmds [OF wk] transmit_Inr [OF c1 [unfolded multi_exec_def]]] .
  then have ex: "exec (codec X) (r t) (view (srv c)) = view (srv c1)"
    by (simp add: r_def cmds_def split: if_splits)
  have "loaded X c1" using transmit_loaded [OF c1 [unfolded multi_exec_def] assms(2)] .
  then have "reached (view (srv c1)) (view (srv c2))"
    using keepsD [OF request_invariant.keeps_RecordCounter [OF reached_invariant], of "view (srv c1)" c1 kTasksEnqueuedTotal 1] c2
    by (simp add: conn_inv_def)
  then show ?thesis
    using good ex i by (intro exI [of _ "r t"]) (auto simp: r_def)
qed

end

section \<open>No accepted task is lost\<close>

text \<open>A task is accounted for when a queue holds a text with its identifier or a result is recorded.\<close>

definition accounted :: "text_ops \<Rightarrow> redis_db \<Rightarrow> string \<Rightarrow> bool" where
  "accounted T db i \<longleftrightarrow>
     i \<in> text_id T ` set (list_at db redis_kPending) \<or>
     i \<in> text_id T ` fst ` set (zset_at db redis_kDelayed) \<or>
     i \<in> fst ` set (hash_at db redis_kRunning) \<or>
     i \<in> text_id T ` set (list_at db redis_kDead) \<or>
     i \<in> fst ` set (hash_at db redis_kResults)"

lemma accounted_known: "accounted T db i \<longleftrightarrow> i \<in> known (abs_queue T db)"
  by (auto simp: accounted_def known_def abs_queue_def)

text \<open>
  What can happen to the server: a client runs an operation over a connection that may lose any
  of its messages, a single request of another client arrives in between (also the last one of
  a client that crashed), a heartbeat expires, or the script cache changes.
\<close>

inductive broker_step :: "'s ext \<Rightarrow> ('s \<Rightarrow> redis_db) \<Rightarrow> 's \<Rightarrow> 's \<Rightarrow> bool" for X view where
  step_call: "valid_call cl \<Longrightarrow> loaded X c \<Longrightarrow> broker_step X view (srv c) (srv (snd (run_call X cl c)))"
| step_other: "server_step (codec X) (view s) (view s') \<Longrightarrow> broker_step X view s s'"
| step_cache: "view s' = view s \<Longrightarrow> broker_step X view s s'"

lemma broker_steps_reach:
  assumes "external X view" and "(broker_step X view)\<^sup>*\<^sup>* s s'"
  shows "(server_step (codec X))\<^sup>*\<^sup>* (view s) (view s')"
  using assms(2)
proof (induction rule: rtranclp_induct)
  case base
  then show ?case by simp
next
  case (step s1 s2)
  have "(server_step (codec X))\<^sup>*\<^sup>* (view s1) (view s2)"
    using step(2) external.run_call_steps [OF assms(1)]
    by (induction rule: broker_step.induct) (auto intro: r_into_rtranclp)
  then show ?case using step.IH by (rule rtranclp_trans [rotated])
qed

lemma external_wire: "external X view \<Longrightarrow> wire_text (codec X)"
  by (simp add: external_def)

lemma steps_accounted:
  assumes "wire_text T" and "wf_db T db" and "(server_step T)\<^sup>*\<^sup>* db db'" and "accounted T db i"
  shows "accounted T db' i \<and> wf_db T db'"
  using wire_text.server_steps_sim [OF assms(1,3,2)] qsteps_known assms(4)
  unfolding accounted_known by blast

lemma exec_accounted:
  assumes "wire_text T" and "wf_db T db" and "valid_request T r"
    and "(\<exists>t. r = Push i t) \<or> (\<exists>t a. r = Schedule i t a)"
  shows "accounted T (exec T r db) i \<and> wf_db T (exec T r db)"
proof -
  have "wf_db T (exec T r db)"
    using wire_text.server_step_sim [OF assms(1) step_request [OF assms(3)] assms(2)]
    by (simp add: simulates_def)
  moreover have "accounted T (exec T r db) i"
    using assms(3,4)
    by (auto simp: accounted_def push_db schedule_db good_text_id set_zset_insert rev_image_eqI)
  ultimately show ?thesis by simp
qed

text \<open>
  C1: an accepted task is never lost. On a keyspace whose texts the scripts can read (\<open>wf_db\<close>), when
  \<open>Enqueue\<close> of a message with fields in range and a payload nested at most 998 deep (\<open>storable\<close>) has returned
  an identifier to some client, then after any number of operations of any clients, each over a connection that may lose
  requests and replies at will, with single requests of further clients in between, the task
  is still pending, delayed, running or dead, or its result is recorded; and every text in the
  queues is still one the scripts can read.
\<close>

theorem accepted_task_not_lost:
  assumes "external X view" and "wf_db (codec X) (view (srv c))" and "loaded X c" and "storable m"
    and "RedisBroker_Enqueue X bytes now m c = (Inr i, c')"
    and "(broker_step X view)\<^sup>*\<^sup>* (srv c') s"
  shows "accounted (codec X) (view s) (TaskId_Value i) \<and> wf_db (codec X) (view s)"
proof -
  note T = external_wire [OF assms(1)]
  obtain r where r: "valid_request (codec X) r"
    "(\<exists>t. r = Push (TaskId_Value i) t) \<or> (\<exists>t a. r = Schedule (TaskId_Value i) t a)"
    and steps: "(server_step (codec X))\<^sup>*\<^sup>* (exec (codec X) r (view (srv c))) (view (srv c'))"
    using external.Enqueue_executed [OF assms(1,4,3,5)] by blast
  have "(server_step (codec X))\<^sup>*\<^sup>* (exec (codec X) r (view (srv c))) (view s)"
    using steps broker_steps_reach [OF assms(1,6)] by (rule rtranclp_trans)
  then show ?thesis
    using exec_accounted [OF T assms(2) r] steps_accounted [OF T] by blast
qed

lemma rnd_2 [simp]: "rnd 2 = DFin 2"
  using rnd_int [of 2] by simp

lemma storable_sample: "storable sample_message"
  by (simp add: storable_def sample_message_def TaskMessage_Create_def in_range_message_def
      TaskMessage_default_def RetryPolicy_default_def in_i32_def in_i64_def smap_def
      lua_depth.simps(1))

lemma loaded_ref_conn [simp]: "loaded ref_ext (ref_conn db)"
  by (simp add: loaded_def ref_conn_def mem_redis_def)

interpretation ref_reach: request_invariant ref_ext fst
  "(server_step (codec ref_ext))\<^sup>*\<^sup>* db0" "valid_request (codec ref_ext)" for db0
  by (rule refx.reached_invariant)

end
