(* ===== verification/Broker_Effects.thy ===== *)
theory Broker_Effects
  imports Broker_Safety
begin

text \<open>
  What each queue operation of the broker does on a connection that loses nothing: its result
  and its effect on every key, up to the counters in the metrics hash (\<open>metrics_only\<close>).
\<close>

text \<open>Every value of the metrics hash is an integer in decimal.\<close>

definition metrics_ok :: "redis_db \<Rightarrow> bool" where
  "metrics_ok db \<longleftrightarrow> (\<forall>f t. map_of (hash_at db redis_kMetrics) f = Some t \<longrightarrow> (\<exists>v. stoll t = Inr v))"

definition metrics_only :: "redis_db \<Rightarrow> redis_db \<Rightarrow> bool" where
  "metrics_only db db' \<longleftrightarrow>
     list_at db' = list_at db \<and> zset_at db' = zset_at db \<and>
     (\<forall>k. k \<noteq> redis_kMetrics \<longrightarrow> hash_at db' k = hash_at db k) \<and>
     (metrics_ok db \<longrightarrow> metrics_ok db')"

lemma metrics_only_refl [simp]: "metrics_only db db"
  by (simp add: metrics_only_def)

lemma metrics_only_trans: "metrics_only a b \<Longrightarrow> metrics_only b c \<Longrightarrow> metrics_only a c"
  by (simp add: metrics_only_def)

lemma metrics_only_put:
  "in_i64 v \<Longrightarrow>
     metrics_only db (put_hash redis_kMetrics (AList.update f (to_string v) (hash_at db redis_kMetrics)) db)"
  by (auto simp: metrics_only_def metrics_ok_def split: if_splits)

lemma metrics_only_hincrby: "metrics_only db (snd (redis_sem (HINCRBY redis_kMetrics f d) db))"
  by (auto simp: metrics_only_put split: option.splits sum.splits)

lemma yields_catch_redis:
  "yields X view m db (Inr a) db1 \<Longrightarrow> yields X view (catch_redis m h) db (Inr a) db1"
  "yields X view m db (Inl (RedisError e)) db1 \<Longrightarrow> yields X view h db1 r db2 \<Longrightarrow>
     yields X view (catch_redis m h) db r db2"
  by (fastforce simp: yields_def catch_redis_def catch_io_def)+

lemma yields_then_fail:
  "yields X view m db (Inl e) db1 \<Longrightarrow> yields X view (then_io m n) db (Inl e) db1"
  by (simp add: then_io_def yields_bind_fail)

lemma bind_lift [simp]: "bind_io (lift_io (Inr a)) f = f a" "bind_io (lift_io (Inl e)) f = throw e"
  by (simp_all add: bind_io_def lift_io_def throw_def fun_eq_iff)

text \<open>The delayed tasks that are due at a time, in the order of their scores.\<close>

definition due :: "int \<Rightarrow> redis_db \<Rightarrow> (string \<times> rat) list" where
  "due now db = filter (\<lambda>p. snd p \<le> score_of now) (zset_at db redis_kDelayed)"

text \<open>\<open>marked_pending T ts\<close>: the status table after the given texts went back to the pending list.\<close>

definition marked_pending :: "text_ops \<Rightarrow> string list \<Rightarrow> redis_db \<Rightarrow> redis_db \<Rightarrow> bool" where
  "marked_pending T ts db db' \<longleftrightarrow>
     (\<forall>i. map_of (hash_at db' redis_kStatus) i =
          (if i \<in> text_id T ` set ts then Some ''pending'' else map_of (hash_at db redis_kStatus) i))"

text \<open>What the two loops of the scheduler do: all due tasks are promoted, the given ones reclaimed.\<close>

definition promotes :: "text_ops \<Rightarrow> int \<Rightarrow> redis_db \<Rightarrow> redis_db \<Rightarrow> bool" where
  "promotes T now db db' \<longleftrightarrow>
     zset_at db' redis_kDelayed = filter (\<lambda>p. \<not> snd p \<le> score_of now) (zset_at db redis_kDelayed) \<and>
     list_at db' redis_kPending =
       rev (map (\<lambda>p. recode T promoted_table (fst p)) (due now db)) @ list_at db redis_kPending \<and>
     list_at db' redis_kDead = list_at db redis_kDead \<and>
     (\<forall>k. k \<noteq> redis_kStatus \<longrightarrow> hash_at db' k = hash_at db k) \<and>
     marked_pending T (map fst (due now db)) db db'"

definition reclaims :: "text_ops \<Rightarrow> (string \<times> string) list \<Rightarrow> redis_db \<Rightarrow> redis_db \<Rightarrow> bool" where
  "reclaims T ps db db' \<longleftrightarrow>
     hash_at db' redis_kRunning = filter (\<lambda>p. fst p \<notin> fst ` set ps) (hash_at db redis_kRunning) \<and>
     list_at db' redis_kPending =
       rev (map (\<lambda>p. recode T reclaimed_table (snd p)) ps) @ list_at db redis_kPending \<and>
     list_at db' redis_kDead = list_at db redis_kDead \<and> zset_at db' = zset_at db \<and>
     (\<forall>k. k \<noteq> redis_kStatus \<and> k \<noteq> redis_kRunning \<longrightarrow> hash_at db' k = hash_at db k) \<and>
     marked_pending T (map snd ps) db db'"

text \<open>Entries of the running table with a reservation time, as the reclaim loop is given them.\<close>

definition running_entries :: "text_ops \<Rightarrow> redis_db \<Rightarrow> (string \<times> string) list \<Rightarrow> bool" where
  "running_entries T db ps \<longleftrightarrow> distinct (map fst ps) \<and>
     (\<forall>p \<in> set ps. map_of (hash_at db redis_kRunning) (fst p) = Some (snd p) \<and>
        reserved_at T (the (cj_decode T (snd p))) \<noteq> None)"

lemma promotes_none: "due now db = [] \<Longrightarrow> promotes T now db db"
  by (auto simp: promotes_def due_def marked_pending_def filter_id_conv filter_empty_conv)

lemma drop_key_due:
  assumes "distinct (map fst z)" and "filter Q z = (t, sc) # rest"
  shows "filter Q (filter (\<lambda>p. fst p \<noteq> t) z) = rest"
    and "filter (\<lambda>p. \<not> Q p) (filter (\<lambda>p. fst p \<noteq> t) z) = filter (\<lambda>p. \<not> Q p) z"
proof -
  have mem: "(t, sc) \<in> set z" "Q (t, sc)" using arg_cong [OF assms(2), of set] by auto
  have uniq: "p = (t, sc)" if "p \<in> set z" "fst p = t" for p
    using that mem(1) assms(1) by (metis eq_key_imp_eq_value prod.collapse)
  have "filter Q (filter (\<lambda>p. fst p \<noteq> t) z) = filter (\<lambda>p. fst p \<noteq> t) (filter Q z)"
    by (simp add: conj_commute)
  also have "\<dots> = filter (\<lambda>p. fst p \<noteq> t) rest" by (simp add: assms(2))
  also have "\<dots> = rest"
  proof -
    have "distinct (map fst (filter Q z))" using assms(1) by (rule distinct_map_filter)
    then show ?thesis by (auto simp: assms(2) filter_id_conv image_iff)
  qed
  finally show "filter Q (filter (\<lambda>p. fst p \<noteq> t) z) = rest" .
  show "filter (\<lambda>p. \<not> Q p) (filter (\<lambda>p. fst p \<noteq> t) z) = filter (\<lambda>p. \<not> Q p) z"
    using uniq mem(2) by (auto intro!: filter_cong)
qed

context external
begin

lemma yields_do: "well_keyed c \<Longrightarrow> redis_sem c db = (r, db') \<Longrightarrow> (\<And>e. r \<noteq> RErr e) \<Longrightarrow>
    yields X view (redis_do (rds X) c) db (Inr r) db'"
  by (rule yields_redis_do) (auto simp: run_cmd_db split: redis_reply.splits)

lemma yields_do_error: "well_keyed c \<Longrightarrow> redis_sem c db = (RErr e, db') \<Longrightarrow>
    yields X view (redis_do (rds X) c) db (Inl (RedisError e)) db'"
  by (rule yields_redis_do) (simp_all add: run_cmd_db)

text \<open>A command whose error reply is caught by a handler that always returns.\<close>

lemma yields_guarded:
  assumes "well_keyed c" and "metrics_only db (snd (redis_sem c db))"
    and "\<And>db1. metrics_only db db1 \<Longrightarrow> \<exists>db2. yields X view h db1 (Inr ()) db2 \<and> metrics_only db1 db2"
  shows "\<exists>db'. yields X view (catch_redis (then_io (redis_do (rds X) c) (ret ())) h) db (Inr ()) db' \<and>
    metrics_only db db'"
proof (cases "redis_sem c db")
  case (Pair r db1)
  then have m: "metrics_only db db1" using assms(2) by simp
  show ?thesis
  proof (cases "\<exists>e. r = RErr e")
    case True
    then obtain e where "r = RErr e" by blast
    then have err: "yields X view (redis_do (rds X) c) db (Inl (RedisError e)) db1"
      using yields_do_error [OF assms(1)] Pair by simp
    obtain db2 where "yields X view h db1 (Inr ()) db2" "metrics_only db1 db2"
      using assms(3) [OF m] by blast
    then show ?thesis
      using yields_catch_redis(2) [OF yields_then_fail [OF err]] metrics_only_trans [OF m] by blast
  next
    case False
    have ok: "yields X view (redis_do (rds X) c) db (Inr r) db1"
      by (rule yields_do [OF assms(1) Pair]) (use False in simp)
    show ?thesis
      using m by (intro exI [of _ db1] conjI yields_catch_redis(1) yields_then [OF ok yields_pure(1)])
  qed
qed

lemma yields_RecordRedisOperationError:
  "\<exists>db'. yields X view (RecordRedisOperationError X) db (Inr ()) db' \<and> metrics_only db db'"
  unfolding RecordRedisOperationError_def
  by (rule yields_guarded) (auto simp del: redis_sem.simps simp: metrics_only_hincrby key_simps)

lemma yields_RecordCounter:
  "\<exists>db'. yields X view (RecordCounter X name d) db (Inr ()) db' \<and> metrics_only db db'"
  unfolding RecordCounter_def
  by (rule yields_guarded [OF _ metrics_only_hincrby yields_RecordRedisOperationError])
    (simp add: key_simps)

text \<open>
  \<open>meters m db Q\<close>: on a connection without losses \<open>m\<close> changes metrics only and either returns a
  value with \<open>Q\<close> or throws an error of the client library.
\<close>

definition meters :: "('s conn, 'a) io \<Rightarrow> redis_db \<Rightarrow> ('a \<Rightarrow> bool) \<Rightarrow> bool" where
  "meters m db Q \<longleftrightarrow>
     (\<exists>r db'. yields X view m db r db' \<and> metrics_only db db' \<and>
        (case r of Inl e \<Rightarrow> \<exists>s. e = RedisError s | Inr a \<Rightarrow> Q a))"

lemma meters_ret: "Q a \<Longrightarrow> meters (ret a) db Q"
  unfolding meters_def by (intro exI [of _ "Inr a"] exI [of _ db]) (auto intro: yields_pure(1))

lemma meters_bind:
  assumes "meters m db Q" and "\<And>a db1. Q a \<Longrightarrow> metrics_only db db1 \<Longrightarrow> meters (f a) db1 R"
  shows "meters (bind_io m f) db R"
proof -
  obtain r db1 where m: "yields X view m db r db1" "metrics_only db db1"
    "case r of Inl e \<Rightarrow> \<exists>s. e = RedisError s | Inr a \<Rightarrow> Q a"
    using assms(1) by (auto simp: meters_def)
  show ?thesis
  proof (cases r)
    case (Inl e)
    then show ?thesis
      using m yields_bind_fail [of X view m db e db1 f] unfolding meters_def
      by (intro exI [of _ "Inl e"] exI [of _ db1]) simp
  next
    case (Inr a)
    then obtain r2 db2 where f: "yields X view (f a) db1 r2 db2" "metrics_only db1 db2"
      "case r2 of Inl e \<Rightarrow> \<exists>s. e = RedisError s | Inr a \<Rightarrow> R a"
      using assms(2) [of a db1] m by (auto simp: meters_def)
    then show ?thesis
      using yields_bind [of X view m db a db1 f, OF m(1) [unfolded Inr] f(1)] metrics_only_trans [OF m(2) f(2)]
      unfolding meters_def by blast
  qed
qed

lemma meters_then: "meters m db Q \<Longrightarrow> (\<And>db1. metrics_only db db1 \<Longrightarrow> meters n db1 R) \<Longrightarrow> meters (then_io m n) db R"
  unfolding then_io_def by (rule meters_bind)

lemma meters_do:
  assumes "well_keyed c" and "metrics_only db (snd (redis_sem c db))"
  shows "meters (redis_do (rds X) c) db (\<lambda>r. r = fst (redis_sem c db))"
proof (cases "redis_sem c db")
  case (Pair r db')
  show ?thesis
  proof (cases "\<exists>e. r = RErr e")
    case True
    then show ?thesis
      using yields_do_error [OF assms(1)] Pair assms(2) unfolding meters_def by fastforce
  next
    case False
    then have "yields X view (redis_do (rds X) c) db (Inr r) db'"
      using yields_do [OF assms(1) Pair] by blast
    then show ?thesis using Pair assms(2) unfolding meters_def by fastforce
  qed
qed

lemma meters_catch:
  assumes "meters m db (\<lambda>_ :: unit. True)"
  shows "\<exists>db'. yields X view (catch_redis m (RecordRedisOperationError X)) db (Inr ()) db' \<and>
    metrics_only db db'"
proof -
  obtain r db1 where m: "yields X view m db r db1" "metrics_only db db1"
    "case r of Inl e \<Rightarrow> \<exists>s. e = RedisError s | Inr a \<Rightarrow> True"
    using assms by (auto simp: meters_def)
  show ?thesis
  proof (cases r)
    case (Inl e)
    then obtain s where "r = Inl (RedisError s)" using m(3) by auto
    then show ?thesis
      using yields_RecordRedisOperationError [of db1] yields_catch_redis(2) m(1,2) metrics_only_trans by metis
  next
    case (Inr a)
    then show ?thesis using yields_catch_redis(1) m(1,2) by (metis old.unit.exhaust)
  qed
qed

lemma yields_RecordDurationMs:
  assumes "metrics_ok db" and "in_i64 d"
  shows "\<exists>db'. yields X view (RecordDurationMs X name d) db (Inr ()) db' \<and> metrics_only db db'"
  unfolding RecordDurationMs_def
proof (intro meters_catch meters_then)
  fix db1 db2 assume mo: "metrics_only db db1" "metrics_only db1 db2"
  let ?f = "HistogramMaxField name"
  have ok: "metrics_ok db2" using mo assms(1) by (simp add: metrics_only_def)
  show "meters (bind_io (redis_do (rds X) (HGET redis_kMetrics ?f)) (\<lambda>reply.
        bind_io (lift_io (as_optional_string reply)) (\<lambda>current_max.
        bind_io (case current_max of
                   None \<Rightarrow> ret True
                 | Some t \<Rightarrow> bind_io (lift_io (stoll t)) (\<lambda>v. ret (v < d))) (\<lambda>update.
        if update
        then then_io (redis_do (rds X) (HSET redis_kMetrics ?f (to_string d))) (ret ())
        else ret ())))) db2 (\<lambda>_. True)"
  proof (rule meters_bind [OF meters_do])
    fix r db3 assume r: "r = fst (redis_sem (HGET redis_kMetrics ?f) db2)" and "metrics_only db2 db3"
    have put: "meters (then_io (redis_do (rds X) (HSET redis_kMetrics ?f (to_string d))) (ret ())) db3 (\<lambda>_. True)"
      using metrics_only_put [OF assms(2), of db3 ?f]
      by (intro meters_then [OF meters_do] meters_ret) (simp_all add: key_simps)
    show "meters (bind_io (lift_io (as_optional_string r)) (\<lambda>current_max.
        bind_io (case current_max of
                   None \<Rightarrow> ret True
                 | Some t \<Rightarrow> bind_io (lift_io (stoll t)) (\<lambda>v. ret (v < d))) (\<lambda>update.
        if update
        then then_io (redis_do (rds X) (HSET redis_kMetrics ?f (to_string d))) (ret ())
        else ret ()))) db3 (\<lambda>_. True)"
    proof (cases "map_of (hash_at db2 redis_kMetrics) ?f")
      case None
      then show ?thesis using r put by simp
    next
      case (Some t)
      then obtain v where "stoll t = Inr v" using ok by (auto simp: metrics_ok_def)
      then show ?thesis using r put Some by (simp add: meters_ret)
    qed
  qed (auto simp: key_simps split: option.splits)
qed (rule meters_do; simp add: key_simps metrics_only_hincrby [simplified])+

lemma yields_then_counter:
  assumes "yields X view m db (Inr a) db1"
  shows "\<exists>db'. yields X view (then_io m (RecordCounter X name d)) db (Inr ()) db' \<and> metrics_only db1 db'"
  using yields_RecordCounter [of name d db1] yields_then [OF assms] by blast

lemma yields_script:
  assumes "sim (run_script X i keys args) n" and "n db = (Inr r, db')"
    and "g r = Inr a"
  shows "yields X view (bind_io (Eval X i keys args) (\<lambda>r. lift_io (g r))) db (Inr a) db'"
  using yields_bind [OF yields_Eval [OF assms(1,2)], of "\<lambda>r. lift_io (g r)"] assms(3)
    yields_pure(2) [of X view "Inr a"] by metis

section \<open>The scripts through the connection\<close>

abbreviation T :: text_ops where "T \<equiv> codec X"

lemma yields_Enqueue:
  assumes "dump T (TaskMessage_ToJson (stored_message bytes now m)) = Inr t"
  shows "\<exists>db'. yields X view (RedisBroker_Enqueue X bytes now m) db
      (Inr (m_id (stored_message bytes now m))) db' \<and>
    metrics_only (exec T (enqueue_request now (stored_message bytes now m) t) db) db'"
proof -
  let ?m = "stored_message bytes now m"
  let ?cmds = "if is_delayed now ?m then schedule_cmds (TaskId_Value (m_id ?m)) t (the (m_run_at_ms ?m))
            else push_cmds (TaskId_Value (m_id ?m)) t"
  let ?db1 = "exec T (enqueue_request now ?m t) db"
  have wk: "list_all well_keyed ?cmds" by (simp add: push_cmds_def schedule_cmds_def key_simps)
  have "run_cmds db_redis ?cmds db = (Inr (), ?db1)"
    by (simp add: push_db schedule_db enqueue_request_def)
  note tx = yields_multi_exec [OF wk this]
  obtain db2 where db2: "yields X view (RecordCounter X kTasksEnqueuedTotal 1) ?db1 (Inr ()) db2"
    "metrics_only ?db1 db2" using yields_RecordCounter by blast
  have "yields X view (RedisBroker_Enqueue X bytes now m) db (Inr (m_id ?m)) db2"
    unfolding Enqueue_stored Let_def assms bind_lift
    by (rule yields_then [OF tx yields_then [OF db2(1) yields_pure(1)]])
  with db2(2) show ?thesis by blast
qed

lemma yields_Ack:
  assumes "dump T (TaskResult_ToJson (TaskResult_Success empty_object)) = Inr t"
  shows "\<exists>db'. yields X view (RedisBroker_Ack X i) db (Inr ()) db' \<and>
    metrics_only (exec T (RunAck (TaskId_Value i) t) db) db'"
proof -
  have "yields X view (RedisScripts_Ack X (TaskId_Value i) t) db (Inr ()) (exec T (RunAck (TaskId_Value i) t) db)"
    unfolding RedisScripts_Ack_def
    by (rule yields_script [where r = "RInt 1" and n = "kAckScript (dbx T) redis_kRunning redis_kStatus
          redis_kResults redis_kFailures (TaskId_Value i) t (TaskStatusToString kSucceeded)"])
      (simp_all add: sim_kAck key_simps ack_db)
  from yields_then_counter [OF this, of kTasksCompletedTotal 1] show ?thesis
    using assms by (simp add: RedisBroker_Ack_def)
qed

lemma kFail_result:
  assumes "wf_db T db"
  shows "\<exists>db'. kFailScript (dbx T) redis_kRunning redis_kDead redis_kFailures redis_kStatus i reason st db =
    (Inr (RInt 1), db')"
  using assms fail_db_absent [of db i reason st]
  by (cases "map_of (hash_at db redis_kRunning) i") (auto simp: wf_db_def intro!: fail_db filedD)

lemma yields_Fail:
  assumes "wf_db T db"
  shows "\<exists>db'. yields X view (RedisBroker_Fail X i reason) db (Inr ()) db' \<and>
    metrics_only (exec T (RunFail (TaskId_Value i) reason) db) db'"
proof -
  have "yields X view (RedisScripts_Fail X (TaskId_Value i) reason) db (Inr ())
    (exec T (RunFail (TaskId_Value i) reason) db)"
    unfolding RedisScripts_Fail_def
    using kFail_result [OF assms, of "TaskId_Value i" reason "TaskStatusToString kDead"]
    by (intro yields_script [where r = "RInt 1" and n = "kFailScript (dbx T) redis_kRunning redis_kDead
          redis_kFailures redis_kStatus (TaskId_Value i) reason (TaskStatusToString kDead)"])
      (auto simp add: sim_kFail key_simps)
  from yields_then_counter [OF this] show ?thesis unfolding RedisBroker_Fail_def by blast
qed

lemma yields_Retry:
  assumes "retry_message now m reason = Inr m'" and "dump T (TaskMessage_ToJson m') = Inr t"
  shows "\<exists>db'. yields X view (RedisBroker_Retry X now m reason) db (Inr ()) db' \<and>
    metrics_only (exec T (RunRetry (TaskId_Value (m_id m)) t (the (m_run_at_ms m')) reason) db) db'"
proof -
  have "yields X view (RedisScripts_Retry X (TaskId_Value (m_id m)) t (the (m_run_at_ms m')) reason) db
    (Inr ()) (exec T (RunRetry (TaskId_Value (m_id m)) t (the (m_run_at_ms m')) reason) db)"
    unfolding RedisScripts_Retry_def
    by (rule yields_script [where r = "RInt 1" and n = "kRetryScript (dbx T) redis_kRunning redis_kDelayed
          redis_kStatus redis_kFailures (TaskId_Value (m_id m)) t (the (m_run_at_ms m')) reason
          (TaskStatusToString kRetrying)"])
      (simp_all add: sim_kRetry key_simps retry_db)
  from yields_then_counter [OF this, of kTasksRetriedTotal 1] show ?thesis
    using assms by (simp add: RedisBroker_Retry_def)
qed

lemma yields_RetryDeadTask:
  assumes "wf_db T db"
  shows "yields X view (RedisBroker_RetryDeadTask X i) db
    (Inr (if TaskId_Value i \<in> text_id T ` set (list_at db redis_kDead) then PR_Ok i
          else PR_Fail (TaskId '''') (''dead task not found: '' @ TaskId_Value i)))
    (exec T (RunRetryDeadTask (TaskId_Value i)) db)"
proof -
  define found where "found \<longleftrightarrow> TaskId_Value i \<in> text_id T ` set (list_at db redis_kDead)"
  have sound: "\<forall>t \<in> set (list_at db redis_kDead). sound_text T t" using assms by (simp add: wf_db_def)
  have "find (\<lambda>t. text_id T t = TaskId_Value i) (list_at db redis_kDead) = None \<longleftrightarrow> \<not> found"
    by (auto simp: find_None_iff found_def) (metis imageI)
  then have res: "kRetryDeadTaskScript (dbx T) redis_kDead redis_kPending redis_kStatus redis_kFailures
      (TaskId_Value i) db =
    (Inr (RInt (if found then 1 else 0)), exec T (RunRetryDeadTask (TaskId_Value i)) db)"
    by (cases "find (\<lambda>t. text_id T t = TaskId_Value i) (list_at db redis_kDead)")
      (simp_all add: retry_dead_db [OF sound])
  have "yields X view (RedisScripts_RetryDeadTask X (TaskId_Value i)) db (Inr found)
    (exec T (RunRetryDeadTask (TaskId_Value i)) db)"
    unfolding RedisScripts_RetryDeadTask_def
    using res
    by (intro yields_script [where r = "RInt (if found then 1 else 0)" and n = "kRetryDeadTaskScript (dbx T)
          redis_kDead redis_kPending redis_kStatus redis_kFailures (TaskId_Value i)"])
      (simp_all add: sim_kRetryDeadTask key_simps)
  then show ?thesis
    unfolding RedisBroker_RetryDeadTask_def found_def [symmetric]
    by (rule yields_bind) (auto intro: yields_pure(1))
qed

lemma yields_Reserve_empty:
  assumes "list_at db redis_kPending = []"
  shows "yields X view (RedisBroker_Reserve X now) db (Inr None) db"
proof -
  have "yields X view (RedisScripts_Reserve X now) db (Inr None) db"
    unfolding RedisScripts_Reserve_def
    using reserve_db_empty [OF assms]
    by (intro yields_script [where r = RNil
          and n = "kReserveScript (dbx T) redis_kPending redis_kRunning redis_kStatus now"])
      (simp_all add: sim_kReserve key_simps)
  then show ?thesis unfolding RedisBroker_Reserve_def by (rule yields_bind) (simp add: yields_pure(1))
qed

lemma yields_Reserve:
  assumes "list_at db redis_kPending = p @ [t]" and "good_text T i t" and "in_i64 now"
    and "TaskMessageFromJsonString T (recode T (running_table now) t) = Inr res"
  shows "yields X view (RedisBroker_Reserve X now) db
    (Inr (if pr_Ok res then Some (pr_value res) else None)) (exec T (RunReserve now) db)"
proof -
  have "yields X view (RedisScripts_Reserve X now) db (Inr (Some (recode T (running_table now) t)))
    (exec T (RunReserve now) db)"
    unfolding RedisScripts_Reserve_def
    using reserve_db [OF assms(1-3)]
    by (intro yields_script [where r = "RBulk (recode T (running_table now) t)"
          and n = "kReserveScript (dbx T) redis_kPending redis_kRunning redis_kStatus now"])
      (simp_all add: sim_kReserve key_simps)
  then show ?thesis
    unfolding RedisBroker_Reserve_def
    by (rule yields_bind) (auto simp: assms(4) intro!: yields_lift_bind yields_pure(1))
qed

section \<open>The two loops\<close>

lemma yields_PromoteOne:
  assumes "wf_db T db"
  shows "yields X view (RedisScripts_PromoteOneDueTask X now) db
    (Inr (if due now db = [] then 0 else 1)) (exec T (RunPromoteOne now) db)"
proof (cases "due now db")
  case Nil
  then show ?thesis
    unfolding RedisScripts_PromoteOneDueTask_def
    using promote_db_none [of now db "TaskStatusToString kPending"]
    by (intro yields_script [where r = "RInt 0" and n = "kPromoteOneScript (dbx T) redis_kDelayed
          redis_kPending redis_kStatus now (TaskStatusToString kPending)"])
      (simp_all add: sim_kPromoteOne key_simps due_def to_i32_def in_i32_def)
next
  case (Cons p rest)
  obtain t sc where p: "p = (t, sc)" by (cases p)
  have "(t, sc) \<in> set (zset_at db redis_kDelayed)"
    using arg_cong [OF Cons [unfolded due_def], of set] p by auto
  then have "good_text T (text_id T t) t" using assms by (fastforce simp: wf_db_def sound_text_def)
  from promote_db [OF Cons [unfolded due_def p] this, of "TaskStatusToString kPending"] Cons show ?thesis
    unfolding RedisScripts_PromoteOneDueTask_def
    by (intro yields_script [where r = "RInt 1" and n = "kPromoteOneScript (dbx T) redis_kDelayed
          redis_kPending redis_kStatus now (TaskStatusToString kPending)"])
      (simp_all add: sim_kPromoteOne key_simps to_i32_def in_i32_def)
qed

lemma promotes_Cons:
  assumes "wf_db T db" and "due now db = p # rest"
  defines "db1 \<equiv> exec T (RunPromoteOne now) db"
  shows "due now db1 = rest" and "promotes T now db1 db' \<Longrightarrow> promotes T now db db'"
proof -
  obtain t sc where p: "p = (t, sc)" by (cases p)
  note head = assms(2) [unfolded due_def p]
  have "(t, sc) \<in> set (zset_at db redis_kDelayed)" using arg_cong [OF head, of set] by auto
  then have "good_text T (text_id T t) t" using assms(1) by (fastforce simp: wf_db_def sound_text_def)
  note eff = promote_db [OF head this, of "''pending''"]
  have "distinct (map fst (zset_at db redis_kDelayed))" using assms(1) by (simp add: wf_db_def)
  note drop = drop_key_due [OF this head]
  show due1: "due now db1 = rest" using drop(1) by (simp add: due_def db1_def eff)
  assume pr: "promotes T now db1 db'"
  have "zset_at db' redis_kDelayed = filter (\<lambda>p. \<not> snd p \<le> score_of now) (zset_at db redis_kDelayed)"
    using pr drop(2) by (simp add: promotes_def db1_def eff)
  moreover have "marked_pending T (map fst (due now db)) db db'"
    using pr unfolding promotes_def due1 by (simp add: marked_pending_def assms(2) p db1_def eff)
  ultimately show "promotes T now db db'"
    using pr unfolding promotes_def due1 by (auto simp: db1_def eff assms(2) p key_simps)
qed

lemma promote_loop_none:
  assumes "wf_db T db" and "due now db = []"
  shows "yields X view (promote_loop X (Suc fuel) now) db (Inr (Some ())) db"
proof -
  have "yields X view (RedisScripts_PromoteOneDueTask X now) db (Inr 0) db"
    using yields_PromoteOne [OF assms(1), of now] assms(2) by (simp add: due_def promote_db_none)
  then show ?thesis unfolding promote_loop.simps by (rule yields_bind) (simp add: yields_pure(1))
qed

lemma promote_loop_promotes:
  "wf_db T db \<Longrightarrow> length (due now db) < fuel \<Longrightarrow>
   \<exists>db'. yields X view (promote_loop X fuel now) db (Inr (Some ())) db' \<and> wf_db T db' \<and> promotes T now db db'"
proof (induction fuel arbitrary: db)
  case 0
  then show ?case by simp
next
  case (Suc fuel)
  note one = yields_PromoteOne [OF Suc.prems(1), of now]
  let ?db1 = "exec T (RunPromoteOne now) db"
  show ?case
  proof (cases "due now db")
    case Nil
    then show ?thesis using promote_loop_none [OF Suc.prems(1)] Suc.prems(1) promotes_none by blast
  next
    case (Cons p rest)
    note step = promotes_Cons [OF Suc.prems(1) Cons]
    have "wf_db T ?db1" using implements_RunPromoteOne [OF Suc.prems(1)] by (simp add: implements_def)
    with Suc.IH [of ?db1] step(1) Suc.prems(2) Cons obtain db' where
      db': "yields X view (promote_loop X fuel now) ?db1 (Inr (Some ())) db'" "wf_db T db'" "promotes T now ?db1 db'"
      by auto
    have "yields X view (promote_loop X (Suc fuel) now) db (Inr (Some ())) db'"
      unfolding promote_loop.simps using one by (rule yields_bind) (use Cons db'(1) in simp)
    then show ?thesis using db'(2) step(2) [OF db'(3)] by blast
  qed
qed

lemmas promote_loop_effect = promote_loop_promotes [unfolded promotes_def]

lemma yields_ReclaimOne:
  assumes "wf_db T db" and "map_of (hash_at db redis_kRunning) i = Some t"
    and "reserved_at T (the (cj_decode T t)) \<noteq> None"
  shows "yields X view (RedisScripts_ReclaimOneStaleTask X i now timeout) db
    (Inr (if is_stale T now timeout t then 1 else 0)) (exec T (RunReclaimOne i now timeout) db)"
proof -
  have good: "good_text T i t" using assms(1,2) by (auto simp: wf_db_def intro: filedD)
  obtain v where v: "cj_decode T t = Some v" "task_table i v" using good_textE [OF good] .
  let ?n = "kReclaimOneScript (dbx T) redis_kRunning redis_kPending redis_kStatus i now timeout"
  have "?n db = (Inr (RInt (if is_stale T now timeout t then 1 else 0)), exec T (RunReclaimOne i now timeout) db)"
  proof (cases "is_stale T now timeout t")
    case True
    then show ?thesis by (simp add: reclaim_db_stale [OF assms(2) good])
  next
    case False
    obtain d where d: "reserved_at T v = Some d" using assms(3) v(1) by auto
    have le: "dle (dsub (double_of_int now) d) (double_of_int timeout)"
      using False v(1) d by (simp add: is_stale_def)
    have "truthy (lget v ''reserved_at_ms'')" and "tonumber (dbx T) (lget v ''reserved_at_ms'') = ret d"
      using d by (auto simp: reserved_at_def split: lua.splits)
    then show ?thesis
      using assms(2) v False le task_tableD [OF v(2)] by (simp add: kReclaimOneScript_def on_db)
  qed
  then show ?thesis
    unfolding RedisScripts_ReclaimOneStaleTask_def
    by (intro yields_script [where r = "RInt (if is_stale T now timeout t then 1 else 0)" and n = ?n])
      (simp_all add: sim_kReclaimOne key_simps to_i32_def in_i32_def)
qed

lemma reclaims_Cons:
  assumes "wf_db T db" and "map_of (hash_at db redis_kRunning) i = Some t" and "is_stale T now timeout t"
    and "reclaims T ps (exec T (RunReclaimOne i now timeout) db) db'"
  shows "reclaims T ((i, t) # ps) db db'"
proof -
  have good: "good_text T i t" using assms(1,2) by (auto simp: wf_db_def intro: filedD)
  note eff = reclaim_db_stale [OF assms(2) good assms(3)]
  have "hash_at db' redis_kRunning =
      filter (\<lambda>q. fst q \<notin> fst ` set ((i, t) # ps)) (hash_at db redis_kRunning)"
    using assms(4) by (simp add: reclaims_def eff key_simps AList.delete_eq) (rule filter_cong; auto)
  moreover have "marked_pending T (map snd ((i, t) # ps)) db db'"
    using assms(4) good_text_id [OF good] by (auto simp: reclaims_def marked_pending_def eff)
  ultimately show ?thesis using assms(4) by (auto simp: reclaims_def eff key_simps)
qed

lemma running_entries_next:
  assumes "wf_db T db" and "running_entries T db ((i, t) # ps)"
  shows "running_entries T (exec T (RunReclaimOne i now timeout) db) ps"
proof -
  have run: "map_of (hash_at db redis_kRunning) i = Some t" and notin: "\<forall>q \<in> set ps. fst q \<noteq> i"
    using assms(2) by (auto simp: running_entries_def rev_image_eqI)
  have good: "good_text T i t" using assms(1) run by (auto simp: wf_db_def intro: filedD)
  show ?thesis
  proof (cases "is_stale T now timeout t")
    case True
    then show ?thesis
      using assms(2) notin by (simp add: running_entries_def reclaim_db_stale [OF run good] key_simps)
  next
    case False
    then show ?thesis
      using assms(2) run reclaim_db_other [of db i now timeout] by (simp add: running_entries_def)
  qed
qed

lemma reclaim_loop_reclaims:
  fixes ps :: "(string \<times> string) list" and now timeout :: int
  defines "stale \<equiv> \<lambda>p :: string \<times> string. is_stale T now timeout (snd p)"
  shows "wf_db T db \<Longrightarrow> running_entries T db ps \<Longrightarrow>
    \<exists>db'. yields X view (reclaim_loop X now timeout n ps) db
      (Inr (n + int (length (filter stale ps)))) db' \<and> wf_db T db' \<and> reclaims T (filter stale ps) db db'"
proof (induction ps arbitrary: n db)
  case Nil
  then show ?case by (auto simp: reclaims_def marked_pending_def intro!: exI [of _ db] yields_pure(1))
next
  case (Cons p ps)
  obtain i t where p: "p = (i, t)" by (cases p)
  let ?db1 = "exec T (RunReclaimOne i now timeout) db" and ?n = "n + (if stale p then 1 else 0)"
  have run: "map_of (hash_at db redis_kRunning) i = Some t" "reserved_at T (the (cj_decode T t)) \<noteq> None"
    using Cons.prems(2) by (simp_all add: p running_entries_def)
  have db1: "?db1 = db" if "\<not> stale p"
    using reclaim_db_other [of db i now timeout] that run by (simp add: stale_def p)
  have "wf_db T ?db1" using implements_RunReclaimOne [OF Cons.prems(1)] by (simp add: implements_def)
  then obtain db' where db': "yields X view (reclaim_loop X now timeout ?n ps) ?db1
      (Inr (?n + int (length (filter stale ps)))) db'" "wf_db T db'" "reclaims T (filter stale ps) ?db1 db'"
    using Cons.IH running_entries_next [OF Cons.prems(1) Cons.prems(2) [unfolded p]] by blast
  have count: "n + int (length (filter stale (p # ps))) = ?n + int (length (filter stale ps))" by simp
  have "yields X view (reclaim_loop X now timeout n (p # ps)) db (Inr (n + int (length (filter stale (p # ps))))) db'"
    unfolding count unfolding reclaim_loop.simps p fst_conv
    using yields_ReclaimOne [OF Cons.prems(1) run, of now timeout]
    by (rule yields_bind) (use db'(1) in \<open>simp add: stale_def p del: exec.simps split: if_splits\<close>)
  moreover have "reclaims T (filter stale (p # ps)) db db'"
  proof (cases "stale p")
    case True
    then show ?thesis using reclaims_Cons [OF Cons.prems(1) run(1) _ db'(3)] by (simp add: stale_def p)
  next
    case False
    then show ?thesis using db'(3) db1 by (simp del: exec.simps)
  qed
  ultimately show ?case using db'(2) by blast
qed

end

end
