(* ===== verification/Delivery.thy ===== *)
theory Delivery
  imports Broker_Effects
begin

text \<open>
  A message on its way from \<open>Enqueue\<close> to \<open>Reserve\<close>: the text the C++ side writes is decoded,
  edited and encoded by a Lua script and parsed again by the C++ side. For messages whose
  numbers survive the encoder the worker receives what was enqueued.
\<close>

section \<open>Parsing depends on the fields only\<close>

lemma message_of_fields:
  assumes "is_object j" and "\<And>k. k \<noteq> ''retry_policy'' \<Longrightarrow> json_find j k = json_find (TaskMessage_ToJson m) k"
    and "json_find j ''retry_policy'' = Some pj" and "RetryPolicyFromJson pj = PR_Ok (m_retry_policy m)"
    and "wire_message m"
  shows "TaskMessageFromJson j = PR_Ok m"
proof -
  note f = assms(2) [THEN trans, OF _ find_TaskMessage_ToJson]
  have v: "ParseTaskSchemaVersion j = PR_Ok 1"
    by (simp add: ParseTaskSchemaVersion_def contains_def f json_at_def kTaskSchemaVersion_def in_i32_def)
  have o: "optional_int64 j ''run_at_ms'' e = PR_Ok (m_run_at_ms m)"
    "optional_int64 j ''reserved_at_ms'' e = PR_Ok (m_reserved_at_ms m)"
    "optional_string j ''last_error'' = PR_Ok (m_last_error m)" for e
    using assms(5)
    by (auto simp: wire_message_def in_range_message_def optional_int64_def optional_string_def
        contains_def f json_at_def ParseStringField_def RequireField_def split: option.splits)
  show ?thesis
    using assms(1,3,4,5) unfolding wire_message_def in_range_message_def
    by (cases m) (simp add: TaskMessageFromJson_def v o parse_field_simps f contains_def json_at_def)
qed

section \<open>Fields of an edited table\<close>

definition object_table :: "lua \<Rightarrow> bool" where
  "object_table v \<longleftrightarrow> (\<exists>fs. v = LTable fs [] \<and> smap fs)"

lemma object_table_lset: "object_table v \<Longrightarrow> object_table (lset k x v)"
  by (auto simp: object_table_def)

lemma map_of_fields: "map_of (map (\<lambda>(k, v). (k, f v)) kvs) k = map_option f (map_of kvs k)"
  by (induction kvs) auto

lemma find_lset:
  "object_table v \<Longrightarrow> json_find (json_of_lua (lset k x v)) k' =
     (if k' = k then (if x = LNil then None else Some (json_of_lua x))
      else json_find (json_of_lua v) k')"
  by (auto simp: object_table_def json_find_def map_of_fields)

definition relua :: "json \<Rightarrow> json" where
  "relua j = json_of_lua (lua_of_json j)"

lemma find_relua: "is_object j \<Longrightarrow> json_find (relua j) k = map_option relua (json_find j k)"
proof (cases j)
  case (JObject kvs)
  have "relua j = JObject (map (\<lambda>(k, v). (k, relua v)) kvs)"
    by (auto simp: JObject relua_def)
  then show ?thesis by (simp add: JObject json_find_def map_of_fields)
qed auto

lemma relua_simps [simp]:
  "relua (JString s) = JString s" "\<bar>i\<bar> < 2 ^ 53 \<Longrightarrow> relua (JInt i) = JInt i"
  "is_object j \<Longrightarrow> is_object (relua j)"
  by (simp_all add: relua_def double_of_int_exact) (cases j; simp)

lemma ParseDoubleField_relua:
  assumes "is_object j" and "json_find j k = Some (JFloat (DFin q))" and "rnd q = DFin q"
  shows "ParseDoubleField (relua j) k = PR_Ok (DFin q)"
proof (cases "q = of_int \<lfloor>q\<rfloor>")
  case True
  then have "double_of_int \<lfloor>q\<rfloor> = DFin q" using assms(3) by (simp add: double_of_int_def)
  moreover have "relua (JFloat (DFin q)) = JInt \<lfloor>q\<rfloor>" using True by (simp add: relua_def)
  ultimately show ?thesis using assms(1,2) by (simp add: field_defs find_relua json_at_def)
next
  case False
  then have "relua (JFloat (DFin q)) = JFloat (DFin q)" by (simp add: relua_def)
  then show ?thesis using assms(1,2) by (simp add: field_defs find_relua json_at_def)
qed

definition small :: "int \<Rightarrow> bool" where
  "small i \<longleftrightarrow> \<bar>i\<bar> < 10 ^ 14"

lemma small_53: "small i \<Longrightarrow> \<bar>i\<bar> < 2 ^ 53"
  by (simp add: small_def)

lemma in_i32_53: "in_i32 i \<Longrightarrow> \<bar>i\<bar> < 2 ^ 53"
  by (auto simp: in_i32_def)

lemma small_i64: "small i \<Longrightarrow> in_i64 i"
  by (auto simp: small_def in_i64_def)

lemma RetryPolicy_relua:
  assumes "in_i32 (max_retries p)" and "small (base_delay_ms p)"
    and "multiplier p = DFin q" and "rnd q = DFin q" and "pr_Ok (ValidateRetryPolicy p)"
  shows "RetryPolicyFromJson (relua (RetryPolicy_ToJson p)) = PR_Ok p"
proof -
  let ?j = "RetryPolicy_ToJson p"
  have obj: "is_object ?j" by (simp add: RetryPolicy_ToJson_def)
  have f: "json_find ?j ''max_retries'' = Some (JInt (max_retries p))"
    "json_find ?j ''base_delay_ms'' = Some (JInt (base_delay_ms p))"
    "json_find ?j ''multiplier'' = Some (JFloat (DFin q))"
    using assms(3) by (simp_all add: RetryPolicy_ToJson_def)
  have b: "in_i64 (base_delay_ms p)" using assms(2) by (rule small_i64)
  have "ParseIntField (relua ?j) ''max_retries'' = PR_Ok (max_retries p)"
    using f(1) obj in_i32_53 [OF assms(1)] assms(1) by (simp add: parse_field_simps find_relua)
  moreover have "ParseInt64Field (relua ?j) ''base_delay_ms'' = PR_Ok (base_delay_ms p)"
    using f(2) obj small_53 [OF assms(2)] b by (simp add: parse_field_simps find_relua)
  moreover have "ParseDoubleField (relua ?j) ''multiplier'' = PR_Ok (DFin q)"
    by (rule ParseDoubleField_relua [OF obj f(3) assms(4)])
  ultimately show ?thesis
    using assms(3,5) obj by (cases p) (simp add: RetryPolicyFromJson_def Let_def)
qed

text \<open>
  Messages that reach the worker unchanged: well-formed, with times and delays below
  \<open>10^14\<close> ms, a multiplier and payload numbers the encoder writes exactly, and a payload
  without the values Lua cannot tell apart (an empty array is an empty object there, a
  floating-point value with no fraction an integer).
\<close>

definition deliverable :: "TaskMessage \<Rightarrow> bool" where
  "deliverable m \<longleftrightarrow>
     wire_message m \<and> json_wf (m_payload m) \<and> lua_all exact_num (lua_of_json (m_payload m)) \<and>
     lua_depth (lua_of_json (m_payload m)) \<le> 998 \<and> relua (m_payload m) = m_payload m \<and>
     (\<exists>q. multiplier (m_retry_policy m) = DFin q \<and> rnd q = DFin q \<and> exact_num q) \<and>
     small (base_delay_ms (m_retry_policy m)) \<and> small (m_created_at_ms m) \<and>
     pred_option small (m_run_at_ms m) \<and> pred_option small (m_reserved_at_ms m)"

lemma deliverable_storable: "deliverable m \<Longrightarrow> storable m"
  by (auto simp: deliverable_def storable_def wire_message_def)

lemma exact_small: "small i \<Longrightarrow> exact_num (of_int i)"
proof -
  assume s: "small i"
  have "\<bar>of_int i :: rat\<bar> < of_int (10 ^ 14)"
    using s unfolding small_def of_int_abs [symmetric] of_int_less_iff .
  then show ?thesis by (simp add: exact_num_def)
qed

lemma flat_small: "small i \<Longrightarrow> flat exact_num n (JInt i)"
  using small_53 [of i] exact_small [of i]
  by (simp add: flat_def double_of_int_exact) (auto simp: small_def)

lemma small_i32: "in_i32 i \<Longrightarrow> small i"
  by (auto simp: in_i32_def small_def)

lemma deliverable_flat:
  assumes "deliverable m"
  shows "flat exact_num 1000 (TaskMessage_ToJson m)"
proof (rule flat_message_json)
  obtain q where q: "multiplier (m_retry_policy m) = DFin q" "rnd q = DFin q" "exact_num q"
    using assms by (auto simp: deliverable_def)
  have "flat exact_num 999 (m_payload m)" using assms by (simp add: deliverable_def flat_def)
  moreover have "in_i32 (m_retry_count m)" "in_i32 (max_retries (m_retry_policy m))"
    using assms by (simp_all add: deliverable_def wire_message_def in_range_message_def)
  moreover have "flat exact_num n (JInt 1)" for n by (rule flat_small) (simp add: small_def)
  ultimately show "flat_message exact_num m"
    using assms q
    by (auto simp: deliverable_def flat_message_def flat_small small_i32
        elim!: option.pred_mono_strong)
qed

section \<open>The reserved message\<close>

definition reserved_message :: "int \<Rightarrow> TaskMessage \<Rightarrow> TaskMessage" where
  "reserved_message now m = m\<lparr>m_status := kRunning, m_reserved_at_ms := Some now\<rparr>"

lemma message_object: "\<exists>kvs. TaskMessage_ToJson m = JObject kvs"
  using is_object_TaskMessage_ToJson [of m] by (cases "TaskMessage_ToJson m") auto

lemma relua_fields:
  assumes "deliverable m" and "k \<noteq> ''retry_policy''"
  shows "map_option relua (json_find (TaskMessage_ToJson m) k) = json_find (TaskMessage_ToJson m) k"
proof -
  have i: "relua (JInt i) = JInt i" if "small i" for i using small_53 [OF that] by simp
  have "small (m_retry_count m)" "small 1"
    using assms(1) small_i32 by (auto simp: deliverable_def wire_message_def in_range_message_def small_def)
  then have nums: "relua (JInt (m_retry_count m)) = JInt (m_retry_count m)" "relua (JInt 1) = JInt 1"
    "relua (JInt (m_created_at_ms m)) = JInt (m_created_at_ms m)" "relua (m_payload m) = m_payload m"
    using assms(1) i by (simp_all only: deliverable_def)
  have times: "map_option (\<lambda>x. relua (JInt x)) t = map_option JInt t" if "pred_option small t" for t
    using that i by (cases t) (simp_all only: option.map option.pred_inject)
  have "pred_option small (m_run_at_ms m)" "pred_option small (m_reserved_at_ms m)"
    using assms(1) by (simp_all add: deliverable_def)
  note times [OF this(1)] times [OF this(2)]
  with assms(2) nums show ?thesis
    by (simp add: find_TaskMessage_ToJson kTaskSchemaVersion_def option.map_comp comp_def del: relua_simps(2))
qed

lemma running_message_parses:
  assumes "deliverable m" and "small now"
  shows "TaskMessageFromJson (json_of_lua (running_table now (lua_of_json (TaskMessage_ToJson m)))) =
    PR_Ok (reserved_message now m)"
proof (rule message_of_fields)
  let ?v = "lua_of_json (TaskMessage_ToJson m)"
  obtain kvs where kvs: "TaskMessage_ToJson m = JObject kvs" using message_object by blast
  have "smap kvs" using deliverable_flat [OF assms(1)] by (simp add: kvs flat_def)
  then have obj: "object_table ?v" by (auto simp: kvs object_table_def smap_lua_fields)
  have find: "json_find (json_of_lua (running_table now ?v)) k =
    (if k = ''reserved_at_ms'' then Some (JInt now) else if k = ''status'' then Some (JString ''running'')
     else map_option relua (json_find (TaskMessage_ToJson m) k))" for k
  proof -
    have "json_find (json_of_lua ?v) k = map_option relua (json_find (TaskMessage_ToJson m) k)"
      using find_relua [OF is_object_TaskMessage_ToJson, of m k] unfolding relua_def [of "TaskMessage_ToJson m"] .
    moreover have "double_of_int now = DFin (of_int now)"
      by (rule double_of_int_exact [OF small_53 [OF assms(2)]])
    ultimately show ?thesis by (simp add: running_table_def find_lset obj object_table_lset)
  qed
  show "is_object (json_of_lua (running_table now ?v))"
    using obj by (auto simp: running_table_def object_table_def)
  show "json_find (json_of_lua (running_table now ?v)) k =
    json_find (TaskMessage_ToJson (reserved_message now m)) k" if "k \<noteq> ''retry_policy''" for k
    unfolding find relua_fields [OF assms(1) that]
    by (simp add: find_TaskMessage_ToJson reserved_message_def)
  show "json_find (json_of_lua (running_table now ?v)) ''retry_policy'' =
    Some (relua (RetryPolicy_ToJson (m_retry_policy m)))"
    unfolding find by (simp add: find_TaskMessage_ToJson)
  obtain q where "multiplier (m_retry_policy m) = DFin q" "rnd q = DFin q"
    using assms(1) by (auto simp: deliverable_def)
  then show "RetryPolicyFromJson (relua (RetryPolicy_ToJson (m_retry_policy m))) =
    PR_Ok (m_retry_policy (reserved_message now m))"
    using assms(1) RetryPolicy_relua [of "m_retry_policy m" q]
    by (simp add: deliverable_def wire_message_def in_range_message_def reserved_message_def)
  show "wire_message (reserved_message now m)"
    using assms small_i64 [OF assms(2)]
    by (simp add: deliverable_def wire_message_def in_range_message_def reserved_message_def)
qed

context external
begin

lemma running_text_parses:
  assumes "deliverable m" and "small now" and "dump T (TaskMessage_ToJson m) = Inr t"
  shows "TaskMessageFromJsonString T (recode T (running_table now) t) = Inr (PR_Ok (reserved_message now m))"
proof -
  let ?v = "lua_of_json (TaskMessage_ToJson m)"
  have flat: "json_wf (TaskMessage_ToJson m)" "lua_all exact_num ?v" "lua_depth ?v \<le> 1000"
    using deliverable_flat [OF assms(1)] by (auto simp: flat_def)
  have dec: "cj_decode T t = Some ?v" by (rule decode_dump [OF assms(3) flat(1,3)])
  obtain fs where fs: "?v = LTable fs []" using message_object [of m] by auto
  have now: "lua_all exact_num (LNum (double_of_int now))" "lua_depth (LNum (double_of_int now)) \<le> 999"
    using small_53 [OF assms(2)] exact_small [OF assms(2)] by (simp_all add: double_of_int_exact)
  obtain fs' where fs': "lset ''status'' (LStr ''running'') (LTable fs []) = LTable fs' []" by simp
  have st: "lua_all exact_num (LTable fs' [])" "lua_depth (LTable fs' []) \<le> 1000"
    unfolding fs' [symmetric] using flat(2,3) unfolding fs
    by (intro lua_all_lset lua_depth_lset; simp)+
  have "wire_exact (running_table now ?v)"
    unfolding wire_exact_def running_table_def fs fs'
    using lua_all_lset [OF st(1) disjI2 [OF now(1)]] lua_depth_lset [OF st(2) now(2)] by blast
  from encode_exact [OF this] have "parse T (recode T (running_table now) t) = Inr (json_of_lua (running_table now ?v))"
    by (auto simp: recode_def dec)
  then show ?thesis
    using running_message_parses [OF assms(1,2)] by (simp add: TaskMessageFromJsonString_def)
qed

lemma yields_Reserve_message:
  assumes "list_at db redis_kPending = p @ [t]" and "dump T (TaskMessage_ToJson m) = Inr t"
    and "deliverable m" and "small now"
  shows "yields X view (RedisBroker_Reserve X now) db (Inr (Some (reserved_message now m)))
    (exec T (RunReserve now) db)"
  using yields_Reserve [OF assms(1) storable_text [OF deliverable_storable [OF assms(3)] assms(2)]
      small_i64 [OF assms(4)] running_text_parses [OF assms(3,4,2)]] by simp

end

end
