(* ===== verification/Broker_Theorems.thy ===== *)
theory Broker_Theorems
  imports Delivery
begin

text \<open>
  The properties of the Redis broker, stated for every server and codec that meet the contract
  \<open>external\<close>, each with an instance on the in-memory server and the reference codec.
\<close>

lemma connectedE:
  assumes "external X view" and "yields X view m db r db'" and "connected X view c db"
  obtains c' where "m c = (r, c')" "connected X view c' db'"
  using assms(2,3) by (auto simp: yields_def)

lemma ref_dump [simp]: "dump ref_text j = Inr (ser j)"
  by (simp add: ref_text_def)

section \<open>Refinement of the abstract queue\<close>

text \<open>
  C3: the broker implements the abstract queue, operation by operation. Whatever valid requests
  reach the server in whatever order, and whenever heartbeats expire, all stored texts stay
  readable and the queues, seen as lists and sets of identifiers, end as if the operations that
  belong to the requests (\<open>qop_of\<close>) had been applied one after the other (\<open>qapply\<close>): a reservation
  moves the last pending task to the running ones, a promotion moves the first due task to the head
  of the pending list, a reclaim moves the named task there exactly if it is running and stale, and
  so on for retries, failures, acknowledgements and revived dead tasks. Metrics, heartbeats and
  reads change nothing.
\<close>

theorem requests_refine_queue:
  assumes "wire_text T" and "wf_db T db" and "\<forall>e \<in> set es. valid_event T e"
  shows "wf_db T (fold (happen T) es db) \<and>
    abs_queue T (fold (happen T) es db) = fold qapply (qops T db es) (abs_queue T db)"
  by (rule wire_text.events_refine [OF assms(1,3,2)])

lemma ref_sample_text:
  "good_text ref_text (TaskId_Value (m_id sample_message)) (ser (TaskMessage_ToJson sample_message))"
  by (rule ref.storable_text [OF storable_sample]) simp

theorem requests_refine_queue_witness:
  "let i = TaskId_Value (m_id sample_message); t = ser (TaskMessage_ToJson sample_message);
       q = abs_queue ref_text (fold (happen ref_text)
             [Request (Push i t), Request (RunReserve 5), Expiry ''w'', Request (RunFail i ''x'')] empty_db)
   in q_pending q = [] \<and> q_running q = {} \<and> q_dead q = [i] \<and> q_status q i = Some kDead"
proof -
  let ?i = "TaskId_Value (m_id sample_message)" and ?t = "ser (TaskMessage_ToJson sample_message)"
  let ?es = "[Request (Push ?i ?t), Request (RunReserve 5), Expiry ''w'', Request (RunFail ?i ''x'')]"
  have "\<forall>e \<in> set ?es. valid_event ref_text e" by (simp add: ref_sample_text in_i64_def)
  from requests_refine_queue [OF ref.wire_text_axioms wf_empty(1) this]
  have "abs_queue ref_text (fold (happen ref_text) ?es empty_db) =
      fold qapply [QEnqueue ?i, QReserve, QIdle, QFail ?i] empty_queue"
    by (simp only: qops.simps qop_event.simps qop_of.simps wf_empty(2))
  then show ?thesis by (simp only: Let_def) (simp add: empty_queue_def)
qed

section \<open>One copy of each task\<close>

text \<open>
  Requests of clients that keep to the protocol: identifiers are enqueued once, and a task is
  acknowledged, retried or failed only while it is running.
\<close>

fun proper :: "redis_db \<Rightarrow> request \<Rightarrow> bool" where
  "proper db (Push i t) = (map_of (hash_at db redis_kStatus) i = None)"
| "proper db (Schedule i t run_at) = (map_of (hash_at db redis_kStatus) i = None)"
| "proper db (RunRetry i t run_at reason) = (map_of (hash_at db redis_kRunning) i \<noteq> None)"
| "proper db (RunFail i reason) = (map_of (hash_at db redis_kRunning) i \<noteq> None)"
| "proper db (RunAck i result) = (map_of (hash_at db redis_kRunning) i \<noteq> None)"
| "proper db _ = True"

inductive proper_step :: "text_ops \<Rightarrow> redis_db \<Rightarrow> redis_db \<Rightarrow> bool" for T where
  "valid_request T r \<Longrightarrow> proper db r \<Longrightarrow> proper_step T db (exec T r db)"

text \<open>A request that leaves the abstract queue alone or is a step of the protocol.\<close>

abbreviation refined :: "text_ops \<Rightarrow> redis_db \<Rightarrow> request \<Rightarrow> bool" where
  "refined T db r \<equiv>
     abs_queue T (exec T r db) = abs_queue T db \<or> ostep (abs_queue T db) (abs_queue T (exec T r db))"

context wire_text
begin

lemma proper_Schedule:
  assumes "wf_db T db" and "coherent (abs_queue T db)" and good: "good_text T i t"
    and none: "q_status (abs_queue T db) i = None"
  shows "refined T db (Schedule i t run_at)"
proof -
  have "coherent_id (abs_queue T db) i" using assms(2) by (simp add: coherent_def)
  then have "t \<notin> fst ` set (zset_at db redis_kDelayed)"
    using delayed_here [OF _ good, of db] none copies_ge(2) [of i "abs_queue T db"]
    by (auto simp: coherent_id_def)
  then show ?thesis
    using ostep.o_enqueue_later [OF none] by (simp only: abs_Schedule [OF assms(1) good] if_False simp_thms)
qed

lemma proper_Reserve:
  assumes "wf_db T db" and "in_i64 now"
  shows "refined T db (RunReserve now)"
proof (cases "list_at db redis_kPending" rule: rev_cases)
  case Nil
  then show ?thesis by (simp add: reserve_db_empty)
next
  case (snoc p t)
  then have good: "good_text T (text_id T t) t" using assms(1) by (simp add: wf_db_def sound_text_def)
  have "q_pending (abs_queue T db) = map (text_id T) p @ [text_id T t]" by (simp add: abs_queue_def snoc)
  from ostep.o_reserve [OF this] show ?thesis
    by (simp only: abs_RunReserve [OF snoc good assms(2)] simp_thms)
qed

lemma proper_Promote:
  assumes "wf_db T db"
  shows "refined T db (RunPromoteOne now)"
proof (cases "filter (\<lambda>p. snd p \<le> score_of now) (zset_at db redis_kDelayed)")
  case Nil
  then show ?thesis by (simp add: promote_db_none)
next
  case (Cons p rest)
  obtain t sc where p: "p = (t, sc)" by (cases p)
  have "(t, sc) \<in> set (zset_at db redis_kDelayed)" using arg_cong [OF Cons, of set] p by auto
  then have good: "good_text T (text_id T t) t" using assms by (fastforce simp: wf_db_def sound_text_def)
  note abs = abs_RunPromoteOne [OF assms Cons [unfolded p] good]
  show ?thesis using ostep.o_promote [OF abs(1)] by (simp only: abs(3) simp_thms)
qed

lemma running_abs: "map_of (hash_at db redis_kRunning) i = Some t \<Longrightarrow> i \<in> q_running (abs_queue T db)"
  using running_mem(1) by (simp add: abs_queue_def)

lemma proper_Reclaim:
  assumes "wf_db T db"
  shows "refined T db (RunReclaimOne i now timeout)"
proof (cases "\<exists>t. map_of (hash_at db redis_kRunning) i = Some t \<and> is_stale T now timeout t")
  case False
  then show ?thesis by (simp add: reclaim_db_other)
next
  case True
  then obtain t where t: "map_of (hash_at db redis_kRunning) i = Some t" "is_stale T now timeout t"
    by blast
  show ?thesis
    using ostep.o_reclaim [OF running_abs [OF t(1)]] by (simp only: abs_RunReclaimOne(2) [OF assms t] simp_thms)
qed

lemma proper_Retry:
  assumes "wf_db T db" and "coherent (abs_queue T db)" and good: "good_text T i t"
    and run: "i \<in> q_running (abs_queue T db)"
  shows "refined T db (RunRetry i t run_at reason)"
proof -
  have "i \<notin># q_delayed (abs_queue T db)"
    using copies_le [OF assms(2), of i] run by (simp split: if_splits) (metis count_eq_zero_iff)
  then have "t \<notin> fst ` set (zset_at db redis_kDelayed)" using delayed_here [OF _ good] by blast
  then show ?thesis
    using ostep.o_retry [OF run] by (simp only: abs_RunRetry [OF assms(1) good] if_False simp_thms)
qed

lemma proper_RetryDeadTask:
  assumes "wf_db T db"
  shows "refined T db (RunRetryDeadTask i)"
proof (cases "find (\<lambda>t. text_id T t = i) (list_at db redis_kDead)")
  case None
  then show ?thesis using assms by (simp add: retry_dead_db wf_db_def)
next
  case (Some t)
  note abs = abs_RunRetryDeadTask [OF assms Some]
  show ?thesis using ostep.o_retry_dead [OF abs(1)] by (simp only: abs(3) simp_thms)
qed

lemma proper_refines:
  assumes "wf_db T db" and "coherent (abs_queue T db)" and "valid_request T r" and "proper db r"
  shows "refined T db r"
proof (cases r)
  case (Push i t)
  then have "good_text T i t" "q_status (abs_queue T db) i = None"
    using assms(3,4) by (simp_all add: abs_queue_def)
  then show ?thesis unfolding Push using ostep.o_enqueue by (simp only: abs_Push simp_thms)
next
  case (Schedule i t run_at)
  then show ?thesis using proper_Schedule [OF assms(1,2), of i t] assms(3,4) by (simp add: abs_queue_def)
next
  case (RunReserve now)
  then show ?thesis using proper_Reserve [OF assms(1)] assms(3) by simp
next
  case (RunRetry i t run_at reason)
  then show ?thesis
    using proper_Retry [OF assms(1,2), of i t] running_abs [of db i] assms(3,4) by (auto simp del: exec.simps)
next
  case (RunFail i reason)
  then obtain t where t: "map_of (hash_at db redis_kRunning) i = Some t" using assms(4) by auto
  then show ?thesis
    unfolding RunFail using ostep.o_fail [OF running_abs] by (simp only: abs_RunFail(2) [OF assms(1) t] simp_thms)
next
  case (RunAck i result)
  then show ?thesis
    using ostep.o_ack [OF running_abs] assms(4) by (auto simp: abs_RunAck simp del: exec.simps)
next
  case (Side c)
  then show ?thesis using abs_Side [of c db] assms(3) by simp
qed (use proper_Promote proper_Reclaim proper_RetryDeadTask assms(1) in \<open>simp_all only:\<close>)

lemma proper_steps_coherent:
  assumes "(proper_step T)\<^sup>*\<^sup>* db db'" and "wf_db T db" and "coherent (abs_queue T db)"
  shows "wf_db T db' \<and> coherent (abs_queue T db')"
  using assms
proof (induction rule: rtranclp_induct)
  case base
  then show ?case by simp
next
  case (step db1 db2)
  from step(2) obtain r where r: "valid_request T r" "proper db1 r" and [simp]: "db2 = exec T r db1"
    by (auto elim: proper_step.cases)
  have wf: "wf_db T db1" and coh: "coherent (abs_queue T db1)" using step by auto
  have "wf_db T db2"
    using server_step_sim [OF step_request [OF r(1)] wf] by (simp add: simulates_def)
  moreover have "coherent (abs_queue T db2)"
    using proper_refines [OF wf coh r] coh ostep_coherent by auto
  ultimately show ?case by simp
qed

end

text \<open>
  C4: one copy of each task. As long as clients keep to the protocol, every identifier is in at
  most one place (pending, delayed, running or dead), and the status table names that place:
  \<open>pending\<close>, \<open>running\<close>, \<open>retrying\<close>, \<open>dead\<close>, or \<open>succeeded\<close> when the task has left the queues
  with a recorded result.
\<close>

theorem proper_clients_one_copy:
  assumes "wire_text T" and "(proper_step T)\<^sup>*\<^sup>* empty_db db"
  shows "copies (abs_queue T db) i \<le> 1 \<and> coherent_id (abs_queue T db) i"
proof -
  have "coherent (abs_queue T db)"
    using wire_text.proper_steps_coherent [OF assms wf_empty(1)]
    by (simp add: wf_empty(2) coherent_empty)
  then show ?thesis using coherent_cases(1) by (auto simp: coherent_def)
qed

theorem proper_clients_one_copy_witness:
  "let i = TaskId_Value (m_id sample_message); t = ser (TaskMessage_ToJson sample_message);
       q = abs_queue ref_text (exec ref_text (RunReserve 5) (exec ref_text (Push i t) empty_db))
   in copies q i \<le> 1 \<and> coherent_id q i"
proof -
  let ?i = "TaskId_Value (m_id sample_message)" and ?t = "ser (TaskMessage_ToJson sample_message)"
  have "proper_step ref_text empty_db (exec ref_text (Push ?i ?t) empty_db)"
    by (rule proper_step.intros) (simp_all add: ref_sample_text)
  moreover have "proper_step ref_text db (exec ref_text (RunReserve 5) db)" for db
    by (rule proper_step.intros) (simp_all add: in_i64_def)
  ultimately have "(proper_step ref_text)\<^sup>*\<^sup>* empty_db
      (exec ref_text (RunReserve 5) (exec ref_text (Push ?i ?t) empty_db))"
    by (blast intro: rtranclp.intros)
  from proper_clients_one_copy [OF ref.wire_text_axioms this, of ?i] show ?thesis
    by (simp only: Let_def)
qed

section \<open>Enqueue\<close>

text \<open>
  C13: what \<open>Enqueue\<close> does. On a connection without losses it returns the identifier of the stored
  message (the given one, or a generated one when that is empty). A message due in the future
  goes into the sorted set under its due time, any other to the head of the pending list; its
  status is \<open>pending\<close>, and nothing else changes but the metrics.
\<close>

theorem Enqueue_effect:
  assumes "external X view" and "connected X view c db"
    and "dump (codec X) (TaskMessage_ToJson (stored_message bytes now m)) = Inr t"
  shows "\<exists>c' db'. RedisBroker_Enqueue X bytes now m c = (Inr (m_id (stored_message bytes now m)), c') \<and>
    connected X view c' db' \<and>
    list_at db' redis_kPending =
      (if is_delayed now m then list_at db redis_kPending else t # list_at db redis_kPending) \<and>
    zset_at db' redis_kDelayed =
      (if is_delayed now m then zset_insert t (score_of (the (m_run_at_ms m))) (zset_at db redis_kDelayed)
       else zset_at db redis_kDelayed) \<and>
    map_of (hash_at db' redis_kStatus) (TaskId_Value (m_id (stored_message bytes now m))) = Some ''pending'' \<and>
    list_at db' redis_kDead = list_at db redis_kDead \<and>
    (\<forall>k. k \<noteq> redis_kStatus \<and> k \<noteq> redis_kMetrics \<longrightarrow> hash_at db' k = hash_at db k)"
proof -
  have d: "is_delayed now (stored_message bytes now m) = is_delayed now m"
    "is_delayed now m \<Longrightarrow> m_run_at_ms (stored_message bytes now m) = m_run_at_ms m"
    by (simp_all add: stored_message_def is_delayed_def Let_def)
  obtain db' where y: "yields X view (RedisBroker_Enqueue X bytes now m) db
      (Inr (m_id (stored_message bytes now m))) db'"
    and mo: "metrics_only (exec (codec X) (enqueue_request now (stored_message bytes now m) t) db) db'"
    using external.yields_Enqueue [OF assms(1,3)] by blast
  show ?thesis
  proof (rule connectedE [OF assms(1) y assms(2)])
    fix c' assume "RedisBroker_Enqueue X bytes now m c = (Inr (m_id (stored_message bytes now m)), c')"
      and "connected X view c' db'"
    then show ?thesis
      using mo d
      by (intro exI [of _ c'] exI [of _ db'])
        (auto simp: metrics_only_def enqueue_request_def push_db schedule_db key_simps)
  qed
qed

lemma stored_sample: "stored_message [] 0 sample_message = sample_message" "\<not> is_delayed 0 sample_message"
proof -
  have "TaskId_Value (m_id sample_message) \<noteq> ''''"
    using wire_message_sample IsValidUuidFormat_nonempty by (auto simp: wire_message_def)
  then show "stored_message [] 0 sample_message = sample_message" "\<not> is_delayed 0 sample_message"
    by (simp_all add: stored_message_def is_delayed_def)
      (simp_all add: sample_message_def TaskMessage_Create_def TaskMessage_default_def)
qed

theorem Enqueue_effect_witness:
  "\<exists>c' db'. RedisBroker_Enqueue ref_ext [] 0 sample_message (ref_conn empty_db) =
      (Inr (m_id sample_message), c') \<and> connected ref_ext fst c' db' \<and>
    list_at db' redis_kPending = [ser (TaskMessage_ToJson sample_message)]"
  using Enqueue_effect [OF refx.external_axioms ref_conn_connected [of empty_db],
      of "[]" 0 sample_message "ser (TaskMessage_ToJson sample_message)"]
  by (auto simp: stored_sample)

theorem accepted_task_not_lost_witness:
  "\<exists>c'. RedisBroker_Enqueue ref_ext [] 0 sample_message (ref_conn empty_db) = (Inr (m_id sample_message), c') \<and>
    accounted ref_text (fst (srv (snd (RedisBroker_Reserve ref_ext 5 c')))) (TaskId_Value (m_id sample_message))"
proof -
  obtain db' where y: "yields ref_ext fst (RedisBroker_Enqueue ref_ext [] 0 sample_message) empty_db
      (Inr (m_id sample_message)) db'"
    using refx.yields_Enqueue [of "[]" 0 sample_message] by (auto simp: stored_sample)
  then obtain c' where c': "RedisBroker_Enqueue ref_ext [] 0 sample_message (ref_conn empty_db) =
      (Inr (m_id sample_message), c')" and "connected ref_ext fst c' db'"
    using yieldsD [OF y ref_conn_connected] by blast
  then have "loaded ref_ext c'" by (simp add: connected_def)
  have "valid_call (CallReserve 5)" by (simp add: in_i64_def)
  from step_call [OF this \<open>loaded ref_ext c'\<close>, of fst]
  have "broker_step ref_ext fst (srv c') (srv (snd (RedisBroker_Reserve ref_ext 5 c')))"
    by (simp add: then_io_def bind_io_def ret_def split: prod.splits sum.splits)
  then have st: "(broker_step ref_ext fst)\<^sup>*\<^sup>* (srv c') (srv (snd (RedisBroker_Reserve ref_ext 5 c')))" ..
  have "wf_db (codec ref_ext) (fst (srv (ref_conn empty_db)))" by (simp add: ref_conn_def wf_empty(1))
  from accepted_task_not_lost [OF refx.external_axioms this loaded_ref_conn storable_sample c' st] c'
  show ?thesis by auto
qed

section \<open>First in, first out\<close>

text \<open>A client that enqueues messages one after the other, and one that reserves \<open>n\<close> times.\<close>

fun enqueue_all :: "'s ext \<Rightarrow> int \<Rightarrow> TaskMessage list \<Rightarrow> ('s conn, unit) io" where
  "enqueue_all X now [] = ret ()"
| "enqueue_all X now (m # ms) = then_io (RedisBroker_Enqueue X [] now m) (enqueue_all X now ms)"

fun reserve_n :: "'s ext \<Rightarrow> int \<Rightarrow> nat \<Rightarrow> ('s conn, TaskMessage option list) io" where
  "reserve_n X now 0 = ret []"
| "reserve_n X now (Suc n) =
     bind_io (RedisBroker_Reserve X now) (\<lambda>r. bind_io (reserve_n X now n) (\<lambda>rs. ret (r # rs)))"

definition queued_message :: "TaskMessage \<Rightarrow> TaskMessage" where
  "queued_message m = m\<lparr>m_status := kPending, m_run_at_ms := None\<rparr>"

lemma deliverable_queued: "deliverable m \<Longrightarrow> deliverable (queued_message m)"
  by (simp add: deliverable_def queued_message_def wire_message_def in_range_message_def)

lemma stored_queued:
  "deliverable m \<Longrightarrow> \<not> is_delayed now m \<Longrightarrow> stored_message [] now m = queued_message m"
  using IsValidUuidFormat_nonempty
  by (auto simp: deliverable_def wire_message_def stored_message_def queued_message_def is_delayed_def)

context external
begin

lemma yields_enqueue_all:
  assumes "\<forall>m \<in> set ms. deliverable m \<and> \<not> is_delayed now m"
    and "list_all2 (\<lambda>m t. dump T (TaskMessage_ToJson (queued_message m)) = Inr t) ms ts"
  shows "\<exists>db'. yields X view (enqueue_all X now ms) db (Inr ()) db' \<and>
    list_at db' redis_kPending = rev ts @ list_at db redis_kPending"
  using assms(2,1)
proof (induction arbitrary: db rule: list_all2_induct)
  case Nil
  then show ?case by (auto intro: yields_pure(1))
next
  case (Cons m ms t ts)
  have m: "deliverable m" "\<not> is_delayed now m" using Cons.prems by auto
  note st = stored_queued [OF m]
  have d: "\<not> is_delayed now (queued_message m)" by (simp add: is_delayed_def queued_message_def)
  obtain db1 where y1: "yields X view (RedisBroker_Enqueue X [] now m) db (Inr (m_id (queued_message m))) db1"
    and mo: "metrics_only (exec T (Push (TaskId_Value (m_id (queued_message m))) t) db) db1"
    using yields_Enqueue [of "[]" now m t] Cons.hyps(1) d by (auto simp: st enqueue_request_def simp del: exec.simps)
  obtain db2 where y2: "yields X view (enqueue_all X now ms) db1 (Inr ()) db2"
    and l2: "list_at db2 redis_kPending = rev ts @ list_at db1 redis_kPending"
    using Cons.IH [of db1] Cons.prems by auto
  have "list_at db1 redis_kPending = t # list_at db redis_kPending"
    using mo by (simp add: metrics_only_def push_db)
  then show ?case using yields_then [OF y1 y2] l2 by auto
qed

lemma yields_reserve_n:
  assumes "list_all2 (\<lambda>m t. deliverable m \<and> dump T (TaskMessage_ToJson m) = Inr t) ms ts"
    and "small now" and "list_at db redis_kPending = rev ts"
  shows "\<exists>db'. yields X view (reserve_n X now (length ms)) db
    (Inr (map (\<lambda>m. Some (reserved_message now m)) ms)) db' \<and> list_at db' redis_kPending = []"
  using assms(1,3)
proof (induction arbitrary: db rule: list_all2_induct)
  case Nil
  then show ?case by (auto intro: yields_pure(1))
next
  case (Cons m ms t ts)
  have l: "list_at db redis_kPending = rev ts @ [t]" using Cons.prems by simp
  have m: "deliverable m" "dump T (TaskMessage_ToJson m) = Inr t" using Cons.hyps(1) by auto
  note y1 = yields_Reserve_message [OF l m(2,1) assms(2)]
  have good: "good_text T (TaskId_Value (m_id m)) t"
    by (rule storable_text [OF deliverable_storable [OF m(1)] m(2)])
  have "list_at (exec T (RunReserve now) db) redis_kPending = rev ts"
    by (simp add: reserve_db [OF l good small_i64 [OF assms(2)]])
  from Cons.IH [OF this] obtain db' where
    y2: "yields X view (reserve_n X now (length ms)) (exec T (RunReserve now) db)
      (Inr (map (\<lambda>m. Some (reserved_message now m)) ms)) db'" and l': "list_at db' redis_kPending = []"
    by blast
  have "yields X view (reserve_n X now (length (m # ms))) db
    (Inr (map (\<lambda>m. Some (reserved_message now m)) (m # ms))) db'"
    using yields_bind [OF y1 yields_bind [OF y2 yields_pure(1)]] by simp
  with l' show ?case by blast
qed

lemma yields_fifo:
  assumes "\<forall>m \<in> set ms. deliverable m \<and> \<not> is_delayed now m \<and>
      (\<exists>t. dump T (TaskMessage_ToJson (queued_message m)) = Inr t)"
    and "small now'" and "list_at db redis_kPending = []"
  shows "\<exists>db'. yields X view (then_io (enqueue_all X now ms) (reserve_n X now' (length ms))) db
    (Inr (map (\<lambda>m. Some (reserved_message now' (queued_message m))) ms)) db' \<and>
    list_at db' redis_kPending = []"
proof -
  have "\<exists>ts. list_all2 (\<lambda>m t. dump T (TaskMessage_ToJson (queued_message m)) = Inr t) ms ts"
    using assms(1) by (induction ms) (auto simp: list_all2_Cons1)
  then obtain ts where ts: "list_all2 (\<lambda>m t. dump T (TaskMessage_ToJson (queued_message m)) = Inr t) ms ts" ..
  have "\<forall>m \<in> set ms. deliverable m \<and> \<not> is_delayed now m" using assms(1) by blast
  from yields_enqueue_all [OF this ts, of db] obtain db1 where
    y1: "yields X view (enqueue_all X now ms) db (Inr ()) db1" and
    l1: "list_at db1 redis_kPending = rev ts" using assms(3) by auto
  have "list_all2 (\<lambda>m t. deliverable m \<and> dump T (TaskMessage_ToJson m) = Inr t) (map queued_message ms) ts"
    unfolding list_all2_map1
    using ts assms(1) deliverable_queued by (auto elim!: list_all2_mono simp: list_all2_conv_all_nth)
  from yields_reserve_n [OF this assms(2) l1] show ?thesis
    using yields_then [OF y1] by (auto simp: comp_def)
qed

end

text \<open>
  C9: messages arrive in order and unchanged. When the pending list is empty, a client enqueues
  deliverable messages that are due, and workers then reserve as many times, the reservations
  return exactly those messages, in the order they were enqueued, with status \<open>running\<close> and the
  time of the reservation; every other field has gone through the C++ serialiser, the Lua
  decoder and encoder and the C++ parser unchanged.
\<close>

theorem messages_delivered_in_order:
  assumes "external X view" and "connected X view c db" and "list_at db redis_kPending = []"
    and "\<forall>m \<in> set ms. deliverable m \<and> \<not> is_delayed now m \<and>
      (\<exists>t. dump (codec X) (TaskMessage_ToJson (queued_message m)) = Inr t)"
    and "small now'"
  shows "\<exists>c'. then_io (enqueue_all X now ms) (reserve_n X now' (length ms)) c =
    (Inr (map (\<lambda>m. Some (reserved_message now' (queued_message m))) ms), c')"
  using external.yields_fifo [OF assms(1,4,5,3)] assms(2) by (auto simp: yields_def)

lemma deliverable_sample: "deliverable sample_message"
proof -
  have "exact_num 2" "exact_num 3" using exact_small [of 2] exact_small [of 3] by (simp_all add: small_def)
  moreover have "double_of_int 2 = DFin 2" "double_of_int 3 = DFin 3" "rnd 3 = DFin 3"
    using double_of_int_exact [of 2] double_of_int_exact [of 3] rnd_int [of 3] by simp_all
  ultimately show ?thesis
    using wire_message_sample storable_sample
    by (simp add: deliverable_def storable_def sample_message_def TaskMessage_Create_def
        TaskMessage_default_def RetryPolicy_default_def relua_def small_def smap_def)
qed

theorem messages_delivered_in_order_witness:
  "\<exists>c'. then_io (enqueue_all ref_ext 0 [sample_message, sample_message\<lparr>m_name := ''b''\<rparr>])
      (reserve_n ref_ext 5 2) (ref_conn empty_db) =
    (Inr [Some (reserved_message 5 (queued_message sample_message)),
          Some (reserved_message 5 (queued_message (sample_message\<lparr>m_name := ''b''\<rparr>)))], c')"
proof -
  have "deliverable (sample_message\<lparr>m_name := ''b''\<rparr>)"
    using deliverable_sample by (simp add: deliverable_def wire_message_def in_range_message_def)
  moreover have "\<not> is_delayed 0 (sample_message\<lparr>m_name := ''b''\<rparr>)"
    using stored_sample(2) by (simp add: is_delayed_def)
  ultimately show ?thesis
    using messages_delivered_in_order [OF refx.external_axioms ref_conn_connected [of empty_db],
        of "[sample_message, sample_message\<lparr>m_name := ''b''\<rparr>]" 0 5]
      deliverable_sample stored_sample(2)
    by (simp add: small_def numeral_2_eq_2)
qed

end
