(* ===== verification/Scheduling.thy ===== *)
theory Scheduling
  imports Broker_Theorems
begin

text \<open>
  Time in the queues: promotion of delayed tasks, the visibility timeout of running tasks and the
  scheduler tick that does both (src/scheduler.cc).
\<close>

section \<open>Times as scores and as Lua numbers\<close>

lemma score_small: "small t \<Longrightarrow> score_of t = of_int t"
  using double_of_int_exact [OF small_53] by (simp add: score_of_def)

lemma score_le: "small a \<Longrightarrow> small b \<Longrightarrow> score_of a \<le> score_of b \<longleftrightarrow> a \<le> b"
  by (simp add: score_small)

lemma late_double:
  assumes "small now" and "small r" and "small timeout"
  shows "\<not> dle (dsub (double_of_int now) (DFin (of_int r))) (double_of_int timeout) \<longleftrightarrow> now - r > timeout"
proof -
  have "\<bar>now - r\<bar> < 2 ^ 53" using assms(1,2) by (auto simp: small_def)
  then have "rnd (of_int now - of_int r) = DFin (of_int (now - r))" using rnd_int [of "now - r"] by simp
  then have "dsub (double_of_int now) (DFin (of_int r)) = DFin (of_int (now - r))"
    using double_of_int_exact [OF small_53 [OF assms(1)]] by simp
  then show ?thesis
    using double_of_int_exact [OF small_53 [OF assms(3)]]
    by (simp only: dle.simps of_int_le_iff not_le)
qed

section \<open>Promotion\<close>

text \<open>
  C14: \<open>PromoteDueTasks\<close> ends and promotes exactly the due tasks. With more iterations than there
  are due tasks the loop stops by itself; afterwards no due task is delayed, the tasks due
  later are untouched, the due ones have been pushed to the pending list in the order of their
  due times, and their status is \<open>pending\<close>.
\<close>

theorem PromoteDueTasks_effect:
  assumes "external X view" and "connected X view c db" and "wf_db (codec X) db"
    and "length (due now db) < fuel"
  shows "\<exists>c' db'. RedisBroker_PromoteDueTasks X fuel now c = (Inr (Some ()), c') \<and>
    connected X view c' db' \<and> due now db' = [] \<and>
    zset_at db' redis_kDelayed = filter (\<lambda>p. \<not> snd p \<le> score_of now) (zset_at db redis_kDelayed) \<and>
    list_at db' redis_kPending =
      rev (map (\<lambda>p. recode (codec X) promoted_table (fst p)) (due now db)) @ list_at db redis_kPending \<and>
    sorted (map snd (due now db)) \<and>
    marked_pending (codec X) (map fst (due now db)) db db'"
proof -
  obtain db' where db': "yields X view (promote_loop X fuel now) db (Inr (Some ())) db'"
    "zset_at db' redis_kDelayed = filter (\<lambda>p. \<not> snd p \<le> score_of now) (zset_at db redis_kDelayed)"
    "list_at db' redis_kPending =
       rev (map (\<lambda>p. recode (codec X) promoted_table (fst p)) (due now db)) @ list_at db redis_kPending"
    "marked_pending (codec X) (map fst (due now db)) db db'"
    using external.promote_loop_effect [OF assms(1,3,4)] by blast
  have "sorted (map (\<lambda>(m, sc). (sc, m)) (due now db))"
    using assms(3) by (auto simp: wf_db_def due_def intro: sorted_filter)
  then have "sorted (map fst (map (\<lambda>(m, sc). (sc, m)) (due now db)))"
    by (auto simp: sorted_map less_eq_prod_def sorted_wrt_map intro: sorted_wrt_mono_rel [rotated])
  moreover have "map fst (map (\<lambda>(m, sc). (sc, m)) (due now db)) = map snd (due now db)"
    by (auto simp: comp_def split_def)
  ultimately have "sorted (map snd (due now db))" by (simp only:)
  moreover have "due now db' = []" by (simp add: due_def db'(2) filter_empty_conv)
  ultimately show ?thesis
    using yieldsD [OF db'(1) assms(2)] db'(2-4) unfolding RedisBroker_PromoteDueTasks_def by blast
qed

definition delayed_sample :: TaskMessage where
  "delayed_sample = sample_message\<lparr>m_run_at_ms := Some 7\<rparr>"

definition delayed_db :: redis_db where
  "delayed_db = put_zset redis_kDelayed [(ser (TaskMessage_ToJson delayed_sample), 7)] empty_db"

lemma storable_delayed: "storable delayed_sample"
  using storable_sample by (simp add: storable_def delayed_sample_def in_range_message_def in_i64_def)

lemma wf_delayed_db: "wf_db ref_text delayed_db"
  using good_sound [OF ref.storable_text [OF storable_delayed ref_dump]]
  by (simp add: wf_db_def delayed_db_def filed_def)

lemma due_delayed_db: "due 9 delayed_db = [(ser (TaskMessage_ToJson delayed_sample), 7)]"
  using score_small [of 9] by (simp add: due_def delayed_db_def small_def)

theorem PromoteDueTasks_effect_witness:
  "\<exists>c' db'. RedisBroker_PromoteDueTasks ref_ext 2 9 (ref_conn delayed_db) = (Inr (Some ()), c') \<and>
    connected ref_ext fst c' db' \<and> due 9 db' = [] \<and>
    list_at db' redis_kPending =
      [recode ref_text promoted_table (ser (TaskMessage_ToJson delayed_sample))]"
proof -
  have "list_at delayed_db redis_kPending = []" by (simp add: delayed_db_def)
  moreover have "wf_db (codec ref_ext) delayed_db" by (simp add: wf_delayed_db)
  ultimately show ?thesis
    using PromoteDueTasks_effect [OF refx.external_axioms ref_conn_connected [of delayed_db], of 9 2]
    by (auto simp: due_delayed_db)
qed

section \<open>The visibility timeout\<close>

text \<open>Every running task carries the time of its reservation.\<close>

definition timed :: "text_ops \<Rightarrow> redis_db \<Rightarrow> bool" where
  "timed T db \<longleftrightarrow>
     (\<forall>p \<in> set (hash_at db redis_kRunning). reserved_at T (the (cj_decode T (snd p))) \<noteq> None)"

context wire_text
begin

lemma running_text_time:
  assumes "good_text T i t" and "small r"
  shows "\<exists>v. cj_decode T (recode T (running_table r) t) = Some v \<and>
    lget v ''reserved_at_ms'' = LNum (DFin (of_int r))"
proof -
  obtain v where v: "cj_decode T t = Some v" "task_table i v" using good_textE [OF assms(1)] .
  let ?w = "running_table r v"
  have w: "task_table i ?w" by (rule task_tables(1) [OF v(2) small_i64 [OF assms(2)]])
  have dbl: "double_of_int r = DFin (of_int r)" by (rule double_of_int_exact [OF small_53 [OF assms(2)]])
  have "task_table i (lset ''status'' (LStr ''running'') v)" using v(2) by (simp add: task_table_lset)
  then have "lget ?w ''reserved_at_ms'' = LNum (DFin (of_int r))"
    unfolding running_table_def dbl by (auto simp: task_table_def encodable_def lget_lset)
  then show ?thesis
    using encode_fields [of ?w] w exact_small [OF assms(2)]
    by (auto simp: task_table_def recode_def v(1))
qed

lemma running_text_stale:
  assumes "good_text T i t" and "small r" and "small now" and "small timeout"
  shows "is_stale T now timeout (recode T (running_table r) t) \<longleftrightarrow> now - r > timeout"
  using running_text_time [OF assms(1,2)] late_double [OF assms(3,2,4)]
  by (auto simp: is_stale_def reserved_at_def)

end

context external
begin

lemma yields_ReclaimStaleTasks:
  fixes now timeout :: int
  defines "stale \<equiv> \<lambda>p :: string \<times> string. is_stale T now timeout (snd p)"
  assumes "wf_db T db" and "timed T db"
  shows "\<exists>db'. yields X view (RedisBroker_ReclaimStaleTasks X now timeout) db
      (Inr (int (length (filter stale (hash_at db redis_kRunning))))) db' \<and> wf_db T db' \<and>
    reclaims T (filter stale (umap_order X (hash_at db redis_kRunning))) db db' \<and>
    hash_at db' redis_kRunning = filter (\<lambda>p. \<not> stale p) (hash_at db redis_kRunning)"
proof -
  let ?h = "hash_at db redis_kRunning"
  let ?u = "umap_order X ?h"
  have dist: "distinct (map fst ?h)" using assms(2) by (simp add: wf_db_def filed_def)
  then have "running_entries T db ?u"
    using assms(3) by (auto simp: timed_def running_entries_def)
  from reclaim_loop_reclaims [OF assms(2) this, where n = 0 and now = now and timeout = timeout]
  obtain db' where db':
    "yields X view (reclaim_loop X now timeout 0 ?u) db (Inr (int (length (filter stale ?h)))) db'"
    "wf_db T db'" "reclaims T (filter stale ?u) db db'"
    unfolding stale_def by auto
  have "filter (\<lambda>p. fst p \<notin> fst ` set (filter stale ?u)) ?h = filter (\<lambda>p. \<not> stale p) ?h"
    using dist by (intro filter_cong) (auto dest: eq_key_imp_eq_value)
  moreover have "yields X view (RedisBroker_ReclaimStaleTasks X now timeout) db
      (Inr (int (length (filter stale ?h)))) db'"
    unfolding RedisBroker_ReclaimStaleTasks_def
    by (rule yields_bind [OF yields_do [where r = "RPairs ?h" and db' = db]])
      (simp_all add: key_simps db'(1))
  ultimately show ?thesis using db' by (auto simp: reclaims_def)
qed

end

text \<open>
  C16: \<open>ReclaimStaleTasks\<close> gives back exactly the stale tasks. It returns how many running tasks
  have passed the visibility timeout; these have left the running table for the pending list
  with status \<open>pending\<close>, pushed to its head in the order in which the \<^verbatim>\<open>unordered_map\<close> yields them,
  and every other running task stays where it was.
\<close>

theorem ReclaimStaleTasks_effect:
  assumes "external X view" and "connected X view c db" and "wf_db (codec X) db" and "timed (codec X) db"
  shows "\<exists>c' db'. RedisBroker_ReclaimStaleTasks X now timeout c =
      (Inr (int (length (filter (\<lambda>p. is_stale (codec X) now timeout (snd p)) (hash_at db redis_kRunning)))), c') \<and>
    connected X view c' db' \<and>
    hash_at db' redis_kRunning =
      filter (\<lambda>p. \<not> is_stale (codec X) now timeout (snd p)) (hash_at db redis_kRunning) \<and>
    list_at db' redis_kPending =
      rev (map (\<lambda>p. recode (codec X) reclaimed_table (snd p))
        (filter (\<lambda>p. is_stale (codec X) now timeout (snd p)) (umap_order X (hash_at db redis_kRunning)))) @
      list_at db redis_kPending \<and>
    zset_at db' = zset_at db \<and> list_at db' redis_kDead = list_at db redis_kDead \<and>
    marked_pending (codec X)
      (map snd (filter (\<lambda>p. is_stale (codec X) now timeout (snd p)) (umap_order X (hash_at db redis_kRunning)))) db db'"
proof -
  obtain db' where db': "yields X view (RedisBroker_ReclaimStaleTasks X now timeout) db
      (Inr (int (length (filter (\<lambda>p. is_stale (codec X) now timeout (snd p)) (hash_at db redis_kRunning))))) db'"
    and rest: "hash_at db' redis_kRunning =
      filter (\<lambda>p. \<not> is_stale (codec X) now timeout (snd p)) (hash_at db redis_kRunning)"
    "list_at db' redis_kPending =
      rev (map (\<lambda>p. recode (codec X) reclaimed_table (snd p))
        (filter (\<lambda>p. is_stale (codec X) now timeout (snd p)) (umap_order X (hash_at db redis_kRunning)))) @
      list_at db redis_kPending"
    "list_at db' redis_kDead = list_at db redis_kDead" "zset_at db' = zset_at db"
    "marked_pending (codec X)
      (map snd (filter (\<lambda>p. is_stale (codec X) now timeout (snd p)) (umap_order X (hash_at db redis_kRunning)))) db db'"
    using external.yields_ReclaimStaleTasks [OF assms(1,3,4), of now timeout] unfolding reclaims_def by blast
  show ?thesis using yieldsD [OF db' assms(2)] rest by blast
qed

definition running_db :: redis_db where
  "running_db =
     put_hash redis_kRunning
       [(TaskId_Value (m_id sample_message),
         recode ref_text (running_table 1000) (ser (TaskMessage_ToJson sample_message)))] empty_db"

lemma running_sample:
  "good_text ref_text (TaskId_Value (m_id sample_message))
     (recode ref_text (running_table 1000) (ser (TaskMessage_ToJson sample_message)))"
proof -
  obtain v where "cj_decode ref_text (ser (TaskMessage_ToJson sample_message)) = Some v"
    using good_textE [OF ref_sample_text] by blast
  from ref.recode_good(2) [OF ref_sample_text task_tables(1) this] show ?thesis by (simp add: in_i64_def)
qed

lemma wf_running_db: "wf_db ref_text running_db" "timed ref_text running_db"
  using running_sample ref.running_text_time [OF ref_sample_text, of 1000]
  by (auto simp: wf_db_def running_db_def filed_def key_simps timed_def reserved_at_def small_def)

theorem ReclaimStaleTasks_effect_witness:
  "\<exists>c' db'. RedisBroker_ReclaimStaleTasks ref_ext 31001 30000 (ref_conn running_db) = (Inr 1, c') \<and>
    connected ref_ext fst c' db' \<and> hash_at db' redis_kRunning = []"
proof -
  have stale: "is_stale ref_text 31001 30000
      (recode ref_text (running_table 1000) (ser (TaskMessage_ToJson sample_message)))"
    using ref.running_text_stale [OF ref_sample_text, of 1000 31001 30000] by (simp add: small_def)
  have run: "hash_at running_db redis_kRunning =
      [(TaskId_Value (m_id sample_message),
        recode ref_text (running_table 1000) (ser (TaskMessage_ToJson sample_message)))]"
    by (simp add: running_db_def)
  show ?thesis
    using ReclaimStaleTasks_effect [OF refx.external_axioms ref_conn_connected [of running_db],
        of 31001 30000] wf_running_db stale
    by (auto simp: run)
qed

text \<open>
  The visibility timeout, as the scripts compute it in Lua numbers. A task reserved at time
  \<open>r\<close> counts as stale at time \<open>now\<close> exactly when more than \<open>timeout\<close> milliseconds have passed,
  for all times below \<open>10^14\<close> ms.
\<close>

theorem visibility_timeout_exact:
  assumes "wire_text T" and "good_text T i t" and "small r" and "small now" and "small timeout"
  shows "is_stale T now timeout (recode T (running_table r) t) \<longleftrightarrow> now - r > timeout"
  by (rule wire_text.running_text_stale [OF assms])

theorem visibility_timeout_exact_witness:
  "is_stale ref_text 31001 30000
     (recode ref_text (running_table 1000) (ser (TaskMessage_ToJson sample_message))) \<and>
   \<not> is_stale ref_text 31000 30000
     (recode ref_text (running_table 1000) (ser (TaskMessage_ToJson sample_message)))"
  using visibility_timeout_exact [OF ref.wire_text_axioms ref_sample_text, of 1000 31001 30000]
    visibility_timeout_exact [OF ref.wire_text_axioms ref_sample_text, of 1000 31000 30000]
  by (simp add: small_def)

end
