(* ===== verification/Outcomes.thy ===== *)
theory Outcomes
  imports Scheduling
begin

text \<open>
  How a task ends or comes back: \<open>Ack\<close>, \<open>Retry\<close>, \<open>Fail\<close> and \<open>RetryDeadTask\<close>, with what the
  queries \<open>GetStatus\<close>, \<open>GetTaskResult\<close> and \<open>GetFailureReason\<close> answer afterwards.
\<close>

section \<open>Queries\<close>

context external
begin

lemma yields_hget:
  "kind_of k = HashKey \<Longrightarrow> yields X view (redis_do (rds X) (HGET k f)) db
     (Inr (case map_of (hash_at db k) f of Some v \<Rightarrow> RBulk v | None \<Rightarrow> RNil)) db"
  by (rule yields_do) (auto split: option.splits)

lemma yields_GetStatus:
  "yields X view (RedisBroker_GetStatus X i) db
     (Inr (case map_of (hash_at db redis_kStatus) (TaskId_Value i) of
             Some s \<Rightarrow> TaskStatusFromString s
           | None \<Rightarrow> PR_Fail kPending (''task not found: '' @ TaskId_Value i))) db"
  unfolding RedisBroker_GetStatus_def
  by (rule yields_bind [OF yields_hget])
    (auto simp: key_simps intro: yields_pure(1) split: option.splits)

lemma yields_GetFailureReason:
  "yields X view (RedisBroker_GetFailureReason X i) db
     (Inr (case map_of (hash_at db redis_kFailures) (TaskId_Value i) of
             Some s \<Rightarrow> PR_Ok s
           | None \<Rightarrow> PR_Fail '''' (''failure reason not found: '' @ TaskId_Value i))) db"
  unfolding RedisBroker_GetFailureReason_def
  by (rule yields_bind [OF yields_hget])
    (auto simp: key_simps intro: yields_pure(1) split: option.splits)

lemma yields_GetTaskResult:
  assumes "map_of (hash_at db redis_kResults) (TaskId_Value i) = Some t" and "parse T t = Inr j"
  shows "yields X view (RedisBroker_GetTaskResult X i) db (Inr (TaskResultFromJson j)) db"
  unfolding RedisBroker_GetTaskResult_def
  by (rule yields_bind [OF yields_hget]) (auto simp: key_simps assms intro: yields_pure(1))

lemma yields_GetTaskResult_none:
  assumes "map_of (hash_at db redis_kResults) (TaskId_Value i) = None"
  shows "yields X view (RedisBroker_GetTaskResult X i) db
    (Inr (PR_Fail TaskResult_default (''task result not found: '' @ TaskId_Value i))) db"
  unfolding RedisBroker_GetTaskResult_def
  by (rule yields_bind [OF yields_hget]) (auto simp: key_simps assms intro: yields_pure(1))

end

lemma yields_fst: "yields X view m db r db' \<Longrightarrow> connected X view c db \<Longrightarrow> fst (m c) = r"
  by (auto simp: yields_def)

section \<open>Ack\<close>

lemma success_json_wf: "json_wf (TaskResult_ToJson (TaskResult_Success empty_object))"
proof -
  have "\<forall>(k, v) \<in> set [(''success'', JBool True), (''payload'', empty_object),
      (''error_message'', JString '''')]. flat (\<lambda>_. True) 999 v"
    by (simp add: flat_def lua_depth.simps(1))
  then have "flat (\<lambda>_. True) (Suc 999) (TaskResult_ToJson (TaskResult_Success empty_object))"
    unfolding TaskResult_ToJson_def by (intro flat_json_object) (simp add: TaskResult_Success_def TaskResult_default_def)
  then show ?thesis by (simp add: flat_def)
qed

text \<open>
  C20: \<open>Ack\<close> finishes a task. The task leaves the running table, its failure reason is dropped,
  \<open>GetStatus\<close> answers \<open>succeeded\<close>, and \<open>GetTaskResult\<close> answers a successful result whose payload
  is the empty object, whatever the handler returned: the operation takes no payload.
\<close>

theorem Ack_effect:
  assumes "external X view" and "connected X view c db"
    and "dump (codec X) (TaskResult_ToJson (TaskResult_Success empty_object)) = Inr t"
  shows "\<exists>c' db'. RedisBroker_Ack X i c = (Inr (), c') \<and> connected X view c' db' \<and>
    hash_at db' redis_kRunning = AList.delete (TaskId_Value i) (hash_at db redis_kRunning) \<and>
    list_at db' = list_at db \<and> zset_at db' = zset_at db \<and>
    map_of (hash_at db' redis_kFailures) (TaskId_Value i) = None \<and>
    fst (RedisBroker_GetStatus X i c') = Inr (PR_Ok kSucceeded) \<and>
    fst (RedisBroker_GetTaskResult X i c') = Inr (PR_Ok (TaskResult_Success empty_object))"
proof -
  note wt = external_wire [OF assms(1)]
  obtain db' where y: "yields X view (RedisBroker_Ack X i) db (Inr ()) db'"
    and mo: "metrics_only (exec (codec X) (RunAck (TaskId_Value i) t) db) db'"
    using external.yields_Ack [OF assms(1,3)] by blast
  obtain c' where c': "RedisBroker_Ack X i c = (Inr (), c')" "connected X view c' db'"
    using yieldsD [OF y assms(2)] by blast
  have db': "hash_at db' redis_kRunning = AList.delete (TaskId_Value i) (hash_at db redis_kRunning)"
    "list_at db' = list_at db" "zset_at db' = zset_at db"
    "map_of (hash_at db' redis_kFailures) (TaskId_Value i) = None"
    "map_of (hash_at db' redis_kStatus) (TaskId_Value i) = Some ''succeeded''"
    "map_of (hash_at db' redis_kResults) (TaskId_Value i) = Some t"
    using mo by (simp_all add: metrics_only_def wire_text.ack_db [OF wt] key_simps)
  have "parse (codec X) t = Inr (TaskResult_ToJson (TaskResult_Success empty_object))"
    by (rule wire_text.parse_dump [OF wt assms(3) success_json_wf])
  then have "fst (RedisBroker_GetTaskResult X i c') = Inr (PR_Ok (TaskResult_Success empty_object))"
    using yields_fst [OF external.yields_GetTaskResult [OF assms(1) db'(6)] c'(2)]
    by (simp add: TaskResultFromJson_ToJson)
  moreover have "fst (RedisBroker_GetStatus X i c') = Inr (PR_Ok kSucceeded)"
    using yields_fst [OF external.yields_GetStatus [OF assms(1)] c'(2)] db'(5)
    by (simp add: TaskStatusFromString_def)
  ultimately show ?thesis using c' db' by blast
qed

theorem Ack_effect_witness:
  "\<exists>c' db'. RedisBroker_Ack ref_ext (m_id sample_message) (ref_conn running_db) = (Inr (), c') \<and>
    connected ref_ext fst c' db' \<and>
    hash_at db' redis_kRunning =
      AList.delete (TaskId_Value (m_id sample_message)) (hash_at running_db redis_kRunning) \<and>
    fst (RedisBroker_GetStatus ref_ext (m_id sample_message) c') = Inr (PR_Ok kSucceeded)"
proof -
  have "dump (codec ref_ext) (TaskResult_ToJson (TaskResult_Success empty_object)) =
      Inr (ser (TaskResult_ToJson (TaskResult_Success empty_object)))" by simp
  from Ack_effect [OF refx.external_axioms ref_conn_connected [of running_db] this, of "m_id sample_message"]
  show ?thesis by blast
qed

section \<open>Fail\<close>

text \<open>
  C21: \<open>Fail\<close> moves a running task to the dead-letter list. The task's text, marked \<open>dead\<close> with the
  reason, becomes the head of that list; \<open>GetStatus\<close> answers \<open>dead\<close> and \<open>GetFailureReason\<close> the
  reason. The other queues are unchanged.
\<close>

theorem Fail_effect:
  assumes "external X view" and "connected X view c db" and "wf_db (codec X) db"
    and "map_of (hash_at db redis_kRunning) (TaskId_Value i) = Some t"
  shows "\<exists>c' db'. RedisBroker_Fail X i reason c = (Inr (), c') \<and> connected X view c' db' \<and>
    hash_at db' redis_kRunning = AList.delete (TaskId_Value i) (hash_at db redis_kRunning) \<and>
    list_at db' redis_kDead = recode (codec X) (dead_table reason) t # list_at db redis_kDead \<and>
    list_at db' redis_kPending = list_at db redis_kPending \<and> zset_at db' = zset_at db \<and>
    fst (RedisBroker_GetStatus X i c') = Inr (PR_Ok kDead) \<and>
    fst (RedisBroker_GetFailureReason X i c') = Inr (PR_Ok reason)"
proof -
  note wt = external_wire [OF assms(1)]
  have good: "good_text (codec X) (TaskId_Value i) t"
    using assms(3,4) by (auto simp: wf_db_def intro: filedD)
  obtain db' where y: "yields X view (RedisBroker_Fail X i reason) db (Inr ()) db'"
    and mo: "metrics_only (exec (codec X) (RunFail (TaskId_Value i) reason) db) db'"
    using external.yields_Fail [OF assms(1,3)] by blast
  obtain c' where c': "RedisBroker_Fail X i reason c = (Inr (), c')" "connected X view c' db'"
    using yieldsD [OF y assms(2)] by blast
  have db': "hash_at db' redis_kRunning = AList.delete (TaskId_Value i) (hash_at db redis_kRunning)"
    "list_at db' redis_kDead = recode (codec X) (dead_table reason) t # list_at db redis_kDead"
    "list_at db' redis_kPending = list_at db redis_kPending" "zset_at db' = zset_at db"
    "map_of (hash_at db' redis_kStatus) (TaskId_Value i) = Some ''dead''"
    "map_of (hash_at db' redis_kFailures) (TaskId_Value i) = Some reason"
    using mo by (simp_all add: metrics_only_def wire_text.fail_db [OF wt assms(4) good] key_simps)
  have "fst (RedisBroker_GetStatus X i c') = Inr (PR_Ok kDead)"
    using yields_fst [OF external.yields_GetStatus [OF assms(1)] c'(2)] db'(5)
    by (simp add: TaskStatusFromString_def)
  moreover have "fst (RedisBroker_GetFailureReason X i c') = Inr (PR_Ok reason)"
    using yields_fst [OF external.yields_GetFailureReason [OF assms(1)] c'(2)] db'(6) by simp
  ultimately show ?thesis using c' db' by blast
qed

lemma running_db_sample:
  "map_of (hash_at running_db redis_kRunning) (TaskId_Value (m_id sample_message)) =
     Some (recode ref_text (running_table 1000) (ser (TaskMessage_ToJson sample_message)))"
  by (simp add: running_db_def)

theorem Fail_effect_witness:
  "\<exists>c' db'. RedisBroker_Fail ref_ext (m_id sample_message) ''boom'' (ref_conn running_db) = (Inr (), c') \<and>
    connected ref_ext fst c' db' \<and> length (list_at db' redis_kDead) = 1 \<and>
    fst (RedisBroker_GetFailureReason ref_ext (m_id sample_message) c') = Inr (PR_Ok ''boom'')"
proof -
  have "list_at running_db redis_kDead = []" by (simp add: running_db_def)
  moreover have "wf_db (codec ref_ext) running_db" by (simp add: wf_running_db)
  ultimately show ?thesis
    using Fail_effect [OF refx.external_axioms ref_conn_connected [of running_db] _ running_db_sample,
        of "''boom''"] by force
qed

text \<open>
  C38: \<open>Fail\<close> for a task that is not running. Nothing is added to the dead-letter list, but the
  status table says \<open>dead\<close> and the reason is stored: the status no longer names the place of the
  task, and \<open>RetryDeadTask\<close> will not find it unless it was dead before.
\<close>

theorem Fail_not_running:
  assumes "external X view" and "connected X view c db" and "wf_db (codec X) db"
    and "map_of (hash_at db redis_kRunning) (TaskId_Value i) = None"
  shows "\<exists>c' db'. RedisBroker_Fail X i reason c = (Inr (), c') \<and> connected X view c' db' \<and>
    list_at db' = list_at db \<and> zset_at db' = zset_at db \<and>
    fst (RedisBroker_GetStatus X i c') = Inr (PR_Ok kDead)"
proof -
  note wt = external_wire [OF assms(1)]
  obtain db' where y: "yields X view (RedisBroker_Fail X i reason) db (Inr ()) db'"
    and mo: "metrics_only (exec (codec X) (RunFail (TaskId_Value i) reason) db) db'"
    using external.yields_Fail [OF assms(1,3)] by blast
  obtain c' where c': "RedisBroker_Fail X i reason c = (Inr (), c')" "connected X view c' db'"
    using yieldsD [OF y assms(2)] by blast
  have db': "list_at db' = list_at db" "zset_at db' = zset_at db"
    "map_of (hash_at db' redis_kStatus) (TaskId_Value i) = Some ''dead''"
    using mo by (simp_all add: metrics_only_def wire_text.fail_db_absent [OF wt assms(4)] key_simps)
  have "fst (RedisBroker_GetStatus X i c') = Inr (PR_Ok kDead)"
    using yields_fst [OF external.yields_GetStatus [OF assms(1)] c'(2)] db'(3)
    by (simp add: TaskStatusFromString_def)
  then show ?thesis using c' db' by blast
qed

theorem Fail_not_running_witness:
  "\<exists>c' db'. RedisBroker_Fail ref_ext (m_id sample_message) ''boom'' (ref_conn empty_db) = (Inr (), c') \<and>
    connected ref_ext fst c' db' \<and> list_at db' = list_at empty_db \<and>
    fst (RedisBroker_GetStatus ref_ext (m_id sample_message) c') = Inr (PR_Ok kDead)"
  using Fail_not_running [OF refx.external_axioms ref_conn_connected [of empty_db],
      of "m_id sample_message" "''boom''"] by (auto simp: wf_empty(1))

end
