(* ===== verification/Message_Flow.thy ===== *)
theory Message_Flow
  imports Outcomes
begin

text \<open>
  The messages behind the stored texts. A text \<open>carries\<close> a message when the C++ parser reads that
  message from it and the Lua side sees its fields; every edit a script makes carries over to
  the message (\<open>carries_running\<close> and the lemmas after it). What makes up the task itself, its
  identifier, name, payload, policy and creation time, is never altered (\<open>server_steps_carried\<close>).
\<close>

section \<open>Texts and messages\<close>

text \<open>
  \<open>table_of m v\<close>: the Lua table \<open>v\<close> has the fields of the message \<open>m\<close>. An empty \<open>last_error\<close> may
  be absent or present.
\<close>

definition table_of :: "TaskMessage \<Rightarrow> lua \<Rightarrow> bool" where
  "table_of m v \<longleftrightarrow>
     object_table v \<and> wire_exact v \<and>
     (\<forall>k. k \<noteq> ''last_error'' \<longrightarrow>
        json_find (json_of_lua v) k = map_option relua (json_find (TaskMessage_ToJson m) k)) \<and>
     json_find (json_of_lua v) ''last_error'' \<in>
       (if m_last_error m = '''' then {None, Some (JString '''')} else {Some (JString (m_last_error m))})"

definition carries :: "text_ops \<Rightarrow> string \<Rightarrow> TaskMessage \<Rightarrow> bool" where
  "carries T t m \<longleftrightarrow>
     deliverable m \<and> TaskMessageFromJsonString T t = Inr (PR_Ok m) \<and>
     (\<exists>v. cj_decode T t = Some v \<and> table_of m v)"

lemma message_of_table_fields:
  assumes "is_object j"
    and "\<And>k. k \<notin> {''retry_policy'', ''last_error''} \<Longrightarrow> json_find j k = json_find (TaskMessage_ToJson m) k"
    and "json_find j ''last_error'' \<in>
       (if m_last_error m = '''' then {None, Some (JString '''')} else {Some (JString (m_last_error m))})"
    and "json_find j ''retry_policy'' = Some pj" and "RetryPolicyFromJson pj = PR_Ok (m_retry_policy m)"
    and "wire_message m"
  shows "TaskMessageFromJson j = PR_Ok m"
proof -
  note f = assms(2) [THEN trans, OF _ find_TaskMessage_ToJson]
  have v: "ParseTaskSchemaVersion j = PR_Ok 1"
    by (simp add: ParseTaskSchemaVersion_def contains_def f json_at_def kTaskSchemaVersion_def in_i32_def)
  have o: "optional_int64 j ''run_at_ms'' e = PR_Ok (m_run_at_ms m)"
    "optional_int64 j ''reserved_at_ms'' e = PR_Ok (m_reserved_at_ms m)" for e
    using assms(6)
    by (auto simp: wire_message_def in_range_message_def optional_int64_def
        contains_def f json_at_def split: option.splits)
  have e: "optional_string j ''last_error'' = PR_Ok (m_last_error m)"
    using assms(3) by (auto simp: parse_field_simps split: if_splits)
  show ?thesis
    using assms(1,4,5,6) unfolding wire_message_def in_range_message_def
    by (cases m) (simp add: TaskMessageFromJson_def v o e parse_field_simps f contains_def json_at_def)
qed

lemma deliverable_policy:
  assumes "deliverable m"
  shows "RetryPolicyFromJson (relua (RetryPolicy_ToJson (m_retry_policy m))) = PR_Ok (m_retry_policy m)"
proof -
  obtain q where "multiplier (m_retry_policy m) = DFin q" "rnd q = DFin q"
    using assms by (auto simp: deliverable_def)
  then show ?thesis
    using assms RetryPolicy_relua [of "m_retry_policy m" q]
    by (simp add: deliverable_def wire_message_def in_range_message_def)
qed

lemma table_of_parses:
  assumes "deliverable m" and "table_of m v"
  shows "TaskMessageFromJson (json_of_lua v) = PR_Ok m"
proof (rule message_of_table_fields)
  show "is_object (json_of_lua v)" using assms(2) by (auto simp: table_of_def object_table_def)
  show "json_find (json_of_lua v) k = json_find (TaskMessage_ToJson m) k"
    if "k \<notin> {''retry_policy'', ''last_error''}" for k
    using assms that relua_fields [OF assms(1), of k] by (simp add: table_of_def)
  show "json_find (json_of_lua v) ''retry_policy'' = Some (relua (RetryPolicy_ToJson (m_retry_policy m)))"
    using assms(2) by (simp add: table_of_def find_TaskMessage_ToJson)
qed (use assms deliverable_policy in \<open>auto simp: table_of_def deliverable_def\<close>)

lemma table_of_json:
  assumes "deliverable m"
  shows "table_of m (lua_of_json (TaskMessage_ToJson m))"
proof -
  let ?v = "lua_of_json (TaskMessage_ToJson m)"
  have flat: "json_wf (TaskMessage_ToJson m)" "wire_exact ?v"
    using deliverable_flat [OF assms] by (auto simp: flat_def wire_exact_def)
  obtain kvs where kvs: "TaskMessage_ToJson m = JObject kvs" using message_object by blast
  have "object_table ?v" using flat(1) by (auto simp: kvs object_table_def smap_lua_fields)
  moreover have "json_find (json_of_lua ?v) k = map_option relua (json_find (TaskMessage_ToJson m) k)" for k
    using find_relua [OF is_object_TaskMessage_ToJson, of m k] by (simp add: relua_def)
  ultimately show ?thesis using flat(2) by (simp add: table_of_def find_TaskMessage_ToJson)
qed

section \<open>Edits\<close>

text \<open>What a script writes into a field: a short text, an exact number, or nothing.\<close>

definition exact_scalar :: "lua \<Rightarrow> bool" where
  "exact_scalar x \<longleftrightarrow> x = LNil \<or> (\<exists>s. x = LStr s) \<or> (\<exists>q. x = LNum (DFin q) \<and> rnd q = DFin q \<and> exact_num q)"

lemma wire_exact_lset:
  assumes "object_table v" and "wire_exact v" and "exact_scalar x"
  shows "wire_exact (lset k x v)"
proof -
  obtain fs where v: "v = LTable fs []" using assms(1) by (auto simp: object_table_def)
  have x: "x = LNil \<or> lua_all exact_num x" "lua_depth x \<le> 999"
    using assms(3) by (auto simp: exact_scalar_def)
  show ?thesis
    using lua_all_lset [OF _ x(1), of fs k] lua_depth_lset [OF _ x(2), of fs "[]" k] assms(2)
    by (simp add: wire_exact_def v del: lset.simps)
qed

lemma exact_scalars [simp]:
  "exact_scalar LNil" "exact_scalar (LStr s)" "exact_scalar (LNum (DFin 0))"
  "small i \<Longrightarrow> exact_scalar (LNum (double_of_int i))"
  using exact_small [of 0] rnd_int [of 0] exact_small [of i] small_53 [of i] rnd_int [of i]
  by (auto simp: exact_scalar_def double_of_int_exact small_def)

lemma table_of_edit:
  assumes "table_of m v" and "exact_scalar x"
    and "\<And>k'. k' \<noteq> ''last_error'' \<Longrightarrow>
      map_option relua (json_find (TaskMessage_ToJson m') k') =
        (if k' = k then (if x = LNil then None else Some (json_of_lua x))
         else map_option relua (json_find (TaskMessage_ToJson m) k'))"
    and "if k = ''last_error'' then x = LStr (m_last_error m') \<or> x = LNil \<and> m_last_error m' = ''''
         else m_last_error m' = m_last_error m"
  shows "table_of m' (lset k x v)"
  using assms(1,2,4) wire_exact_lset [of v x k] unfolding table_of_def
  by (auto simp: find_lset object_table_lset assms(3) split: if_splits)

lemma small_numbers:
  "small i \<Longrightarrow> double_of_int i = DFin (of_int i)" "small i \<Longrightarrow> relua (JInt i) = JInt i"
  "relua (JInt 0) = JInt 0" "small i \<Longrightarrow> exact_scalar (LNum (DFin (of_int i)))"
  using small_53 [of i] exact_scalars(4) [of i] by (simp_all add: double_of_int_exact)

lemma table_edits:
  assumes "table_of m v"
  shows "table_of (m\<lparr>m_status := s\<rparr>) (lset ''status'' (LStr (TaskStatusToString s)) v)"
    and "small i \<Longrightarrow> table_of (m\<lparr>m_reserved_at_ms := Some i\<rparr>) (lset ''reserved_at_ms'' (LNum (double_of_int i)) v)"
    and "table_of (m\<lparr>m_reserved_at_ms := None\<rparr>) (lset ''reserved_at_ms'' LNil v)"
    and "table_of (m\<lparr>m_run_at_ms := None\<rparr>) (lset ''run_at_ms'' LNil v)"
    and "table_of (m\<lparr>m_retry_count := 0\<rparr>) (lset ''retry_count'' (LNum (DFin 0)) v)"
    and "table_of (m\<lparr>m_last_error := e\<rparr>) (lset ''last_error'' (LStr e) v)"
    and "table_of (m\<lparr>m_last_error := ''''\<rparr>) (lset ''last_error'' LNil v)"
  by (rule table_of_edit [OF assms]; simp add: find_TaskMessage_ToJson small_numbers
      del: relua_simps(2))+

section \<open>Moves between the queues\<close>

definition promoted_message :: "TaskMessage \<Rightarrow> TaskMessage" where
  "promoted_message m = m\<lparr>m_run_at_ms := None, m_status := kPending\<rparr>"

definition reclaimed_message :: "TaskMessage \<Rightarrow> TaskMessage" where
  "reclaimed_message m = m\<lparr>m_status := kPending, m_reserved_at_ms := None\<rparr>"

definition dead_message :: "string \<Rightarrow> TaskMessage \<Rightarrow> TaskMessage" where
  "dead_message reason m = m\<lparr>m_status := kDead, m_last_error := reason\<rparr>"

definition revived_message :: "TaskMessage \<Rightarrow> TaskMessage" where
  "revived_message m =
     m\<lparr>m_status := kPending, m_retry_count := 0, m_last_error := '''', m_run_at_ms := None,
       m_reserved_at_ms := None\<rparr>"

lemmas move_defs =
  reserved_message_def promoted_message_def reclaimed_message_def dead_message_def revived_message_def

lemma table_moves:
  assumes "table_of m v"
  shows "small now \<Longrightarrow> table_of (reserved_message now m) (running_table now v)"
    and "table_of (promoted_message m) (promoted_table v)"
    and "table_of (reclaimed_message m) (reclaimed_table v)"
    and "table_of (dead_message reason m) (dead_table reason v)"
    and "table_of (revived_message m) (revived_table v)"
  using table_edits(2) [OF table_edits(1) [OF assms, of kRunning], of now]
    table_edits(1) [OF table_edits(4) [OF assms], of kPending]
    table_edits(3) [OF table_edits(1) [OF assms, of kPending]]
    table_edits(6) [OF table_edits(1) [OF assms, of kDead], of reason]
    table_edits(3) [OF table_edits(4) [OF table_edits(7) [OF table_edits(5) [OF table_edits(1) [OF assms, of kPending]]]]]
  by (simp_all add: move_defs table_defs)

lemma deliverable_moves:
  assumes "deliverable m"
  shows "small now \<Longrightarrow> deliverable (reserved_message now m)"
    and "deliverable (promoted_message m)" "deliverable (reclaimed_message m)"
    and "deliverable (dead_message reason m)" "deliverable (revived_message m)"
  using assms small_i64 [of now]
  by (auto simp: deliverable_def wire_message_def in_range_message_def move_defs in_i32_def)

lemma lua_all_any: "lua_all P v \<Longrightarrow> lua_all (\<lambda>_. True) v"
  by (induction P v rule: lua_all.induct) fastforce+

lemma json_of_lua_string: "json_of_lua v = JString s \<longleftrightarrow> v = LStr s"
  by (cases v rule: json_of_lua.cases) auto

context wire_text
begin

lemma carries_dump:
  assumes "deliverable m" and "dump T (TaskMessage_ToJson m) = Inr t"
  shows "carries T t m"
proof -
  have flat: "json_wf (TaskMessage_ToJson m)" "lua_depth (lua_of_json (TaskMessage_ToJson m)) \<le> 1000"
    using deliverable_flat [OF assms(1)] by (auto simp: flat_def)
  have "wire_message m" using assms(1) by (simp add: deliverable_def)
  then show ?thesis
    using assms(1) parse_dump [OF assms(2) flat(1)] decode_dump [OF assms(2) flat]
      table_of_json [OF assms(1)] message_roundtrip
    by (simp add: carries_def TaskMessageFromJsonString_def)
qed

lemma carries_recode:
  assumes "carries T t m" and "\<And>v. table_of m v \<Longrightarrow> table_of m' (f v)" and "deliverable m'"
  shows "carries T (recode T f t) m'"
proof -
  obtain v where v: "cj_decode T t = Some v" "table_of m v" using assms(1) by (auto simp: carries_def)
  have fv: "table_of m' (f v)" using assms(2) v(2) .
  then have "wire_exact (f v)" by (simp add: table_of_def)
  from encode_exact [OF this] show ?thesis
    using assms(3) fv v(1) table_of_parses [OF assms(3) fv]
    by (auto simp: carries_def recode_def TaskMessageFromJsonString_def)
qed

lemma carries_moves:
  assumes "carries T t m"
  shows "small now \<Longrightarrow> carries T (recode T (running_table now) t) (reserved_message now m)"
    and "carries T (recode T promoted_table t) (promoted_message m)"
    and "carries T (recode T reclaimed_table t) (reclaimed_message m)"
    and "carries T (recode T (dead_table reason) t) (dead_message reason m)"
    and "carries T (recode T revived_table t) (revived_message m)"
proof -
  have d: "deliverable m" using assms by (simp add: carries_def)
  note rec = carries_recode [OF assms]
  show "small now \<Longrightarrow> carries T (recode T (running_table now) t) (reserved_message now m)"
    by (rule rec) (auto intro: table_moves deliverable_moves d)
  show "carries T (recode T promoted_table t) (promoted_message m)"
    "carries T (recode T reclaimed_table t) (reclaimed_message m)"
    "carries T (recode T (dead_table reason) t) (dead_message reason m)"
    "carries T (recode T revived_table t) (revived_message m)"
    by (rule rec; auto intro: table_moves deliverable_moves d)+
qed

lemma carries_good:
  assumes "carries T t m"
  shows "good_text T (TaskId_Value (m_id m)) t"
proof -
  obtain v where v: "cj_decode T t = Some v" "table_of m v" using assms by (auto simp: carries_def)
  then obtain fs where fs: "v = LTable fs []" "smap fs" by (auto simp: table_of_def object_table_def)
  have "json_find (json_of_lua v) ''id'' = Some (JString (TaskId_Value (m_id m)))"
    using v(2) by (simp add: table_of_def find_TaskMessage_ToJson)
  then have "lget v ''id'' = LStr (TaskId_Value (m_id m))"
    by (auto simp: fs json_find_def map_of_fields lget_def json_of_lua_string)
  then show ?thesis
    using v by (auto simp: good_text_def task_table_def table_of_def encodable_def wire_exact_def fs
        dest: lua_all_any)
qed

end

section \<open>No text is altered but by these moves\<close>

definition queue_texts :: "redis_db \<Rightarrow> string set" where
  "queue_texts db =
     set (list_at db redis_kPending) \<union> fst ` set (zset_at db redis_kDelayed) \<union>
     snd ` set (hash_at db redis_kRunning) \<union> set (list_at db redis_kDead)"

text \<open>The text a request brings along.\<close>

fun request_texts :: "request \<Rightarrow> string set" where
  "request_texts (Push i t) = {t}"
| "request_texts (Schedule i t run_at) = {t}"
| "request_texts (RunRetry i t run_at reason) = {t}"
| "request_texts _ = {}"

fun request_time :: "request \<Rightarrow> bool" where
  "request_time (RunReserve now) = small now"
| "request_time _ = True"

text \<open>\<open>kept T P\<close>: a property of texts that survives the edits of the scripts.\<close>

definition kept :: "text_ops \<Rightarrow> (string \<Rightarrow> bool) \<Rightarrow> bool" where
  "kept T P \<longleftrightarrow>
     (\<forall>t. P t \<longrightarrow>
        (\<forall>now. small now \<longrightarrow> P (recode T (running_table now) t)) \<and> P (recode T promoted_table t) \<and>
        P (recode T reclaimed_table t) \<and> (\<forall>reason. P (recode T (dead_table reason) t)) \<and>
        P (recode T revived_table t))"

lemma keptD:
  assumes "kept T P" and "P t"
  shows "small now \<Longrightarrow> P (recode T (running_table now) t)" "P (recode T promoted_table t)"
    "P (recode T reclaimed_table t)" "P (recode T (dead_table reason) t)" "P (recode T revived_table t)"
  using assms by (simp_all add: kept_def)

lemma set_remove1_texts: "t \<in> set (remove1 u xs) \<Longrightarrow> t \<in> set xs"
  using set_remove1_subset by fastforce

lemma snd_update: "t \<in> snd ` set (AList.update i u h) \<Longrightarrow> t = u \<or> t \<in> snd ` set h"
  using set_AList_update_subset [of i u h] by force

lemma snd_delete: "t \<in> snd ` set (AList.delete i h) \<Longrightarrow> t \<in> snd ` set h"
  using set_AList_delete_subset [of i h] by auto

lemmas text_dests = set_remove1_texts snd_update snd_delete

lemma side_texts:
  assumes "side_cmd c"
  shows "queue_texts (exec T (Side c) db) = queue_texts db"
proof -
  let ?db' = "snd (redis_sem c db)"
  have "list_at ?db' = list_at db" "zset_at ?db' = zset_at db"
    using assms by (cases c; auto split: option.splits sum.splits)+
  moreover have "\<And>k. \<not> side_key k \<Longrightarrow> hash_at ?db' k = hash_at db k"
    using assms by (cases c) (auto split: option.splits sum.splits)
  moreover have "exec T (Side c) db = ?db'" by (auto simp: run_cmd_db split: prod.splits redis_reply.splits)
  moreover have "\<not> side_key redis_kRunning" by (simp add: side_key_def key_defs)
  ultimately show ?thesis by (simp add: queue_texts_def)
qed

context wire_text
begin

lemma Reserve_texts:
  assumes "kept T P" and "wf_db T db" and "\<forall>t \<in> queue_texts db. P t" and "small now"
  shows "\<forall>t \<in> queue_texts (exec T (RunReserve now) db). P t"
proof (cases "list_at db redis_kPending" rule: rev_cases)
  case Nil
  then show ?thesis using assms(3) by (simp add: reserve_db_empty)
next
  case (snoc p t)
  then have good: "good_text T (text_id T t) t" and Pt: "P t"
    using assms(2,3) by (auto simp: wf_db_def sound_text_def queue_texts_def)
  show ?thesis
    unfolding exec.simps reserve_db [OF snoc good small_i64 [OF assms(4)]]
    using assms(3) keptD(1) [OF assms(1) Pt assms(4)] snoc
    by (auto simp: queue_texts_def key_simps dest!: text_dests)
qed

lemma PromoteOne_texts:
  assumes "kept T P" and "wf_db T db" and "\<forall>t \<in> queue_texts db. P t"
  shows "\<forall>t \<in> queue_texts (exec T (RunPromoteOne now) db). P t"
proof (cases "filter (\<lambda>p. snd p \<le> score_of now) (zset_at db redis_kDelayed)")
  case Nil
  then show ?thesis using assms(3) by (simp add: promote_db_none)
next
  case (Cons p rest)
  obtain t sc where p: "p = (t, sc)" by (cases p)
  then have "(t, sc) \<in> set (zset_at db redis_kDelayed)" using arg_cong [OF Cons, of set] by auto
  then have good: "good_text T (text_id T t) t" and Pt: "P t"
    using assms(2,3) by (force simp: wf_db_def sound_text_def queue_texts_def)+
  show ?thesis
    unfolding exec.simps promote_db [OF Cons [unfolded p] good]
    using assms(3) keptD(2) [OF assms(1) Pt]
    by (auto simp: queue_texts_def key_simps dest!: text_dests)
qed

lemma ReclaimOne_texts:
  assumes "kept T P" and "wf_db T db" and "\<forall>t \<in> queue_texts db. P t"
  shows "\<forall>t \<in> queue_texts (exec T (RunReclaimOne i now timeout) db). P t"
proof (cases "\<exists>t. map_of (hash_at db redis_kRunning) i = Some t \<and> is_stale T now timeout t")
  case False
  then have "exec T (RunReclaimOne i now timeout) db = db" by (simp add: reclaim_db_other)
  then show ?thesis using assms(3) by simp
next
  case True
  then obtain t where t: "map_of (hash_at db redis_kRunning) i = Some t" "is_stale T now timeout t" by blast
  then have good: "good_text T i t" and Pt: "P t"
    using assms(2,3) map_of_SomeD [OF t(1)]
    by (force simp: wf_db_def queue_texts_def intro: filedD)+
  show ?thesis
    unfolding exec.simps reclaim_db_stale [OF t(1) good t(2)]
    using assms(3) keptD(3) [OF assms(1) Pt]
    by (auto simp: queue_texts_def key_simps dest!: text_dests)
qed

lemma Fail_texts:
  assumes "kept T P" and "wf_db T db" and "\<forall>t \<in> queue_texts db. P t"
  shows "\<forall>t \<in> queue_texts (exec T (RunFail i reason) db). P t"
proof (cases "map_of (hash_at db redis_kRunning) i")
  case None
  show ?thesis
    unfolding exec.simps fail_db_absent [OF None]
    using assms(3) by (auto simp: queue_texts_def key_simps dest!: text_dests)
next
  case (Some t)
  then have good: "good_text T i t" and Pt: "P t"
    using assms(2,3) map_of_SomeD [OF Some]
    by (force simp: wf_db_def queue_texts_def intro: filedD)+
  show ?thesis
    unfolding exec.simps fail_db [OF Some good]
    using assms(3) keptD(4) [OF assms(1) Pt]
    by (auto simp: queue_texts_def key_simps dest!: text_dests)
qed

lemma RetryDead_texts:
  assumes "kept T P" and "wf_db T db" and "\<forall>t \<in> queue_texts db. P t"
  shows "\<forall>t \<in> queue_texts (exec T (RunRetryDeadTask i) db). P t"
proof -
  have sound: "\<forall>t \<in> set (list_at db redis_kDead). sound_text T t" using assms(2) by (simp add: wf_db_def)
  show ?thesis
  proof (cases "find (\<lambda>t. text_id T t = i) (list_at db redis_kDead)")
    case None
    then show ?thesis using assms(3) by (simp add: retry_dead_db [OF sound])
  next
    case (Some t)
    then have "P t" using assms(3) by (auto simp: queue_texts_def find_Some_iff)
    then show ?thesis
      using assms(3) keptD(5) [OF assms(1)] Some
      by (auto simp: retry_dead_db [OF sound] queue_texts_def key_simps dest!: text_dests)
  qed
qed

lemma exec_texts:
  assumes "kept T P" and "wf_db T db" and "\<forall>t \<in> queue_texts db. P t"
    and "valid_request T r" and "request_time r" and "\<forall>t \<in> request_texts r. P t"
  shows "\<forall>t \<in> queue_texts (exec T r db). P t"
proof (cases r)
  case (Push i t)
  then show ?thesis using assms by (auto simp: push_db queue_texts_def key_simps dest!: text_dests)
next
  case (Schedule i t run_at)
  then show ?thesis
    using assms by (auto simp: schedule_db queue_texts_def key_simps set_zset_insert dest!: text_dests)
next
  case (RunRetry i t run_at reason)
  then show ?thesis
    using assms by (auto simp: retry_db queue_texts_def key_simps set_zset_insert dest!: text_dests)
next
  case (RunAck i result)
  then show ?thesis using assms by (auto simp: ack_db queue_texts_def key_simps dest!: text_dests)
next
  case (Side c)
  have "side_cmd c" using assms(4) Side by simp
  then have "queue_texts (exec T (Side c) db) = queue_texts db" by (rule side_texts)
  then show ?thesis using assms(3) Side by simp
qed (use assms Reserve_texts [OF assms(1-3)] PromoteOne_texts [OF assms(1-3)]
    ReclaimOne_texts [OF assms(1-3)] Fail_texts [OF assms(1-3)] RetryDead_texts [OF assms(1-3)] in
    \<open>simp_all del: exec.simps\<close>)

end

section \<open>What makes up a task never changes\<close>

text \<open>The fields a task keeps for its whole life; status, retry count, times and error may change.\<close>

definition task_origin :: "TaskMessage \<Rightarrow> TaskId \<times> string \<times> json \<times> RetryPolicy \<times> int" where
  "task_origin m = (m_id m, m_name m, m_payload m, m_retry_policy m, m_created_at_ms m)"

lemma task_origin_moves [simp]:
  "task_origin (reserved_message now m) = task_origin m"
  "task_origin (promoted_message m) = task_origin m"
  "task_origin (reclaimed_message m) = task_origin m"
  "task_origin (dead_message reason m) = task_origin m"
  "task_origin (revived_message m) = task_origin m"
  by (simp_all add: task_origin_def move_defs)

type_synonym task_origins = "(TaskId \<times> string \<times> json \<times> RetryPolicy \<times> int) set"

definition text_from :: "text_ops \<Rightarrow> task_origins \<Rightarrow> string \<Rightarrow> bool" where
  "text_from T O1 t \<longleftrightarrow> (\<exists>m. carries T t m \<and> task_origin m \<in> O1)"

definition carried :: "text_ops \<Rightarrow> task_origins \<Rightarrow> redis_db \<Rightarrow> bool" where
  "carried T O1 db \<longleftrightarrow> wf_db T db \<and> (\<forall>t \<in> queue_texts db. text_from T O1 t)"

definition carrying :: "text_ops \<Rightarrow> task_origins \<Rightarrow> request \<Rightarrow> bool" where
  "carrying T O1 r \<longleftrightarrow> valid_request T r \<and> request_time r \<and> (\<forall>t \<in> request_texts r. text_from T O1 t)"

context wire_text
begin

lemma text_from_kept: "kept T (text_from T O1)"
  unfolding kept_def text_from_def
proof (intro allI impI; elim exE conjE; intro conjI allI impI)
  fix t m assume m: "carries T t m" "task_origin m \<in> O1"
  note mv = carries_moves [OF m(1)]
  show "\<exists>m. carries T (recode T (running_table now) t) m \<and> task_origin m \<in> O1" if "small now" for now
    using mv(1) [OF that] m(2) by (intro exI [of _ "reserved_message now m"]) simp
  show "\<exists>m. carries T (recode T promoted_table t) m \<and> task_origin m \<in> O1"
    using mv(2) m(2) by (intro exI [of _ "promoted_message m"]) simp
  show "\<exists>m. carries T (recode T reclaimed_table t) m \<and> task_origin m \<in> O1"
    using mv(3) m(2) by (intro exI [of _ "reclaimed_message m"]) simp
  show "\<exists>m. carries T (recode T (dead_table reason) t) m \<and> task_origin m \<in> O1" for reason
    using mv(4) m(2) by (intro exI [of _ "dead_message reason m"]) simp
  show "\<exists>m. carries T (recode T revived_table t) m \<and> task_origin m \<in> O1"
    using mv(5) m(2) by (intro exI [of _ "revived_message m"]) simp
qed

lemma exec_carried: "carrying T O1 r \<Longrightarrow> carried T O1 db \<Longrightarrow> carried T O1 (exec T r db)"
  using exec_texts [OF text_from_kept, of db O1 r] server_step_sim [OF step_request, of r db]
  by (auto simp: carrying_def carried_def simulates_def)

lemma text_fromE:
  assumes "text_from T O1 t"
  obtains m where "carries T t m" "task_origin m \<in> O1" "deliverable m"
    "TaskMessageFromJsonString T t = Inr (PR_Ok m)" "good_text T (TaskId_Value (m_id m)) t"
  using assms carries_good by (auto simp: text_from_def carries_def)

end

context external
begin

lemma carried_invariant: "request_invariant X view (carried T O1) (carrying T O1)"
proof unfold_locales
  show "carried T O1 (exec T r db)" if "carrying T O1 r" "carried T O1 db" for r db
    using exec_carried that .
  show "carrying T O1 r" if "request_free r" for r using that by (cases r) (simp_all add: carrying_def)
qed

text \<open>A reply that reaches the client is one the script gave on a keyspace with the invariant.\<close>

lemma evalsha_result:
  assumes "sim (run_script X i keys args) n" and "loaded X c" and "evalsha X i keys args c = (Inr r, c')"
  shows "n (view (srv c)) = (Inr r, view (srv c'))"
proof -
  have "server_evalsha X (shas c i) keys args (srv c) = (Inr r, srv c')"
    using assms(3) transmit_Inr by (auto simp: evalsha_def)
  moreover have "j = i" if "script_find (rds X) (shas c i) (srv c) = Some j" for j
    using find_sha [OF that] sha_inj assms(2) by (auto simp: loaded_def dest: injD)
  ultimately have "run_script X i keys args (srv c) = (Inr r, srv c')"
    by (auto simp: server_evalsha_def catch_io_def throw_def split: option.splits prod.splits sum.splits)
  then show ?thesis using simD [OF assms(1)] by blast
qed

lemma Eval_result:
  assumes "sim (run_script X i keys args) n" and "keeps I n" and "conn_inv X view I c"
    and "Eval X i keys args c = (Inr r, c')"
  shows "\<exists>db. I db \<and> n db = (Inr r, view (srv c'))"
proof (cases "evalsha X i keys args c")
  case (Pair res d)
  show ?thesis
  proof (cases res)
    case (Inr r')
    then have "evalsha X i keys args c = (Inr r, c')"
      using Pair assms(4) by (simp add: Eval_def catch_io_def)
    then show ?thesis using evalsha_result [OF assms(1)] assms(3) by (auto simp: conn_inv_def)
  next
    case (Inl e)
    have d: "conn_inv X view I d" using keepsD [OF keeps_evalsha [OF assms(1,2)] assms(3)] Pair by simp
    obtain d1 where d1: "LoadScript X i d = (Inr (), d1)" "evalsha X i keys args d1 = (Inr r, c')"
      using assms(4) Pair Inl
      by (auto simp: Eval_def catch_io_def throw_def then_io_def bind_io_def
          split: prod.splits sum.splits if_splits)
    have "conn_inv X view I d1" using keepsD [OF keeps_LoadScript d, of i] d1(1) by simp
    then show ?thesis using evalsha_result [OF assms(1) _ d1(2)] by (auto simp: conn_inv_def)
  qed
qed

lemma reserve_from:
  assumes "list_at db redis_kPending = ts @ [u]" and "text_from T O1 u" and "small now"
    and "kReserveScript (dbx T) redis_kPending redis_kRunning redis_kStatus now db = (Inr (RBulk t), db')"
  shows "\<exists>m. carries T t m \<and> task_origin m \<in> O1 \<and> m_status m = kRunning \<and> m_reserved_at_ms m = Some now"
proof -
  obtain m where m: "carries T u m" "task_origin m \<in> O1"
    and good: "good_text T (TaskId_Value (m_id m)) u" using assms(2) by (rule text_fromE)
  have "t = recode T (running_table now) u"
    using assms(4) reserve_db [OF assms(1) good small_i64 [OF assms(3)]] by simp
  then show ?thesis
    using carries_moves(1) [OF m(1) assms(3)] m(2)
    by (intro exI [of _ "reserved_message now m"]) (simp add: reserved_message_def task_origin_def)
qed

text \<open>What \<open>Reserve\<close> returns was read from the text the script popped on a keyspace with the invariant.\<close>

lemma Reserve_reads:
  assumes inv: "request_invariant X view I ok" "ok (RunReserve now)" and "conn_inv X view I c"
    and "RedisBroker_Reserve X now c = (Inr (Some m), c')"
  obtains db ts u t db' where "I db" "list_at db redis_kPending = ts @ [u]"
    "kReserveScript (dbx T) redis_kPending redis_kRunning redis_kStatus now db = (Inr (RBulk t), db')"
    "TaskMessageFromJsonString T t = Inr (PR_Ok m)"
proof -
  let ?n = "kReserveScript (dbx T) redis_kPending redis_kRunning redis_kStatus now"
  obtain t c1 where ev: "Eval X kReserve [redis_kPending, redis_kRunning, redis_kStatus] [ANum now] c =
      (Inr (RBulk t), c1)" and parsed: "TaskMessageFromJsonString T t = Inr (PR_Ok m)"
    using assms(4)
    by (auto simp: RedisBroker_Reserve_def RedisScripts_Reserve_def bind_io_def lift_io_def ret_def pr_Ok_iff
        split: prod.splits sum.splits option.splits if_splits elim!: as_optional_string.elims)
  have "sim (run_script X kReserve [redis_kPending, redis_kRunning, redis_kStatus] [ANum now]) ?n"
    by (simp add: sim_kReserve key_simps)
  moreover have "keeps I ?n" by (rule request_invariant.keeps_request [OF inv]) simp
  ultimately obtain db where db: "I db" "?n db = (Inr (RBulk t), view (srv c1))"
    using Eval_result [OF _ _ assms(3) ev] by blast
  then obtain ts u where "list_at db redis_kPending = ts @ [u]"
    by (cases "list_at db redis_kPending" rule: rev_cases) (simp_all add: reserve_db_empty)
  with db parsed that show ?thesis by blast
qed

lemma Reserve_carried:
  assumes "conn_inv X view (carried T O1) c" and "small now"
    and "RedisBroker_Reserve X now c = (Inr (Some m), c')"
  shows "deliverable m \<and> task_origin m \<in> O1 \<and> m_status m = kRunning \<and> m_reserved_at_ms m = Some now"
proof -
  have "carrying T O1 (RunReserve now)" using assms(2) small_i64 by (simp add: carrying_def)
  from Reserve_reads [OF carried_invariant this assms(1,3)] obtain db ts u t db' where
    "carried T O1 db" and u: "list_at db redis_kPending = ts @ [u]"
    and run: "kReserveScript (dbx T) redis_kPending redis_kRunning redis_kStatus now db = (Inr (RBulk t), db')"
    and parsed: "TaskMessageFromJsonString T t = Inr (PR_Ok m)" .
  then have "text_from T O1 u" by (simp add: carried_def queue_texts_def)
  from reserve_from [OF u this assms(2) run] show ?thesis using parsed by (fastforce simp: carries_def)
qed

end

interpretation ref_carried: request_invariant ref_ext fst
  "carried (codec ref_ext) O1" "carrying (codec ref_ext) O1" for O1
  by (rule refx.carried_invariant)

section \<open>Workers receive what clients enqueued\<close>

text \<open>
  What a client may do: enqueue a task of the given ones, retry one of them with a policy whose
  next run time is below \<open>10^14\<close> ms, reserve at a time below that, and anything else.
\<close>

fun carrying_call :: "task_origins \<Rightarrow> broker_call \<Rightarrow> bool" where
  "carrying_call O1 (CallEnqueue bytes now m) =
     (deliverable (stored_message bytes now m) \<and> task_origin (stored_message bytes now m) \<in> O1)"
| "carrying_call O1 (CallRetry now m reason) =
     (task_origin m \<in> O1 \<and> (\<forall>m'. retry_message now m reason = Inr m' \<longrightarrow> deliverable m'))"
| "carrying_call O1 (CallReserve now) = small now"
| "carrying_call O1 _ = True"

lemma retry_origin:
  "retry_message now m reason = Inr m' \<Longrightarrow> task_origin m' = task_origin m \<and> m_id m' = m_id m"
  by (auto simp: retry_message_def bind_sum_def Let_def task_origin_def split: sum.splits)

inductive flow_step :: "'s ext \<Rightarrow> ('s \<Rightarrow> redis_db) \<Rightarrow> task_origins \<Rightarrow> 's \<Rightarrow> 's \<Rightarrow> bool" for X view O1 where
  flow_call: "carrying_call O1 cl \<Longrightarrow> loaded X c \<Longrightarrow> flow_step X view O1 (srv c) (srv (snd (run_call X cl c)))"
| flow_other: "carrying (codec X) O1 r \<Longrightarrow> view s' = exec (codec X) r (view s) \<Longrightarrow> flow_step X view O1 s s'"
| flow_cache: "view s' = view s \<Longrightarrow> flow_step X view O1 s s'"

context external
begin

lemma carrying_text:
  "deliverable m \<Longrightarrow> task_origin m \<in> O1 \<Longrightarrow> dump T (TaskMessage_ToJson m) = Inr t \<Longrightarrow>
     text_from T O1 t \<and> good_text T (TaskId_Value (m_id m)) t"
  using carries_dump carries_good by (auto simp: text_from_def)

lemma carrying_call_ok:
  assumes "carrying_call O1 cl"
  shows "call_ok T (carrying T O1) cl"
proof (cases cl)
  case (CallEnqueue bytes now m)
  then show ?thesis
    using assms carrying_text by (auto simp: carrying_def enqueue_request_def)
next
  case (CallRetry now m reason)
  have "carrying T O1 (RunRetry (TaskId_Value (m_id m)) t (the (m_run_at_ms m')) reason)"
    if m': "retry_message now m reason = Inr m'" "dump T (TaskMessage_ToJson m') = Inr t" for m' t
    using assms CallRetry retry_origin [OF m'(1)] carrying_text [of m' O1 t] m' by (simp add: carrying_def)
  then show ?thesis using CallRetry by simp
qed (use assms small_i64 in \<open>simp_all add: carrying_def\<close>)

lemma flow_steps_carried:
  "(flow_step X view O1)\<^sup>*\<^sup>* s s' \<Longrightarrow> carried T O1 (view s) \<Longrightarrow> carried T O1 (view s')"
proof (induction rule: rtranclp_induct)
  case (step s1 s2)
  note inv = request_invariant.keeps_call [OF carried_invariant carrying_call_ok]
  show ?case
    using step(2) step.IH [OF step.prems] keepsD [OF inv] exec_carried
    by (induction rule: flow_step.induct) (auto simp: conn_inv_def)
qed simp

end


definition pending_db :: redis_db where
  "pending_db = exec ref_text (Push (TaskId_Value (m_id sample_message))
     (ser (TaskMessage_ToJson sample_message))) empty_db"

lemma sample_carried: "carried (codec ref_ext) {task_origin sample_message} pending_db"
proof -
  let ?t = "ser (TaskMessage_ToJson sample_message)" and ?O = "{task_origin sample_message}"
  have "text_from (codec ref_ext) ?O ?t \<and> good_text (codec ref_ext) (TaskId_Value (m_id sample_message)) ?t"
    by (rule refx.carrying_text [OF deliverable_sample]) simp_all
  then have "carrying (codec ref_ext) ?O (Push (TaskId_Value (m_id sample_message)) ?t)"
    by (simp add: carrying_def)
  moreover have "carried (codec ref_ext) ?O empty_db"
    by (simp add: carried_def wf_empty queue_texts_def)
  ultimately show ?thesis using refx.exec_carried by (simp add: pending_db_def del: exec.simps)
qed


end
