(* ===== verification/Worker_Outcomes.thy ===== *)
theory Worker_Outcomes
  imports Worker Message_Flow
begin

text \<open>
  What a worker does with the tasks of a Redis broker: the outcome of \<open>ProcessTask\<close> for every
  result of the handler, and the life of a task from the queue to success or to the dead-letter
  list, with its retries and their delays.
\<close>

section \<open>Broker calls of a worker\<close>

lemma on_broker_yields:
  assumes "yields X view m db r db'" and "connected X view (sys_broker s) db"
  shows "\<exists>b. on_broker m s = (r, s\<lparr>sys_broker := b\<rparr>) \<and> connected X view b db'"
  using yieldsD [OF assms] by (auto simp: on_broker_def)

lemma RedisBroker_methods_simps [simp]:
  "b_PromoteDueTasks (RedisBroker_methods X fuel) = RedisBroker_PromoteDueTasks X fuel"
  "b_ReclaimStaleTasks (RedisBroker_methods X fuel) = RedisBroker_ReclaimStaleTasks X"
  "b_Reserve (RedisBroker_methods X fuel) = RedisBroker_Reserve X"
  "b_Ack (RedisBroker_methods X fuel) = RedisBroker_Ack X"
  "b_Retry (RedisBroker_methods X fuel) = RedisBroker_Retry X"
  "b_Fail (RedisBroker_methods X fuel) = RedisBroker_Fail X"
  "b_RecordCounter (RedisBroker_methods X fuel) = RecordCounter X"
  "b_RecordDurationMs (RedisBroker_methods X fuel) = RecordDurationMs X"
  "b_UpsertWorkerHeartbeat (RedisBroker_methods X fuel) = RedisBroker_UpsertWorkerHeartbeat X"
  by (simp_all add: RedisBroker_methods_def)

lemma metrics_only_simps:
  assumes "metrics_only db db'"
  shows "list_at db' = list_at db" "zset_at db' = zset_at db"
    "k \<noteq> redis_kMetrics \<Longrightarrow> hash_at db' k = hash_at db k" "metrics_ok db \<Longrightarrow> metrics_ok db'"
  using assms by (simp_all add: metrics_only_def)

lemma wf_db_metrics_only: "metrics_only db db' \<Longrightarrow> wf_db T db \<Longrightarrow> wf_db T db'"
  by (simp add: wf_db_def metrics_only_def key_simps)

section \<open>The outcome of a task\<close>

text \<open>
  \<open>ended T db db' tid\<close>: the task has left the running table; nothing else changed there.
\<close>

definition dropped_running :: "redis_db \<Rightarrow> redis_db \<Rightarrow> TaskId \<Rightarrow> bool" where
  "dropped_running db db' tid \<longleftrightarrow>
     hash_at db' redis_kRunning = AList.delete (TaskId_Value tid) (hash_at db redis_kRunning)"

definition acked :: "text_ops \<Rightarrow> redis_db \<Rightarrow> redis_db \<Rightarrow> TaskId \<Rightarrow> bool" where
  "acked T db db' tid \<longleftrightarrow>
     dropped_running db db' tid \<and> list_at db' = list_at db \<and> zset_at db' = zset_at db \<and>
     map_of (hash_at db' redis_kStatus) (TaskId_Value tid) = Some ''succeeded'' \<and>
     (\<exists>u. dump T (TaskResult_ToJson (TaskResult_Success empty_object)) = Inr u \<and>
        map_of (hash_at db' redis_kResults) (TaskId_Value tid) = Some u)"

definition retried :: "text_ops \<Rightarrow> redis_db \<Rightarrow> redis_db \<Rightarrow> TaskMessage \<Rightarrow> string \<Rightarrow> bool" where
  "retried T db db' m' reason \<longleftrightarrow>
     dropped_running db db' (m_id m') \<and> list_at db' = list_at db \<and>
     (\<exists>t. dump T (TaskMessage_ToJson m') = Inr t \<and>
        zset_at db' redis_kDelayed =
          zset_insert t (score_of (the (m_run_at_ms m'))) (zset_at db redis_kDelayed)) \<and>
     map_of (hash_at db' redis_kStatus) (TaskId_Value (m_id m')) = Some ''retrying'' \<and>
     map_of (hash_at db' redis_kFailures) (TaskId_Value (m_id m')) = Some reason"

definition buried :: "text_ops \<Rightarrow> redis_db \<Rightarrow> redis_db \<Rightarrow> TaskId \<Rightarrow> string \<Rightarrow> string \<Rightarrow> bool" where
  "buried T db db' tid t reason \<longleftrightarrow>
     dropped_running db db' tid \<and> zset_at db' = zset_at db \<and>
     list_at db' redis_kDead = recode T (dead_table reason) t # list_at db redis_kDead \<and>
     list_at db' redis_kPending = list_at db redis_kPending \<and>
     map_of (hash_at db' redis_kStatus) (TaskId_Value tid) = Some ''dead'' \<and>
     map_of (hash_at db' redis_kFailures) (TaskId_Value tid) = Some reason"

context external
begin

text \<open>The four ways a broker call of \<open>ProcessTask\<close> ends, from a keyspace \<open>db1\<close> reached by recording metrics.\<close>

lemma metered:
  assumes "metrics_only db db1" and "\<exists>db2. yields X view m db1 (Inr ()) db2 \<and> metrics_only (exec T r db1) db2"
    and "wf_db T db" and "metrics_ok db" and "valid_request T r"
    and "hash_at (exec T r db1) redis_kMetrics = hash_at db1 redis_kMetrics"
  shows "\<exists>db2. yields X view m db1 (Inr ()) db2 \<and> metrics_only (exec T r db1) db2 \<and>
    wf_db T db2 \<and> metrics_ok db2"
proof -
  obtain db2 where db2: "yields X view m db1 (Inr ()) db2" "metrics_only (exec T r db1) db2"
    using assms(2) by blast
  have "wf_db T db1" "metrics_ok db1"
    using assms(1,3,4) wf_db_metrics_only metrics_only_simps(4) by blast+
  then have "wf_db T (exec T r db1)" "metrics_ok (exec T r db1)"
    using server_step_sim [OF step_request [OF assms(5)], of db1] assms(6)
    by (simp_all add: simulates_def metrics_ok_def)
  then show ?thesis using db2 wf_db_metrics_only metrics_only_simps(4) by blast
qed

lemma Ack_outcome:
  assumes "metrics_only db db1" and "wf_db T db" and "metrics_ok db"
    and "dump T (TaskResult_ToJson (TaskResult_Success empty_object)) = Inr t"
  shows "\<exists>db'. yields X view (RedisBroker_Ack X tid) db1 (Inr ()) db' \<and> acked T db db' tid \<and>
    wf_db T db' \<and> metrics_ok db'"
proof -
  have met: "hash_at (exec T (RunAck (TaskId_Value tid) t) db1) redis_kMetrics = hash_at db1 redis_kMetrics"
    by (simp add: ack_db key_simps)
  obtain db' where db': "yields X view (RedisBroker_Ack X tid) db1 (Inr ()) db'"
    "metrics_only (exec T (RunAck (TaskId_Value tid) t) db1) db'" "wf_db T db'" "metrics_ok db'"
    using metered [OF assms(1) yields_Ack [OF assms(4)] assms(2,3) _ met] by auto
  then show ?thesis
    using metrics_only_simps [OF assms(1)] assms(4)
    by (intro exI [of _ db']) (simp add: acked_def dropped_running_def metrics_only_def ack_db key_simps)
qed

lemma Retry_outcome:
  assumes "metrics_only db db1" and "wf_db T db" and "metrics_ok db"
    and "retry_message now m reason = Inr m'" and "dump T (TaskMessage_ToJson m') = Inr t" and "storable m"
  shows "\<exists>db'. yields X view (RedisBroker_Retry X now m reason) db1 (Inr ()) db' \<and>
    retried T db db' m' reason \<and> wf_db T db' \<and> metrics_ok db'"
proof -
  let ?r = "RunRetry (TaskId_Value (m_id m)) t (the (m_run_at_ms m')) reason"
  note st = retry_message_storable [OF assms(6,4)]
  have valid: "valid_request T ?r" using storable_text [OF st(1) assms(5)] st(2) by simp
  have met: "hash_at (exec T ?r db1) redis_kMetrics = hash_at db1 redis_kMetrics"
    by (simp add: retry_db key_simps)
  obtain db' where db': "yields X view (RedisBroker_Retry X now m reason) db1 (Inr ()) db'"
    "metrics_only (exec T ?r db1) db'" "wf_db T db'" "metrics_ok db'"
    using metered [OF assms(1) yields_Retry [OF assms(4,5)] assms(2,3) valid met] by auto
  then show ?thesis
    using metrics_only_simps [OF assms(1)] assms(5) st(2)
    by (intro exI [of _ db']) (simp add: retried_def dropped_running_def metrics_only_def retry_db key_simps)
qed

lemma Fail_outcome:
  assumes "metrics_only db db1" and "wf_db T db" and "metrics_ok db"
    and "map_of (hash_at db redis_kRunning) (TaskId_Value tid) = Some t"
  shows "\<exists>db'. yields X view (RedisBroker_Fail X tid reason) db1 (Inr ()) db' \<and>
    buried T db db' tid t reason \<and> wf_db T db' \<and> metrics_ok db'"
proof -
  let ?r = "RunFail (TaskId_Value tid) reason"
  note mo = metrics_only_simps [OF assms(1)]
  have good: "good_text T (TaskId_Value tid) t"
    using assms(2,4) by (auto simp: wf_db_def intro: filedD)
  have run1: "map_of (hash_at db1 redis_kRunning) (TaskId_Value tid) = Some t"
    using assms(4) mo by (simp add: key_simps)
  note db = fail_db [OF run1 good]
  have met: "hash_at (exec T ?r db1) redis_kMetrics = hash_at db1 redis_kMetrics" by (simp add: db key_simps)
  obtain db' where db': "yields X view (RedisBroker_Fail X tid reason) db1 (Inr ()) db'"
    "metrics_only (exec T ?r db1) db'" "wf_db T db'" "metrics_ok db'"
    using metered [OF assms(1) yields_Fail [OF wf_db_metrics_only [OF assms(1,2)]] assms(2,3) _ met] by auto
  then show ?thesis
    using mo
    by (intro exI [of _ db']) (simp add: buried_def dropped_running_def metrics_only_def db key_simps)
qed

end

text \<open>What \<open>ProcessTask\<close> leaves behind, by the handler's result.\<close>

definition task_outcome ::
    "text_ops \<Rightarrow> redis_db \<Rightarrow> redis_db \<Rightarrow> int \<Rightarrow> TaskMessage \<Rightarrow> string \<Rightarrow> TaskResult \<Rightarrow> bool" where
  "task_outcome T db db' now_ms task t result \<longleftrightarrow>
     (if tr_success result then acked T db db' (m_id task)
      else if ShouldRetry task
      then \<exists>m'. retry_message now_ms task (tr_error_message result) = Inr m' \<and>
             retried T db db' m' (tr_error_message result)
      else buried T db db' (m_id task) t (tr_error_message result))"

text \<open>The texts a result can lead to: the acknowledgement and the retried message.\<close>

definition can_settle :: "text_ops \<Rightarrow> int \<Rightarrow> TaskMessage \<Rightarrow> TaskResult \<Rightarrow> bool" where
  "can_settle T now_ms task result \<longleftrightarrow>
     (\<exists>u. dump T (TaskResult_ToJson (TaskResult_Success empty_object)) = Inr u) \<and>
     (\<not> tr_success result \<and> ShouldRetry task \<longrightarrow>
        (\<exists>m' u. retry_message now_ms task (tr_error_message result) = Inr m' \<and>
                dump T (TaskMessage_ToJson m') = Inr u))"

context external
begin

lemma settle_outcome:
  assumes "wf_db T db" and "metrics_ok db" and "storable task"
    and "map_of (hash_at db redis_kRunning) (TaskId_Value (m_id task)) = Some t"
    and "can_settle T now_ms task result" and "in_i64 d"
  shows "\<exists>db'. yields X view
      (then_io (RecordDurationMs X kTaskExecutionDurationMs d)
        (if tr_success result then RedisBroker_Ack X (m_id task)
         else then_io (RecordCounter X kTasksFailedTotal 1)
               (if ShouldRetry task then RedisBroker_Retry X now_ms task (tr_error_message result)
                else RedisBroker_Fail X (m_id task) (tr_error_message result)))) db (Inr ()) db' \<and>
    task_outcome T db db' now_ms task t result \<and> wf_db T db' \<and> metrics_ok db'"
proof -
  obtain db1 where db1: "yields X view (RecordDurationMs X kTaskExecutionDurationMs d) db (Inr ()) db1"
    "metrics_only db db1" using yields_RecordDurationMs [OF assms(2,6)] by blast
  obtain db2 where db2: "yields X view (RecordCounter X kTasksFailedTotal 1) db1 (Inr ()) db2"
    "metrics_only db1 db2" using yields_RecordCounter by blast
  note mo = metrics_only_trans [OF db1(2) db2(2)]
  note then1 = yields_then [OF db1(1)] and then2 = yields_then [OF db1(1) yields_then [OF db2(1)]]
  consider (ack) "tr_success result" | (retry) "\<not> tr_success result" "ShouldRetry task"
    | (fail) "\<not> tr_success result" "\<not> ShouldRetry task" by blast
  then show ?thesis
  proof cases
    case ack
    then show ?thesis
      using Ack_outcome [OF db1(2) assms(1,2)] then1 assms(5)
      by (fastforce simp: task_outcome_def can_settle_def)
  next
    case retry
    then obtain m' u where m': "retry_message now_ms task (tr_error_message result) = Inr m'"
      "dump T (TaskMessage_ToJson m') = Inr u" using assms(5) by (auto simp: can_settle_def)
    show ?thesis
      using Retry_outcome [OF mo assms(1,2) m' assms(3)] then2 retry m'(1)
      by (fastforce simp: task_outcome_def)
  next
    case fail
    then show ?thesis
      using Fail_outcome [OF mo assms(1,2,4), of "tr_error_message result"] then2
      by (fastforce simp: task_outcome_def)
  qed
qed

lemma ProcessTask_outcome:
  assumes "connected X view (sys_broker s) db" and "wf_db T db" and "metrics_ok db" and "storable task"
    and "map_of (hash_at db redis_kRunning) (TaskId_Value (m_id task)) = Some t"
    and "TaskRegistry_HasTask (w_registry (sys_worker s)) (m_name task)"
    and "TaskRegistry_Execute (w_registry (sys_worker s)) (m_name task) (m_payload task) (sys_app s) = (result, a)"
    and "can_settle T now_ms task result" and "in_i64 (elapsed_ms t0 t1)"
  shows "\<exists>s' db'. Worker_ProcessTask (RedisBroker_methods X fuel) t0 t1 now_ms task s = (Inr (), s') \<and>
    connected X view (sys_broker s') db' \<and> sys_worker s' = sys_worker s \<and> sys_app s' = a \<and>
    task_outcome T db db' now_ms task t result \<and> wf_db T db' \<and> metrics_ok db'"
proof -
  obtain db' where y: "yields X view
      (then_io (RecordDurationMs X kTaskExecutionDurationMs (elapsed_ms t0 t1))
        (if tr_success result then RedisBroker_Ack X (m_id task)
         else then_io (RecordCounter X kTasksFailedTotal 1)
               (if ShouldRetry task then RedisBroker_Retry X now_ms task (tr_error_message result)
                else RedisBroker_Fail X (m_id task) (tr_error_message result)))) db (Inr ()) db'"
    and db': "task_outcome T db db' now_ms task t result" "wf_db T db'" "metrics_ok db'"
    using settle_outcome [OF assms(2-5,8,9)] by blast
  have "connected X view (sys_broker (s\<lparr>sys_app := a\<rparr>)) db" using assms(1) by simp
  from on_broker_yields [OF y this] obtain b where
    "Worker_ProcessTask (RedisBroker_methods X fuel) t0 t1 now_ms task s =
      (Inr (), s\<lparr>sys_app := a, sys_broker := b\<rparr>)" "connected X view b db'"
    using assms(6,7) by (auto simp: Worker_ProcessTask_def cong: if_cong)
  then show ?thesis using db' by (intro exI [of _ "s\<lparr>sys_app := a, sys_broker := b\<rparr>"] exI [of _ db']) simp
qed

end

text \<open>
  C12: \<open>ProcessTask\<close> runs the handler once and settles the task by its result, whether the handler
  returned or threw: a success is acknowledged; a failure goes back to the delayed set with the
  next retry count and the computed delay while retries are left, and to the dead-letter list
  with the error otherwise; a task without a handler goes there at once. In each case the task
  leaves the running table and no other task is moved.
\<close>

theorem ProcessTask_effect:
  assumes "external X view" and "connected X view (sys_broker s) db" and "wf_db (codec X) db"
    and "metrics_ok db" and "storable task"
    and "map_of (hash_at db redis_kRunning) (TaskId_Value (m_id task)) = Some t"
    and "TaskRegistry_Execute (w_registry (sys_worker s)) (m_name task) (m_payload task) (sys_app s) = (result, a)"
    and "can_settle (codec X) now_ms task result" and "in_i64 (elapsed_ms t0 t1)"
  shows "\<exists>s' db'. Worker_ProcessTask (RedisBroker_methods X fuel) t0 t1 now_ms task s = (Inr (), s') \<and>
    connected X view (sys_broker s') db' \<and> sys_worker s' = sys_worker s \<and>
    (if TaskRegistry_HasTask (w_registry (sys_worker s)) (m_name task)
     then sys_app s' = a \<and> task_outcome (codec X) db db' now_ms task t result
     else sys_app s' = sys_app s \<and> buried (codec X) db db' (m_id task) t (''unknown task: '' @ m_name task))"
proof (cases "TaskRegistry_HasTask (w_registry (sys_worker s)) (m_name task)")
  case True
  then show ?thesis using external.ProcessTask_outcome [OF assms(1-6) _ assms(7-9), of fuel] by fastforce
next
  case False
  obtain db' where y: "yields X view (RedisBroker_Fail X (m_id task) (''unknown task: '' @ m_name task)) db (Inr ()) db'"
    and db': "buried (codec X) db db' (m_id task) t (''unknown task: '' @ m_name task)"
    using external.Fail_outcome [OF assms(1) metrics_only_refl assms(3,4,6)] by blast
  then show ?thesis
    using on_broker_yields [OF y assms(2)] False
    by (fastforce simp: Worker_ProcessTask_def)
qed

section \<open>One task in the queue\<close>

text \<open>
  \<open>waiting T db m\<close>: the task \<open>m\<close> is the only one in the queues; it is pending, or delayed until
  its run time. \<open>running_alone T db m\<close>: it is the only one and running.
\<close>

definition queued_alone :: "text_ops \<Rightarrow> redis_db \<Rightarrow> TaskMessage \<Rightarrow> string \<Rightarrow> bool" where
  "queued_alone T db m t \<longleftrightarrow>
     (case m_run_at_ms m of
        None \<Rightarrow> list_at db redis_kPending = [t] \<and> zset_at db redis_kDelayed = []
      | Some r \<Rightarrow> list_at db redis_kPending = [] \<and> zset_at db redis_kDelayed = [(t, score_of r)])"

definition waiting :: "text_ops \<Rightarrow> redis_db \<Rightarrow> TaskMessage \<Rightarrow> bool" where
  "waiting T db m \<longleftrightarrow>
     wf_db T db \<and> metrics_ok db \<and> hash_at db redis_kRunning = [] \<and> list_at db redis_kDead = [] \<and>
     (\<exists>t. carries T t m \<and> queued_alone T db m t)"

definition running_alone :: "text_ops \<Rightarrow> redis_db \<Rightarrow> TaskMessage \<Rightarrow> bool" where
  "running_alone T db m \<longleftrightarrow>
     wf_db T db \<and> metrics_ok db \<and> list_at db redis_kPending = [] \<and> zset_at db redis_kDelayed = [] \<and>
     list_at db redis_kDead = [] \<and>
     (\<exists>t. carries T t m \<and> hash_at db redis_kRunning = [(TaskId_Value (m_id m), t)])"

definition ready :: "TaskMessage \<Rightarrow> int \<Rightarrow> bool" where
  "ready m now \<longleftrightarrow> (case m_run_at_ms m of None \<Rightarrow> True | Some r \<Rightarrow> score_of r \<le> score_of now)"

text \<open>The task is the only one, pending and due.\<close>

definition offered :: "text_ops \<Rightarrow> redis_db \<Rightarrow> TaskMessage \<Rightarrow> bool" where
  "offered T db m \<longleftrightarrow>
     wf_db T db \<and> metrics_ok db \<and> hash_at db redis_kRunning = [] \<and> list_at db redis_kDead = [] \<and>
     zset_at db redis_kDelayed = [] \<and> (\<exists>t. carries T t m \<and> list_at db redis_kPending = [t])"

text \<open>The message as the worker gets it.\<close>

definition taken :: "int \<Rightarrow> TaskMessage \<Rightarrow> TaskMessage" where
  "taken now m = reserved_message now (if m_run_at_ms m = None then m else promoted_message m)"

context external
begin

lemma yields_Reclaim_none:
  assumes "hash_at db redis_kRunning = []"
  shows "yields X view (RedisBroker_ReclaimStaleTasks X now timeout) db (Inr 0) db"
  unfolding RedisBroker_ReclaimStaleTasks_def
  by (rule yields_bind [OF yields_do [where r = "RPairs []"]])
    (auto simp: key_simps assms intro: yields_pure(1))

lemma tick_waiting:
  assumes "waiting T db m" and "ready m now" and "1 < fuel"
  shows "\<exists>db'. yields X view (RunSchedulerTick (RedisBroker_methods X fuel) now timeout) db (Inr (Some ())) db' \<and>
    offered T db' (if m_run_at_ms m = None then m else promoted_message m)"
proof -
  obtain t where t: "carries T t m" "queued_alone T db m t"
    using assms(1) by (auto simp: waiting_def)
  have wf: "wf_db T db" using assms(1) by (simp add: waiting_def)
  have due: "due now db = (if m_run_at_ms m = None then [] else [(t, score_of (the (m_run_at_ms m)))])"
    using t(2) assms(2) by (auto simp: queued_alone_def due_def ready_def split: option.splits)
  obtain db' where db': "yields X view (promote_loop X fuel now) db (Inr (Some ())) db'" "wf_db T db'"
    "zset_at db' redis_kDelayed = filter (\<lambda>p. \<not> snd p \<le> score_of now) (zset_at db redis_kDelayed)"
    "list_at db' redis_kPending = rev (map (\<lambda>p. recode T promoted_table (fst p)) (due now db)) @ list_at db redis_kPending"
    "list_at db' redis_kDead = list_at db redis_kDead"
    "\<forall>k. k \<noteq> redis_kStatus \<longrightarrow> hash_at db' k = hash_at db k"
    using promote_loop_effect [OF wf, of now fuel] assms(3) due by (auto split: if_splits)
  have same: "metrics_ok db'" "hash_at db' redis_kRunning = []" "list_at db' redis_kDead = []"
    using db'(5,6) assms(1) by (simp_all add: waiting_def metrics_ok_def key_simps)
  have p: "yields X view (RedisBroker_PromoteDueTasks X fuel now) db (Inr (Some ())) db'"
    by (simp add: RedisBroker_PromoteDueTasks_def db'(1))
  have r: "yields X view (then_io (RedisBroker_ReclaimStaleTasks X now timeout) (ret (Some ()))) db'
      (Inr (Some ())) db'"
    by (rule yields_then [OF yields_Reclaim_none [OF same(2)] yields_pure(1)])
  have "yields X view (RunSchedulerTick (RedisBroker_methods X fuel) now timeout) db (Inr (Some ())) db'"
    unfolding RunSchedulerTick_def RedisBroker_methods_simps by (rule yields_bind [OF p]) (simp add: r)
  moreover have "zset_at db' redis_kDelayed = []"
    using db'(3) t(2) assms(2) by (auto simp: queued_alone_def ready_def split: option.splits)
  moreover have "list_at db' redis_kPending = [if m_run_at_ms m = None then t else recode T promoted_table t]"
    using db'(4) due t(2) by (auto simp: queued_alone_def split: option.splits)
  ultimately show ?thesis
    using same db'(2) t(1) carries_moves(2) [OF t(1)] by (auto simp: offered_def split: if_splits)
qed

text \<open>A poll whose scheduler tick leaves the task on offer reserves it.\<close>

lemma poll_offered:
  assumes "yields X view (RunSchedulerTick (RedisBroker_methods X fuel) tick_ms
      (w_visibility_timeout (sys_worker s))) db (Inr (Some ())) db1"
    and "offered T db1 m" and "small reserve_ms" and "connected X view (sys_broker s) db"
  shows "\<exists>s' db'. Worker_poll (RedisBroker_methods X fuel) tick_ms reserve_ms s =
      (Inr (Some (Some (reserved_message reserve_ms m))), s') \<and>
    s' = s\<lparr>sys_broker := sys_broker s'\<rparr> \<and> connected X view (sys_broker s') db' \<and>
    running_alone T db' (reserved_message reserve_ms m)"
proof -
  let ?m = "reserved_message reserve_ms m"
  obtain t where t: "carries T t m" and db1: "wf_db T db1" "metrics_ok db1" "hash_at db1 redis_kRunning = []"
    "list_at db1 redis_kDead = []" "list_at db1 redis_kPending = [] @ [t]" "zset_at db1 redis_kDelayed = []"
    using assms(2) by (auto simp: offered_def)
  let ?db2 = "exec T (RunReserve reserve_ms) db1" and ?t = "recode T (running_table reserve_ms) t"
  note good = carries_good [OF t] and now = small_i64 [OF assms(3)]
  have ct: "carries T ?t ?m" by (rule carries_moves(1) [OF t assms(3)])
  then have "TaskMessageFromJsonString T ?t = Inr (PR_Ok ?m)" by (simp add: carries_def)
  from yields_Reserve [OF db1(5) good now this]
  have res: "yields X view (RedisBroker_Reserve X reserve_ms) db1 (Inr (Some ?m)) ?db2" by simp
  have "yields X view (bind_io (RunSchedulerTick (RedisBroker_methods X fuel) tick_ms
      (w_visibility_timeout (sys_worker s))) (\<lambda>ticked. case ticked of None \<Rightarrow> ret None
      | Some _ \<Rightarrow> bind_io (RedisBroker_Reserve X reserve_ms) (\<lambda>task. ret (Some task))))
    db (Inr (Some (Some ?m))) ?db2"
    by (rule yields_bind [OF assms(1)]) (simp only: option.case, rule yields_bind [OF res yields_pure(1)])
  from on_broker_yields [OF this assms(4)] obtain b where
    "Worker_poll (RedisBroker_methods X fuel) tick_ms reserve_ms s =
      (Inr (Some (Some ?m)), s\<lparr>sys_broker := b\<rparr>)" "connected X view b ?db2"
    by (auto simp: Worker_poll_def cong: option.case_cong)
  moreover have "running_alone T ?db2 ?m"
    using server_step_sim [OF step_request [of T "RunReserve reserve_ms"] db1(1)] now db1 ct
    by (auto simp: running_alone_def simulates_def metrics_ok_def reserve_db [OF db1(5) good now]
        key_simps move_defs)
  ultimately show ?thesis by (intro exI [of _ "s\<lparr>sys_broker := b\<rparr>"] exI [of _ ?db2]) simp
qed

lemma poll_waiting:
  assumes "waiting T db m" and "ready m tick_ms" and "1 < fuel" and "small reserve_ms"
    and "connected X view (sys_broker s) db"
  shows "\<exists>s' db'. Worker_poll (RedisBroker_methods X fuel) tick_ms reserve_ms s =
      (Inr (Some (Some (taken reserve_ms m))), s') \<and>
    s' = s\<lparr>sys_broker := sys_broker s'\<rparr> \<and> connected X view (sys_broker s') db' \<and>
    running_alone T db' (taken reserve_ms m)"
  unfolding taken_def using tick_waiting [OF assms(1-3)] poll_offered [OF _ _ assms(4,5)] by blast

end

section \<open>The life of a task\<close>

text \<open>The message a failed attempt schedules.\<close>

definition retry_of :: "TaskMessage \<Rightarrow> string \<Rightarrow> int \<Rightarrow> TaskMessage" where
  "retry_of m reason run_at =
     m\<lparr>m_retry_count := m_retry_count m + 1, m_last_error := reason, m_status := kRetrying,
       m_reserved_at_ms := None, m_run_at_ms := Some run_at\<rparr>"

lemma taken_simps [simp]:
  "m_retry_policy (taken now m) = m_retry_policy m" "m_retry_count (taken now m) = m_retry_count m"
  "m_id (taken now m) = m_id m" "m_name (taken now m) = m_name m" "m_payload (taken now m) = m_payload m"
  "task_origin (taken now m) = task_origin m" "ShouldRetry (taken now m) = ShouldRetry m"
  by (simp_all add: taken_def move_defs task_origin_def ShouldRetry_def)

lemma retry_of_simps [simp]:
  "m_retry_policy (retry_of m e t) = m_retry_policy m" "m_retry_count (retry_of m e t) = m_retry_count m + 1"
  "m_id (retry_of m e t) = m_id m" "m_name (retry_of m e t) = m_name m"
  "m_payload (retry_of m e t) = m_payload m" "task_origin (retry_of m e t) = task_origin m"
  "m_run_at_ms (retry_of m e t) = Some t"
  by (simp_all add: retry_of_def task_origin_def)

lemma retry_taken:
  assumes "deliverable m" and "ShouldRetry m"
    and "ComputeRetryDelayMs (m_retry_policy m) (m_retry_count m + 1) = Inr d" and "small (now + d)"
  shows "retry_message now (taken r m) reason = Inr (retry_of m reason (now + d))"
    and "deliverable (retry_of m reason (now + d))"
proof -
  have i32: "in_i32 (m_retry_count m + 1)"
    using assms(1,2)
    by (auto simp: deliverable_def wire_message_def in_range_message_def in_i32_def ShouldRetry_def)
  then show "retry_message now (taken r m) reason = Inr (retry_of m reason (now + d))"
    using assms(3) small_i64 [OF assms(4)]
    by (simp add: retry_message_def Let_def add_i32_def add_i64_def retry_of_def taken_def move_defs)
  show "deliverable (retry_of m reason (now + d))"
    using assms(1,4) i32 small_i64 [OF assms(4)]
    by (simp add: deliverable_def wire_message_def in_range_message_def retry_of_def)
qed

text \<open>The clock readings of one call of \<open>RunOnce\<close>.\<close>

record readings =
  at_tick :: int
  at_reserve :: int
  at_start :: int
  at_finish :: int
  at_retry :: int

definition timely :: "readings \<Rightarrow> bool" where
  "timely r \<longleftrightarrow> small (at_tick r) \<and> small (at_reserve r) \<and> in_i64 (elapsed_ms (at_start r) (at_finish r))"

definition round_of :: "'s Broker \<Rightarrow> readings \<Rightarrow> (('w, 's) system, bool option) io" where
  "round_of B r = Worker_RunOnce B (at_tick r) (at_reserve r) (at_start r) (at_finish r) (at_retry r)"

text \<open>A call of \<open>RunOnce\<close> ran the task \<open>m\<close> it had reserved and settled it.\<close>

definition settled_as ::
    "'s ext \<Rightarrow> ('s \<Rightarrow> redis_db) \<Rightarrow> readings \<Rightarrow> ('w, 's conn) system \<Rightarrow> TaskMessage \<Rightarrow> TaskResult \<Rightarrow> 'w \<Rightarrow>
     ('w, 's conn) system \<Rightarrow> redis_db \<Rightarrow> bool" where
  "settled_as X view r s m result a s' db' \<longleftrightarrow>
     connected X view (sys_broker s') db' \<and> sys_worker s' = sys_worker s \<and> sys_app s' = a \<and>
     wf_db (codec X) db' \<and> metrics_ok db' \<and>
     (\<exists>db0 t. running_alone (codec X) db0 m \<and> carries (codec X) t m \<and>
        hash_at db0 redis_kRunning = [(TaskId_Value (m_id m), t)] \<and>
        task_outcome (codec X) db0 db' (at_retry r) m t result)"

context external
begin

lemma RunOnce_reserved:
  assumes "Worker_poll (RedisBroker_methods X fuel) (at_tick r) (at_reserve r) s = (Inr (Some (Some m)), s1)"
    and "s1 = s\<lparr>sys_broker := sys_broker s1\<rparr>" and "connected X view (sys_broker s1) db0" and "running_alone T db0 m"
    and "timely r" and "\<not> stop (w_thread_pool (sys_worker s))"
    and "TaskRegistry_HasTask (w_registry (sys_worker s)) (m_name m)"
    and "TaskRegistry_Execute (w_registry (sys_worker s)) (m_name m) (m_payload m) (sys_app s) = (result, a)"
    and "can_settle T (at_retry r) m result"
  shows "\<exists>s' db'. round_of (RedisBroker_methods X fuel) r s = (Inr (Some True), s') \<and> settled_as X view r s m result a s' db'"
proof -
  let ?B = "RedisBroker_methods X fuel"
  have w1: "sys_worker s1 = sys_worker s" "sys_app s1 = sys_app s"
    by (subst assms(2), simp)+
  obtain t where t: "carries T t m" "hash_at db0 redis_kRunning = [(TaskId_Value (m_id m), t)]"
    using assms(4) by (auto simp: running_alone_def)
  have st: "storable m" using t(1) by (simp add: carries_def deliverable_storable)
  obtain s' db' where s': "Worker_ProcessTask ?B (at_start r) (at_finish r) (at_retry r) m s1 = (Inr (), s')"
    "connected X view (sys_broker s') db'" "sys_worker s' = sys_worker s1" "sys_app s' = a"
    "task_outcome T db0 db' (at_retry r) m t result" "wf_db T db'" "metrics_ok db'"
    using ProcessTask_outcome [OF assms(3) _ _ st, of t result a "at_retry r" "at_start r" "at_finish r" fuel]
      t(2) assms(4,5,7-9) w1 by (auto simp: running_alone_def timely_def)
  have "tasks (ThreadPool_Submit m (w_thread_pool (sys_worker s1))) \<noteq> []"
    using assms(6) w1 by (simp add: ThreadPool_Submit_def)
  then have "round_of ?B r s = (Inr (Some True), s')"
    using assms(1) s'(1)
    by (simp add: round_of_def Worker_RunOnce_def on_pool_thread_def bind_io_def then_io_def catch_io_def ret_def)
  then show ?thesis using s' w1 assms(4) t by (auto simp: settled_as_def)
qed

lemma RunOnce_outcome:
  assumes "waiting T db m" and "ready m (at_tick r)" and "1 < fuel" and "timely r"
    and "connected X view (sys_broker s) db" and "\<not> stop (w_thread_pool (sys_worker s))"
    and "TaskRegistry_HasTask (w_registry (sys_worker s)) (m_name m)"
    and "TaskRegistry_Execute (w_registry (sys_worker s)) (m_name m) (m_payload m) (sys_app s) = (result, a)"
    and "can_settle T (at_retry r) (taken (at_reserve r) m) result"
  shows "\<exists>s' db'. round_of (RedisBroker_methods X fuel) r s = (Inr (Some True), s') \<and>
    settled_as X view r s (taken (at_reserve r) m) result a s' db'"
proof -
  have "small (at_reserve r)" using assms(4) by (simp add: timely_def)
  from poll_waiting [OF assms(1-3) this assms(5)] show ?thesis
    using RunOnce_reserved [OF _ _ _ _ assms(4,6) _ _ assms(9)] assms(7,8) by (metis taken_simps(4,5))
qed

end

text \<open>Calls of \<open>RunOnce\<close> one after the other, and the handler's results on the way.\<close>

fun rounds :: "'s Broker \<Rightarrow> readings list \<Rightarrow> (('w, 's) system, bool option list) io" where
  "rounds B [] = ret []"
| "rounds B (r # rs) =
     bind_io (round_of B r) (\<lambda>b. bind_io (rounds B rs) (\<lambda>bs. ret (b # bs)))"

fun attempts :: "'w TaskRegistry \<Rightarrow> TaskMessage \<Rightarrow> 'w \<Rightarrow> nat \<Rightarrow> TaskResult list \<times> 'w" where
  "attempts reg m a 0 = ([], a)"
| "attempts reg m a (Suc n) =
     (let (result, a) = TaskRegistry_Execute reg (m_name m) (m_payload m) a;
          (results, a) = attempts reg m a n
      in (result # results, a))"

lemma attempts_cong:
  "m_name m = m_name m' \<Longrightarrow> m_payload m = m_payload m' \<Longrightarrow> attempts reg m a n = attempts reg m' a n"
  by (induction n arbitrary: a) (simp_all split: prod.splits)

text \<open>
  \<open>paced p k rs\<close>: each call after the first comes when the delay of the \<open>k + 1\<close>st, \<open>k + 2\<close>nd,
  \<open>\<dots>\<close> retry has passed since the call before it gave up.
\<close>

fun paced :: "RetryPolicy \<Rightarrow> int \<Rightarrow> readings list \<Rightarrow> bool" where
  "paced p k [] = True"
| "paced p k [r] = timely r"
| "paced p k (r # r' # rs) =
     (timely r \<and>
      (case ComputeRetryDelayMs p (k + 1) of
         Inl _ \<Rightarrow> False
       | Inr d \<Rightarrow> small (at_retry r + d) \<and> at_retry r + d \<le> at_tick r') \<and>
      paced p (k + 1) (r' # rs))"

text \<open>Every text the task may need can be written: names, payload and errors are UTF-8.\<close>

definition printable :: "text_ops \<Rightarrow> TaskMessage \<Rightarrow> TaskResult list \<Rightarrow> bool" where
  "printable T m results \<longleftrightarrow>
     (\<exists>u. dump T (TaskResult_ToJson (TaskResult_Success empty_object)) = Inr u) \<and>
     (\<forall>m' result run_at. task_origin m' = task_origin m \<and> result \<in> set results \<longrightarrow>
        (\<exists>u. dump T (TaskMessage_ToJson (retry_of m' (tr_error_message result) run_at)) = Inr u))"

definition succeeded_alone :: "redis_db \<Rightarrow> TaskMessage \<Rightarrow> bool" where
  "succeeded_alone db m \<longleftrightarrow>
     list_at db redis_kPending = [] \<and> zset_at db redis_kDelayed = [] \<and> hash_at db redis_kRunning = [] \<and>
     list_at db redis_kDead = [] \<and>
     map_of (hash_at db redis_kStatus) (TaskId_Value (m_id m)) = Some ''succeeded'' \<and>
     map_of (hash_at db redis_kResults) (TaskId_Value (m_id m)) \<noteq> None"

definition dead_alone :: "text_ops \<Rightarrow> redis_db \<Rightarrow> TaskMessage \<Rightarrow> string \<Rightarrow> bool" where
  "dead_alone T db m reason \<longleftrightarrow>
     list_at db redis_kPending = [] \<and> zset_at db redis_kDelayed = [] \<and> hash_at db redis_kRunning = [] \<and>
     (\<exists>t d. list_at db redis_kDead = [t] \<and> carries T t d \<and> task_origin d = task_origin m \<and>
        m_status d = kDead \<and> m_retry_count d = max_retries (m_retry_policy m) \<and> m_last_error d = reason) \<and>
     map_of (hash_at db redis_kStatus) (TaskId_Value (m_id m)) = Some ''dead'' \<and>
     map_of (hash_at db redis_kFailures) (TaskId_Value (m_id m)) = Some reason"

context external
begin

lemma outcome_success:
  assumes "running_alone T db0 m" and "task_outcome T db0 db' now m t result" and "tr_success result"
  shows "succeeded_alone db' m"
  using assms by (auto simp: running_alone_def task_outcome_def acked_def dropped_running_def succeeded_alone_def)

lemma outcome_dead:
  assumes "running_alone T db0 m" and "hash_at db0 redis_kRunning = [(TaskId_Value (m_id m), t)]"
    and "task_outcome T db0 db' now m t result" and "\<not> tr_success result"
    and "m_retry_count m = max_retries (m_retry_policy m)"
  shows "dead_alone T db' m (tr_error_message result)"
proof -
  have ct: "carries T t m" using assms(1,2) by (auto simp: running_alone_def)
  have b: "buried T db0 db' (m_id m) t (tr_error_message result)"
    using assms(3-5) by (simp add: task_outcome_def ShouldRetry_def)
  let ?d = "dead_message (tr_error_message result) m"
  have "carries T (recode T (dead_table (tr_error_message result)) t) ?d \<and> task_origin ?d = task_origin m \<and>
      m_status ?d = kDead \<and> m_retry_count ?d = max_retries (m_retry_policy m) \<and>
      m_last_error ?d = tr_error_message result"
    using carries_moves(4) [OF ct] assms(5) by (simp add: dead_message_def task_origin_def)
  then show ?thesis
    using b assms(1,2) by (auto simp: dead_alone_def buried_def dropped_running_def running_alone_def)
qed

lemma outcome_retry:
  assumes "running_alone T db0 (taken i m)" and "hash_at db0 redis_kRunning = [(TaskId_Value (m_id m), t)]"
    and "task_outcome T db0 db' now (taken i m) t result" and "\<not> tr_success result" and "ShouldRetry m"
    and "retry_message now (taken i m) (tr_error_message result) = Inr m'" and "deliverable m'"
    and "m_run_at_ms m' = Some run_at" and "m_id m' = m_id m" and "wf_db T db'" and "metrics_ok db'"
  shows "waiting T db' m'"
proof -
  have r: "retried T db0 db' m' (tr_error_message result)"
    using assms(3-6) by (simp add: task_outcome_def)
  then obtain u where u: "dump T (TaskMessage_ToJson m') = Inr u"
    "zset_at db' redis_kDelayed = zset_insert u (score_of run_at) []"
    using assms(1,8) by (auto simp: retried_def running_alone_def)
  have "carries T u m'" by (rule carries_dump [OF assms(7) u(1)])
  then show ?thesis
    using assms(1,2,8-11) r u(2)
    by (auto simp: waiting_def queued_alone_def running_alone_def retried_def dropped_running_def zset_insert_def)
qed

lemma settled_last:
  assumes "settled_as X view r s (taken i m) result a s' db'"
    and "tr_success result \<or> m_retry_count m = max_retries (m_retry_policy m)"
  shows "if tr_success result then succeeded_alone db' m else dead_alone T db' m (tr_error_message result)"
proof -
  obtain db0 t where db0: "running_alone T db0 (taken i m)" "hash_at db0 redis_kRunning = [(TaskId_Value (m_id m), t)]"
    "task_outcome T db0 db' (at_retry r) (taken i m) t result"
    using assms(1) by (auto simp: settled_as_def)
  show ?thesis
    using outcome_success [OF db0(1,3)] outcome_dead [OF db0(1) _ db0(3)] db0(2) assms(2)
    by (auto simp: succeeded_alone_def dead_alone_def)
qed

lemma settled_retry:
  assumes "settled_as X view r s (taken i m) result a s' db'" and "\<not> tr_success result" and "ShouldRetry m"
    and "deliverable m" and "ComputeRetryDelayMs (m_retry_policy m) (m_retry_count m + 1) = Inr d"
    and "small (at_retry r + d)"
  shows "waiting T db' (retry_of m (tr_error_message result) (at_retry r + d))"
proof -
  obtain db0 t where db0: "running_alone T db0 (taken i m)" "hash_at db0 redis_kRunning = [(TaskId_Value (m_id m), t)]"
    "task_outcome T db0 db' (at_retry r) (taken i m) t result" "wf_db T db'" "metrics_ok db'"
    using assms(1) by (auto simp: settled_as_def)
  show ?thesis
    by (rule outcome_retry [OF db0(1-3) assms(2,3) retry_taken [OF assms(4,3,5,6)] _ _ db0(4,5)]) simp_all
qed

lemma can_settle_taken:
  assumes "printable T m results" and "result \<in> set results"
    and "\<not> tr_success result \<and> ShouldRetry m \<Longrightarrow>
      deliverable m \<and> (\<exists>d. ComputeRetryDelayMs (m_retry_policy m) (m_retry_count m + 1) = Inr d \<and> small (now + d))"
  shows "can_settle T now (taken i m) result"
  using assms retry_taken(1) [of m] by (fastforce simp: can_settle_def printable_def)

lemma last_round:
  assumes "waiting T db m" and "ready m (at_tick r)" and "timely r" and "1 < fuel"
    and "connected X view (sys_broker s) db" and "\<not> stop (w_thread_pool (sys_worker s))"
    and "TaskRegistry_HasTask (w_registry (sys_worker s)) (m_name m)"
    and "TaskRegistry_Execute (w_registry (sys_worker s)) (m_name m) (m_payload m) (sys_app s) = (result, a)"
    and "tr_success result \<or> m_retry_count m = max_retries (m_retry_policy m)"
    and "printable T m results"
  shows "\<exists>s' db'. round_of (RedisBroker_methods X fuel) r s = (Inr (Some True), s') \<and>
    connected X view (sys_broker s') db' \<and> sys_worker s' = sys_worker s \<and> sys_app s' = a \<and>
    (if tr_success result then succeeded_alone db' m else dead_alone T db' m (tr_error_message result))"
proof -
  have settle: "can_settle T (at_retry r) (taken (at_reserve r) m) result"
    using assms(9,10) by (auto simp: can_settle_def printable_def ShouldRetry_def)
  obtain s' db' where s': "round_of (RedisBroker_methods X fuel) r s = (Inr (Some True), s')"
    "settled_as X view r s (taken (at_reserve r) m) result a s' db'"
    using RunOnce_outcome [OF assms(1,2,4,3,5-8) settle] by blast
  show ?thesis
    using s' settled_last [OF s'(2) assms(9)] by (intro exI [of _ s'] exI [of _ db']) (simp add: settled_as_def)
qed

lemma failed_round:
  assumes "waiting T db m" and "ready m (at_tick r)" and "timely r" and "1 < fuel"
    and "connected X view (sys_broker s) db" and "\<not> stop (w_thread_pool (sys_worker s))"
    and "TaskRegistry_HasTask (w_registry (sys_worker s)) (m_name m)"
    and "TaskRegistry_Execute (w_registry (sys_worker s)) (m_name m) (m_payload m) (sys_app s) = (result, a)"
    and "\<not> tr_success result" and "ShouldRetry m" and "printable T m results" and "result \<in> set results"
    and "ComputeRetryDelayMs (m_retry_policy m) (m_retry_count m + 1) = Inr d" and "small (at_retry r + d)"
  shows "\<exists>s' db'. round_of (RedisBroker_methods X fuel) r s = (Inr (Some True), s') \<and>
    connected X view (sys_broker s') db' \<and> sys_worker s' = sys_worker s \<and> sys_app s' = a \<and>
    waiting T db' (retry_of m (tr_error_message result) (at_retry r + d))"
proof -
  have del: "deliverable m" using assms(1) by (auto simp: waiting_def carries_def)
  have settle: "can_settle T (at_retry r) (taken (at_reserve r) m) result"
    by (rule can_settle_taken [OF assms(11,12)]) (use del assms(13,14) in blast)
  obtain s' db' where s': "round_of (RedisBroker_methods X fuel) r s = (Inr (Some True), s')"
    "settled_as X view r s (taken (at_reserve r) m) result a s' db'"
    using RunOnce_outcome [OF assms(1,2,4,3,5-8) settle] by blast
  show ?thesis
    using s' settled_retry [OF s'(2) assms(9,10) del assms(13,14)]
    by (intro exI [of _ s'] exI [of _ db']) (simp add: settled_as_def)
qed

lemma life_of_task:
  assumes "rs \<noteq> []" and "waiting T db m" and "ready m (at_tick (hd rs))"
    and "paced (m_retry_policy m) (m_retry_count m) rs" and "1 < fuel"
    and "connected X view (sys_broker s) db" and "\<not> stop (w_thread_pool (sys_worker s))"
    and "TaskRegistry_HasTask (w_registry (sys_worker s)) (m_name m)"
    and "attempts (w_registry (sys_worker s)) m (sys_app s) (length rs) = (results, a)"
    and "\<forall>result \<in> set (butlast results). \<not> tr_success result"
    and "int (length rs) \<le> max_retries (m_retry_policy m) - m_retry_count m + 1"
    and "tr_success (last results) \<or> int (length rs) = max_retries (m_retry_policy m) - m_retry_count m + 1"
    and "printable T m results"
  shows "\<exists>s' db'. rounds (RedisBroker_methods X fuel) rs s = (Inr (replicate (length rs) (Some True)), s') \<and>
    connected X view (sys_broker s') db' \<and> sys_worker s' = sys_worker s \<and> sys_app s' = a \<and>
    (if tr_success (last results) then succeeded_alone db' m
     else dead_alone T db' m (tr_error_message (last results)))"
  using assms
proof (induction rs arbitrary: db m s results)
  case Nil
  then show ?case by simp
next
  case (Cons r rs)
  let ?B = "RedisBroker_methods X fuel" and ?reg = "w_registry (sys_worker s)"
  obtain result a1 results' where ex: "TaskRegistry_Execute ?reg (m_name m) (m_payload m) (sys_app s) = (result, a1)"
    and rest: "attempts ?reg m a1 (length rs) = (results', a)" and results: "results = result # results'"
    using Cons.prems(9) by (auto split: prod.splits)
  have now: "ready m (at_tick r)" "timely r" using Cons.prems(3,4) by (cases rs; simp)+
  show ?case
  proof (cases rs)
    case Nil
    then show ?thesis
      using last_round [OF Cons.prems(2) now Cons.prems(5-8) ex _ Cons.prems(13)] Cons.prems(12) results rest
      by (fastforce simp: bind_io_def ret_def)
  next
    case rs: (Cons r' rs')
    obtain d where d: "ComputeRetryDelayMs (m_retry_policy m) (m_retry_count m + 1) = Inr d"
      "small (at_retry r + d)" "at_retry r + d \<le> at_tick r'" "paced (m_retry_policy m) (m_retry_count m + 1) rs"
      using Cons.prems(4) rs by (auto split: sum.splits)
    let ?m' = "retry_of m (tr_error_message result) (at_retry r + d)"
    have len: "results' \<noteq> []" using rest rs by (auto split: prod.splits)
    have fails: "\<not> tr_success result" "ShouldRetry m"
      using Cons.prems(10,11) results rs len by (auto simp: ShouldRetry_def)
    obtain s1 db1 where s1: "round_of ?B r s = (Inr (Some True), s1)" "connected X view (sys_broker s1) db1"
      "sys_worker s1 = sys_worker s" "sys_app s1 = a1" "waiting T db1 ?m'"
      using failed_round [OF Cons.prems(2) now Cons.prems(5-8) ex fails Cons.prems(13) _ d(1,2)] results by auto
    have "ready ?m' (at_tick r')"
      using d(2,3,4) rs score_le by (cases rs') (auto simp: ready_def timely_def)
    moreover have "attempts (w_registry (sys_worker s1)) ?m' (sys_app s1) (length rs) = (results', a)"
      using rest s1(3,4) attempts_cong [of ?m' m ?reg a1 "length rs"] by simp
    moreover have "printable T ?m' results'" using Cons.prems(13) results by (simp add: printable_def)
    ultimately obtain s' db' where "rounds ?B rs s1 = (Inr (replicate (length rs) (Some True)), s')"
      "connected X view (sys_broker s') db'" "sys_worker s' = sys_worker s1" "sys_app s' = a"
      "if tr_success (last results') then succeeded_alone db' ?m'
       else dead_alone T db' ?m' (tr_error_message (last results'))"
      using Cons.IH [OF _ s1(5) _ _ Cons.prems(5) s1(2), of results'] rs d(4) s1(3) Cons.prems(7,8,10-12) results len
      by auto
    then show ?thesis
      using s1 results len
      by (intro exI [of _ s'] exI [of _ db'])
        (auto simp: bind_io_def ret_def succeeded_alone_def dead_alone_def)
  qed
qed

end

text \<open>
  C5: the life of a task. A task alone in the queue, whose handler is registered, is run again
  after each failure, each time when its computed delay has passed, until an attempt succeeds
  or the retries of its policy are used up; every \<open>RunOnce\<close> returns true and the handler runs
  exactly once in each. In the first case the task is then marked succeeded with a stored
  result and no queue holds it; in the second it is the one entry of the dead-letter list,
  unaltered, with \<open>max_retries\<close> as its retry count and the last error, which is also its
  failure reason.
\<close>

theorem task_run_until_settled:
  assumes "external X view" and "rs \<noteq> []" and "waiting (codec X) db m" and "ready m (at_tick (hd rs))"
    and "paced (m_retry_policy m) (m_retry_count m) rs" and "1 < fuel"
    and "connected X view (sys_broker s) db" and "\<not> stop (w_thread_pool (sys_worker s))"
    and "TaskRegistry_HasTask (w_registry (sys_worker s)) (m_name m)"
    and "attempts (w_registry (sys_worker s)) m (sys_app s) (length rs) = (results, a)"
    and "\<forall>result \<in> set (butlast results). \<not> tr_success result"
    and "int (length rs) \<le> max_retries (m_retry_policy m) - m_retry_count m + 1"
    and "tr_success (last results) \<or> int (length rs) = max_retries (m_retry_policy m) - m_retry_count m + 1"
    and "printable (codec X) m results"
  shows "\<exists>s' db'. rounds (RedisBroker_methods X fuel) rs s = (Inr (replicate (length rs) (Some True)), s') \<and>
    connected X view (sys_broker s') db' \<and> sys_app s' = a \<and>
    (if tr_success (last results) then succeeded_alone db' m
     else dead_alone (codec X) db' m (tr_error_message (last results)))"
  using external.life_of_task [OF assms] by blast

text \<open>A handler that throws once and then succeeds; the application counts its runs.\<close>

definition flaky_handler :: "nat TaskHandler" where
  "flaky_handler payload n =
     (if n = 0 then (Inl (StdException ''boom''), 1) else (Inr (TaskResult_Success empty_object), n + 1))"

definition flaky_worker :: "nat Worker" where
  "flaky_worker =
     \<lparr>w_registry = TaskRegistry_RegisterTask (m_name sample_message) flaky_handler TaskRegistry_empty,
      w_thread_pool = ThreadPool_create 1, w_running = False, w_worker_id = ''w'', w_hostname = ''h'',
      w_pid = 1, w_started_at_ms = 0, w_poll_interval = 100, w_visibility_timeout = 30000,
      w_heartbeat_interval = 5000, w_heartbeat_ttl_seconds = 15, w_last_heartbeat_at = 0\<rparr>"

definition reading_at :: "int \<Rightarrow> readings" where
  "reading_at t = \<lparr>at_tick = t, at_reserve = t, at_start = 0, at_finish = 0, at_retry = t\<rparr>"

lemma waiting_sample: "waiting (codec ref_ext) pending_db sample_message"
proof -
  have "carries (codec ref_ext) (ser (TaskMessage_ToJson sample_message)) sample_message"
    by (rule refx.carries_dump [OF deliverable_sample]) simp
  moreover have "m_run_at_ms sample_message = None"
    by (simp add: sample_message_def TaskMessage_Create_def TaskMessage_default_def)
  moreover have "wf_db (codec ref_ext) pending_db" using sample_carried by (simp add: carried_def)
  ultimately show ?thesis
    by (auto simp: waiting_def queued_alone_def metrics_ok_def pending_db_def push_db key_simps)
qed

theorem task_run_until_settled_witness:
  "\<exists>s' db'. rounds (RedisBroker_methods ref_ext 2) [reading_at 1000, reading_at 2000]
      \<lparr>sys_worker = flaky_worker, sys_app = 0, sys_broker = ref_conn pending_db\<rparr> =
      (Inr [Some True, Some True], s') \<and>
    connected ref_ext fst (sys_broker s') db' \<and> sys_app s' = 2 \<and> succeeded_alone db' sample_message"
proof -
  let ?s = "\<lparr>sys_worker = flaky_worker, sys_app = 0, sys_broker = ref_conn pending_db\<rparr> :: (nat, mem_server conn) system"
  let ?results = "[TaskResult_Failure ''boom'', TaskResult_Success empty_object]"
  have pol: "m_retry_policy sample_message = RetryPolicy_default" "m_retry_count sample_message = 0"
    "m_run_at_ms sample_message = None"
    by (simp_all add: sample_message_def TaskMessage_Create_def TaskMessage_default_def)
  have "ComputeRetryDelayMs RetryPolicy_default 1 = Inr 1000"
    using delay_doubling [of RetryPolicy_default 1] by (simp add: RetryPolicy_default_def)
  then have paced: "paced (m_retry_policy sample_message) (m_retry_count sample_message) [reading_at 1000, reading_at 2000]"
    by (simp add: pol timely_def reading_at_def small_def elapsed_ms_def in_i64_def)
  have att: "attempts (w_registry (sys_worker ?s)) sample_message (sys_app ?s) 2 = (?results, 2)"
    by (simp add: numeral_2_eq_2 flaky_worker_def Execute_registered flaky_handler_def)
  have pr: "printable (codec ref_ext) sample_message ?results" by (simp add: printable_def)
  have last: "tr_success (last ?results)" "\<forall>result \<in> set (butlast ?results). \<not> tr_success result"
    by (simp_all add: TaskResult_Success_def TaskResult_Failure_def TaskResult_default_def)
  have "\<exists>s' db'. rounds (RedisBroker_methods ref_ext 2) [reading_at 1000, reading_at 2000] ?s =
      (Inr (replicate (length [reading_at 1000, reading_at 2000]) (Some True)), s') \<and>
    connected ref_ext fst (sys_broker s') db' \<and> sys_app s' = 2 \<and>
    (if tr_success (last ?results) then succeeded_alone db' sample_message
     else dead_alone (codec ref_ext) db' sample_message (tr_error_message (last ?results)))"
    by (rule task_run_until_settled [OF refx.external_axioms _ waiting_sample _ paced])
      (use att pr last in \<open>simp_all add: pol ready_def flaky_worker_def ThreadPool_create_def
        RetryPolicy_default_def numeral_2_eq_2 del: attempts.simps\<close>)
  then show ?thesis using last(1) by (simp del: rounds.simps)
qed

lemma running_sample_db:
  "\<exists>db t. wf_db (codec ref_ext) db \<and> metrics_ok db \<and>
     map_of (hash_at db redis_kRunning) (TaskId_Value (m_id sample_message)) = Some t"
proof -
  have "ready sample_message 0"
    by (simp add: ready_def sample_message_def TaskMessage_Create_def TaskMessage_default_def)
  then obtain db where "running_alone (codec ref_ext) db (taken 0 sample_message)"
    using refx.poll_waiting [OF waiting_sample, of 0 2 0 "\<lparr>sys_worker = flaky_worker, sys_app = 0,
      sys_broker = ref_conn pending_db\<rparr>"] by (fastforce simp: small_def)
  then show ?thesis by (auto simp: running_alone_def)
qed

theorem ProcessTask_effect_witness:
  "\<exists>db s' db'. Worker_ProcessTask (RedisBroker_methods ref_ext 2) 0 0 1000 sample_message
      \<lparr>sys_worker = flaky_worker, sys_app = 1, sys_broker = ref_conn db\<rparr> = (Inr (), s') \<and>
    sys_app s' = 2 \<and> acked (codec ref_ext) db db' (m_id sample_message)"
proof -
  obtain db t where db: "wf_db (codec ref_ext) db" "metrics_ok db"
    "map_of (hash_at db redis_kRunning) (TaskId_Value (m_id sample_message)) = Some t"
    using running_sample_db by blast
  let ?s = "\<lparr>sys_worker = flaky_worker, sys_app = 1, sys_broker = ref_conn db\<rparr> :: (nat, mem_server conn) system"
  have ex: "TaskRegistry_Execute (w_registry (sys_worker ?s)) (m_name sample_message) (m_payload sample_message)
      (sys_app ?s) = (TaskResult_Success empty_object, 2)"
    by (simp add: flaky_worker_def Execute_registered flaky_handler_def)
  have ok: "can_settle (codec ref_ext) 1000 sample_message (TaskResult_Success empty_object)"
    by (simp add: can_settle_def TaskResult_Success_def)
  have "TaskRegistry_HasTask (w_registry flaky_worker) (m_name sample_message)" by (simp add: flaky_worker_def)
  then show ?thesis
    using ProcessTask_effect [OF refx.external_axioms _ db(1,2) storable_sample db(3) ex ok, of 0 0 2]
    by (fastforce simp: elapsed_ms_def in_i64_def task_outcome_def TaskResult_Success_def)
qed

text \<open>
  C35: a worker whose pool was shut down, as \<open>Run\<close> leaves it, is of no use but does not say so.
  \<open>RunOnce\<close> still reserves a task and returns true, but \<open>Submit\<close> drops it: the handler is not run
  and the task stays in the running table until its visibility timeout.
\<close>

theorem stopped_worker_drops_task:
  assumes "external X view" and "waiting (codec X) db m" and "ready m (at_tick r)" and "timely r"
    and "1 < fuel" and "connected X view (sys_broker s) db"
    and "stop (w_thread_pool (sys_worker s))" and "tasks (w_thread_pool (sys_worker s)) = []"
  shows "\<exists>s' db'. round_of (RedisBroker_methods X fuel) r s = (Inr (Some True), s') \<and>
    sys_app s' = sys_app s \<and> connected X view (sys_broker s') db' \<and>
    running_alone (codec X) db' (taken (at_reserve r) m)"
proof -
  let ?m = "taken (at_reserve r) m" and ?B = "RedisBroker_methods X fuel"
  obtain s1 db' where poll: "Worker_poll ?B (at_tick r) (at_reserve r) s = (Inr (Some (Some ?m)), s1)"
    and s1: "s1 = s\<lparr>sys_broker := sys_broker s1\<rparr>" "connected X view (sys_broker s1) db'"
    and db': "running_alone (codec X) db' ?m"
    using external.poll_waiting [OF assms(1,2,3,5) _ assms(6), of "at_reserve r"] assms(4)
    by (auto simp: timely_def)
  have w1: "sys_worker s1 = sys_worker s" "sys_app s1 = sys_app s" by (subst s1(1), simp)+
  then have "round_of ?B r s = (Inr (Some True), s1)"
    using poll assms(7,8)
    by (simp add: round_of_def Worker_RunOnce_def ThreadPool_Submit_def bind_io_def)
  then show ?thesis using w1 s1(2) db' by (intro exI [of _ s1] exI [of _ db']) simp
qed

theorem stopped_worker_drops_task_witness:
  "\<exists>s'. round_of (RedisBroker_methods ref_ext 2) (reading_at 1000)
      \<lparr>sys_worker = flaky_worker\<lparr>w_thread_pool := ThreadPool_Shutdown (ThreadPool_create 1)\<rparr>,
       sys_app = 0, sys_broker = ref_conn pending_db\<rparr> = (Inr (Some True), s') \<and> sys_app s' = 0"
proof -
  have "m_run_at_ms sample_message = None"
    by (simp add: sample_message_def TaskMessage_Create_def TaskMessage_default_def)
  then show ?thesis
    using stopped_worker_drops_task [OF refx.external_axioms waiting_sample, of "reading_at 1000" 2
      "\<lparr>sys_worker = flaky_worker\<lparr>w_thread_pool := ThreadPool_Shutdown (ThreadPool_create 1)\<rparr>,
       sys_app = 0, sys_broker = ref_conn pending_db\<rparr>"]
    by (fastforce simp: ready_def timely_def reading_at_def small_def elapsed_ms_def in_i64_def
        ThreadPool_Shutdown_def ThreadPool_create_def)
qed

end
