(* ===== verification/Heartbeats.thy ===== *)
theory Heartbeats
  imports Worker Outcomes
begin

text \<open>
  Heartbeats from the worker to the listing: what \<open>UpsertWorkerHeartbeat\<close> writes
  (src/redis_broker.cc) is what \<open>ListWorkers\<close> reads back, the queues are untouched, and
  \<open>MaybePublishHeartbeat\<close> (src/worker.cc) writes at most once per interval.
\<close>

definition heartbeat_fields :: "WorkerHeartbeat \<Rightarrow> (string \<times> string) list" where
  "heartbeat_fields h =
     [(''worker_id'', worker_id h), (''hostname'', hostname h), (''pid'', to_string (pid h)),
      (''started_at'', to_string (started_at_ms h)), (''last_seen'', to_string (last_seen_ms h)),
      (''concurrency'', to_string (uint (concurrency h))),
      (''currently_running'', to_string (uint (currently_running h)))]"

text \<open>\<open>db'\<close> is \<open>db\<close> with a heartbeat written under its key.\<close>

definition published :: "WorkerHeartbeat \<Rightarrow> redis_db \<Rightarrow> redis_db \<Rightarrow> bool" where
  "published h db db' \<longleftrightarrow>
     list_at db' = list_at db \<and> zset_at db' = zset_at db \<and>
     (\<forall>k. k \<noteq> WorkerKey (worker_id h) \<longrightarrow> hash_at db' k = hash_at db k) \<and>
     hash_at db' (WorkerKey (worker_id h)) =
       foldl (\<lambda>m (f, v). AList.update f v m) (hash_at db (WorkerKey (worker_id h))) (heartbeat_fields h)"

text \<open>The fields a heartbeat needs to be representable.\<close>

definition in_range_heartbeat :: "WorkerHeartbeat \<Rightarrow> bool" where
  "in_range_heartbeat h \<longleftrightarrow> in_i64 (pid h) \<and> in_i64 (started_at_ms h) \<and> in_i64 (last_seen_ms h)"

lemma published_reads:
  assumes "published h db db'" and "in_range_heartbeat h"
  shows "WorkerHeartbeatFromHash (hash_at db' (WorkerKey (worker_id h))) = Inr h"
    and "hash_at db' (WorkerKey (worker_id h)) \<noteq> []"
proof -
  let ?f = "hash_at db' (WorkerKey (worker_id h))"
  have f: "map_of ?f ''worker_id'' = Some (worker_id h)" "map_of ?f ''hostname'' = Some (hostname h)"
    "map_of ?f ''pid'' = Some (to_string (pid h))" "map_of ?f ''started_at'' = Some (to_string (started_at_ms h))"
    "map_of ?f ''last_seen'' = Some (to_string (last_seen_ms h))"
    "map_of ?f ''concurrency'' = Some (to_string (uint (concurrency h)))"
    "map_of ?f ''currently_running'' = Some (to_string (uint (currently_running h)))"
    using assms(1) by (simp_all add: published_def heartbeat_fields_def update_conv')
  show "WorkerHeartbeatFromHash ?f = Inr h"
    using assms(2)
    by (simp add: WorkerHeartbeatFromHash_def hash_ParseInt64Field_def hash_ParseSizeField_def f
        in_range_heartbeat_def bind_sum_def)
  show "?f \<noteq> []" using f(1) by auto
qed

text \<open>Writing fields one after the other.\<close>

definition put_fields :: "string \<Rightarrow> (string \<times> string) list \<Rightarrow> redis_db \<Rightarrow> redis_db" where
  "put_fields k fs db = foldl (\<lambda>db (f, v). put_hash k (AList.update f v (hash_at db k)) db) db fs"

lemma put_fields_at [simp]:
  "list_at (put_fields k fs db) = list_at db" "zset_at (put_fields k fs db) = zset_at db"
  "k' \<noteq> k \<Longrightarrow> hash_at (put_fields k fs db) k' = hash_at db k'"
  "hash_at (put_fields k fs db) k = foldl (\<lambda>m (f, v). AList.update f v m) (hash_at db k) fs"
  by (induction fs arbitrary: db; auto simp: put_fields_def split: prod.splits)+

lemma published_intro:
  "hash_at db' = hash_at (put_fields (WorkerKey (worker_id h)) (heartbeat_fields h) db) \<Longrightarrow>
   list_at db' = list_at db \<Longrightarrow> zset_at db' = zset_at db \<Longrightarrow> published h db db'"
  by (simp add: published_def)

context external
begin

lemma yields_hset:
  "yields X view (redis_do (rds X) (HSET (WorkerKey w) f v)) db
     (Inr (RInt (if map_of (hash_at db (WorkerKey w)) f = None then 1 else 0)))
     (put_hash (WorkerKey w) (AList.update f v (hash_at db (WorkerKey w))) db)"
  by (rule yields_do) (simp_all add: key_simps)

lemma yields_expire:
  "\<exists>r db'. yields X view (redis_do (rds X) (EXPIRE (WorkerKey w) ttl)) db (Inr r) db' \<and>
     hash_at db' = hash_at db \<and> list_at db' = list_at db \<and> zset_at db' = zset_at db"
proof -
  have "yields X view (redis_do (rds X) (EXPIRE (WorkerKey w) ttl)) db
      (Inr (fst (redis_sem (EXPIRE (WorkerKey w) ttl) db))) (snd (redis_sem (EXPIRE (WorkerKey w) ttl) db))"
    by (rule yields_do) (simp_all add: key_simps)
  then show ?thesis by (intro exI conjI) (assumption | simp)+
qed

lemma yields_puts:
  "yields X view m (put_fields (WorkerKey w) fs db) r db' \<Longrightarrow>
   yields X view (foldr (\<lambda>(f, v). then_io (redis_do (rds X) (HSET (WorkerKey w) f v))) fs m) db r db'"
proof (induction fs arbitrary: db)
  case (Cons p fs)
  then show ?case by (cases p) (auto simp: put_fields_def intro!: yields_then [OF yields_hset])
qed (simp add: put_fields_def)

lemma yields_heartbeat:
  "\<exists>db'. yields X view (RedisBroker_UpsertWorkerHeartbeat X h ttl) db (Inr ()) db' \<and> published h db db'"
proof -
  let ?k = "WorkerKey (worker_id h)"
  let ?db = "put_fields ?k (heartbeat_fields h) db"
  let ?last = "if ttl > 0 then then_io (redis_do (rds X) (EXPIRE ?k ttl)) (ret ()) else ret ()"
  obtain db' where last: "yields X view ?last ?db (Inr ()) db'" "published h db db'"
  proof (cases "ttl > 0")
    case True
    obtain r db' where db': "yields X view (redis_do (rds X) (EXPIRE ?k ttl)) ?db (Inr r) db'"
      "hash_at db' = hash_at ?db" "list_at db' = list_at ?db" "zset_at db' = zset_at ?db"
      using yields_expire by metis
    have "yields X view ?last ?db (Inr ()) db'" using True yields_then [OF db'(1) yields_pure(1)] by simp
    moreover have "published h db db'" using db'(2-4) by (simp add: published_intro)
    ultimately show thesis by (rule that)
  next
    case False
    then show thesis using that [of ?db] by (simp add: published_intro yields_pure)
  qed
  have "RedisBroker_UpsertWorkerHeartbeat X h ttl =
      foldr (\<lambda>(f, v). then_io (redis_do (rds X) (HSET ?k f v))) (heartbeat_fields h) ?last"
    by (simp add: RedisBroker_UpsertWorkerHeartbeat_def Let_def heartbeat_fields_def)
  then show ?thesis using yields_puts [OF last(1)] last(2) by auto
qed

end

section \<open>The listing\<close>

text \<open>What the loop of \<open>ListWorkers\<close> computes from the keyspace.\<close>

fun listed :: "redis_db \<Rightarrow> string list \<Rightarrow> exn + WorkerHeartbeat list" where
  "listed db [] = Inr []"
| "listed db (k # ks) =
     (if hash_at db k = [] then listed db ks
      else bind_sum (WorkerHeartbeatFromHash (hash_at db k)) (\<lambda>h.
           bind_sum (listed db ks) (\<lambda>hs. Inr (h # hs))))"

definition worker_keys :: "redis_db \<Rightarrow> string list" where
  "worker_keys db =
     filter (\<lambda>k. take (length redis_kWorkersPrefix) k = redis_kWorkersPrefix \<and> hash_at db k \<noteq> [])
       (remdups (map fst (db_hashes db)))"

definition workers_in :: "redis_db \<Rightarrow> WorkerHeartbeat set" where
  "workers_in db =
     {h. hash_at db (WorkerKey (worker_id h)) \<noteq> [] \<and>
         WorkerHeartbeatFromHash (hash_at db (WorkerKey (worker_id h))) = Inr h}"

text \<open>Every key of a worker holds a heartbeat of that worker.\<close>

definition roster :: "redis_db \<Rightarrow> bool" where
  "roster db \<longleftrightarrow>
     (\<forall>w. hash_at db (WorkerKey w) \<noteq> [] \<longrightarrow>
        (\<exists>h. WorkerHeartbeatFromHash (hash_at db (WorkerKey w)) = Inr h \<and> worker_id h = w))"

lemma WorkerKey_inject [simp]: "WorkerKey v = WorkerKey w \<longleftrightarrow> v = w"
  by (simp add: WorkerKey_def)

lemma worker_keys_iff: "k \<in> set (worker_keys db) \<longleftrightarrow> (\<exists>w. k = WorkerKey w \<and> hash_at db k \<noteq> [])"
proof -
  have "k \<in> fst ` set (db_hashes db)" if "hash_at db k \<noteq> []"
    using that by (force simp: hash_at_def lookup_default_def split: option.splits dest: map_of_SomeD)
  moreover have "(take (length redis_kWorkersPrefix) k = redis_kWorkersPrefix) = (\<exists>w. k = WorkerKey w)"
    by (auto simp: WorkerKey_def) (metis append_take_drop_id)
  ultimately show ?thesis by (auto simp: worker_keys_def)
qed

lemma listed_roster:
  assumes "roster db" and "set ks \<subseteq> set (worker_keys db)"
  shows "\<exists>hs. listed db ks = Inr hs \<and> set hs = {h \<in> workers_in db. WorkerKey (worker_id h) \<in> set ks}"
  using assms(2)
proof (induction ks)
  case (Cons k ks)
  then obtain w where w: "k = WorkerKey w" "hash_at db k \<noteq> []" by (auto simp: worker_keys_iff)
  then obtain h where h: "WorkerHeartbeatFromHash (hash_at db k) = Inr h" "worker_id h = w"
    using assms(1) by (auto simp: roster_def)
  obtain hs where hs: "listed db ks = Inr hs" "set hs = {h \<in> workers_in db. WorkerKey (worker_id h) \<in> set ks}"
    using Cons by auto
  have "{h \<in> workers_in db. WorkerKey (worker_id h) = k} = {h}" using w h by (auto simp: workers_in_def)
  then show ?case using w h hs by (auto simp: bind_sum_def)
qed simp

context external
begin

lemma yields_list_workers_loop:
  "\<forall>k \<in> set ks. kind_of k = HashKey \<Longrightarrow> yields X view (list_workers_loop X ks) db (listed db ks) db"
proof (induction ks)
  case (Cons k ks)
  have get: "yields X view (redis_do (rds X) (HGETALL k)) db (Inr (RPairs (hash_at db k))) db"
    using Cons.prems by (intro yields_do) simp_all
  show ?case
  proof (cases "WorkerHeartbeatFromHash (hash_at db k)")
    case (Inl e)
    then show ?thesis using Cons by (auto intro!: yields_bind [OF get] yields_pure simp: bind_sum_def)
  next
    case (Inr h)
    have "yields X view (bind_io (list_workers_loop X ks) (\<lambda>hs. ret (h # hs))) db
        (bind_sum (listed db ks) (\<lambda>hs. Inr (h # hs))) db"
      using Cons by (cases "listed db ks") (auto intro: yields_bind yields_bind_fail yields_pure simp: bind_sum_def)
    then show ?thesis using Cons Inr by (auto intro!: yields_bind [OF get] simp: bind_sum_def)
  qed
qed (auto intro: yields_pure)

lemma yields_ListWorkers:
  "yields X view (RedisBroker_ListWorkers X) db (listed db (worker_keys db)) db"
proof -
  have "yields X view (redis_do (rds X) (KEYS_prefix redis_kWorkersPrefix)) db (Inr (RMulti (worker_keys db))) db"
    by (rule yields_do) (simp_all add: worker_keys_def)
  moreover have "\<forall>k \<in> set (worker_keys db). kind_of k = HashKey" by (auto simp: worker_keys_iff key_simps)
  ultimately show ?thesis
    unfolding RedisBroker_ListWorkers_def using yields_list_workers_loop by (auto intro!: yields_bind)
qed

end

lemma published_roster:
  assumes "published h db db'" and "in_range_heartbeat h" and "roster db"
  shows "roster db' \<and> workers_in db' = insert h {h' \<in> workers_in db. worker_id h' \<noteq> worker_id h}"
proof -
  note r = published_reads [OF assms(1,2)]
  have same: "hash_at db' (WorkerKey w) = hash_at db (WorkerKey w)" if "w \<noteq> worker_id h" for w
    using assms(1) that by (simp add: published_def)
  have "h' \<in> workers_in db' \<longleftrightarrow> h' = h \<or> h' \<in> workers_in db \<and> worker_id h' \<noteq> worker_id h" for h'
    using r same by (cases "worker_id h' = worker_id h") (auto simp: workers_in_def)
  moreover have "roster db'"
    unfolding roster_def using r same assms(3) by (metis roster_def)
  ultimately show ?thesis by auto
qed

text \<open>
  C25: what a worker publishes is what the listing shows. After \<open>UpsertWorkerHeartbeat\<close> the list of
  workers has exactly this heartbeat for the worker, field by field, next to the unchanged
  heartbeats of the other workers; no queue is touched.
\<close>

theorem heartbeat_listed:
  assumes "external X view" and "connected X view c db" and "roster db" and "in_range_heartbeat h"
  shows "\<exists>c' db' hs c''. RedisBroker_UpsertWorkerHeartbeat X h ttl c = (Inr (), c') \<and>
    RedisBroker_ListWorkers X c' = (Inr hs, c'') \<and> connected X view c'' db' \<and>
    set hs = insert h {h' \<in> workers_in db. worker_id h' \<noteq> worker_id h} \<and> roster db' \<and>
    list_at db' = list_at db \<and> zset_at db' = zset_at db"
proof -
  obtain db' where db': "yields X view (RedisBroker_UpsertWorkerHeartbeat X h ttl) db (Inr ()) db'" "published h db db'"
    using external.yields_heartbeat [OF assms(1)] by blast
  obtain c' where c': "RedisBroker_UpsertWorkerHeartbeat X h ttl c = (Inr (), c')" "connected X view c' db'"
    using yieldsD [OF db'(1) assms(2)] by blast
  note p = published_roster [OF db'(2) assms(4,3)]
  obtain hs where hs: "listed db' (worker_keys db') = Inr hs"
    "set hs = {h \<in> workers_in db'. WorkerKey (worker_id h) \<in> set (worker_keys db')}"
    using listed_roster [of db' "worker_keys db'"] p by blast
  obtain c'' where "RedisBroker_ListWorkers X c' = (Inr hs, c'')" "connected X view c'' db'"
    using yieldsD [OF external.yields_ListWorkers [OF assms(1)] c'(2)] hs(1) by auto
  moreover have "set hs = workers_in db'" using hs(2) by (auto simp: workers_in_def worker_keys_iff)
  ultimately show ?thesis using c'(1) db'(2) p by (auto simp: published_def)
qed

definition sample_heartbeat :: WorkerHeartbeat where
  "sample_heartbeat = \<lparr>worker_id = ''w'', hostname = ''h'', pid = 7, started_at_ms = 1, last_seen_ms = 5,
     concurrency = 4, currently_running = 1\<rparr>"

theorem heartbeat_listed_witness:
  "\<exists>c' hs c''. RedisBroker_UpsertWorkerHeartbeat ref_ext sample_heartbeat 15 (ref_conn empty_db) = (Inr (), c') \<and>
     RedisBroker_ListWorkers ref_ext c' = (Inr hs, c'') \<and> set hs = {sample_heartbeat}"
proof -
  have "roster empty_db" "in_range_heartbeat sample_heartbeat" "workers_in empty_db = {}"
    by (simp_all add: roster_def in_range_heartbeat_def sample_heartbeat_def in_i64_def workers_in_def)
  then show ?thesis
    using heartbeat_listed [OF refx.external_axioms ref_conn_connected, of empty_db sample_heartbeat 15] by auto
qed

section \<open>At most one heartbeat per interval\<close>

text \<open>
  A call of \<open>MaybePublishHeartbeat\<close> does nothing, or it notes the time, and then the interval has passed
  since the time noted before; until it has passed again further calls do nothing. The
  steady clock counts nanoseconds, the interval milliseconds.
\<close>

lemma heartbeat_interval:
  assumes "Worker_MaybePublishHeartbeat B t now_ms s = (r, s1)"
  shows "s1 = s \<or>
      w_last_heartbeat_at (sys_worker s1) = t \<and>
      (w_last_heartbeat_at (sys_worker s) = 0 \<or>
       w_last_heartbeat_at (sys_worker s) + w_heartbeat_interval (sys_worker s) * 1000000 \<le> t)"
    and "w_last_heartbeat_at (sys_worker s1) \<noteq> 0 \<Longrightarrow>
      t2 < w_last_heartbeat_at (sys_worker s1) + w_heartbeat_interval (sys_worker s1) * 1000000 \<Longrightarrow>
      Worker_MaybePublishHeartbeat B t2 later_ms s1 = (Inr (), s1)"
  using assms
  by (auto simp: Worker_MaybePublishHeartbeat_def Let_def on_broker_def split: if_splits prod.splits)

end
