(* ===== verification/Worker_Loop.thy ===== *)
theory Worker_Loop
  imports Worker_Outcomes Heartbeats
begin

text \<open>
  The loop of \<open>Worker::Run\<close> (src/worker.cc) with the threads of its pool: a step relation in which
  the thread that called \<open>Run\<close>, the pool threads, \<open>Stop\<close> from a signal handler and the other
  clients of the broker take turns. Sections under \<^verbatim>\<open>broker_mutex_\<close> and under the pool's mutex
  are single steps: the mutex keeps the worker's own threads out of a broker section, and other
  clients act before or after it; the invariants of the keyspace are shown request by request
  (\<open>request_invariant\<close> in Broker_Safety). Shown are the bound on the tasks in flight and that each reserved task is
  processed exactly once before \<open>Run\<close> returns. That \<open>Run\<close> does return after \<open>Stop\<close> is in
  Termination, that no task is lost or altered is in Worker_Safety.
\<close>

section \<open>Steps\<close>

text \<open>
  Where the calling thread is in \<open>Run\<close>: at its start, at the loop condition, at the heartbeat, at
  \<open>CanAcceptTask\<close>, at the broker section, holding a reserved task, at \<open>Shutdown\<close>, joining the
  threads, returned or left by an exception. \<open>Aborted\<close>: the process was terminated.
\<close>

datatype run_pc =
    AtBegin
  | AtLoop
  | AtHeartbeat
  | AtGuard
  | AtPoll
  | AtSubmit TaskMessage
  | AtShutdown
  | AtJoin
  | Returned
  | Threw exn
  | Aborted

datatype run_event = Reserved TaskMessage | Processed TaskMessage

record ('w, 's) run_state =
  run_sys :: "('w, 's) system"
  run_pc :: run_pc

definition pool_of :: "('w, 's) run_state \<Rightarrow> TaskMessage ThreadPool" where
  "pool_of z = w_thread_pool (sys_worker (run_sys z))"

definition put_pool :: "TaskMessage ThreadPool \<Rightarrow> ('w, 's) system \<Rightarrow> ('w, 's) system" where
  "put_pool p s = s\<lparr>sys_worker := (sys_worker s)\<lparr>w_thread_pool := p\<rparr>\<rparr>"

definition run_prologue :: "int \<Rightarrow> ('w, 's) system \<Rightarrow> ('w, 's) system" where
  "run_prologue now_ms s =
     s\<lparr>sys_worker := (sys_worker s)\<lparr>w_running := True, w_started_at_ms := now_ms, w_last_heartbeat_at := 0\<rparr>\<rparr>"

text \<open>What the calling thread does next.\<close>

definition after :: "(exn + 'a) \<times> ('w, 's) system \<Rightarrow> ('a \<Rightarrow> run_pc) \<Rightarrow> ('w, 's) run_state" where
  "after rs next =
     (case rs of (Inl e, s) \<Rightarrow> \<lparr>run_sys = s, run_pc = Threw e\<rparr> | (Inr a, s) \<Rightarrow> \<lparr>run_sys = s, run_pc = next a\<rparr>)"

text \<open>
  A step is one of the worker's own threads, or it comes from outside: \<open>Stop\<close>, another client of the
  broker, a spurious wake-up.
\<close>

datatype run_actor = Own | Outside

inductive run_step ::
    "(nat \<Rightarrow> 's Broker) \<Rightarrow> (int \<Rightarrow> bool) \<Rightarrow> ('s \<Rightarrow> 's \<Rightarrow> bool) \<Rightarrow> run_actor \<Rightarrow>
     ('w, 's) run_state \<Rightarrow> run_event list \<Rightarrow> ('w, 's) run_state \<Rightarrow> bool" for B clock env where
  run_begin: "run_pc z = AtBegin \<Longrightarrow> clock now_ms \<Longrightarrow> clock beat_ms \<Longrightarrow>
    run_step B clock env Own z []
      (after (Worker_MaybePublishHeartbeat (B fuel) steady_now beat_ms (run_prologue now_ms (run_sys z))) (\<lambda>_. AtLoop))"
| run_loop: "run_pc z = AtLoop \<Longrightarrow>
    run_step B clock env Own z []
      (z\<lparr>run_pc := if Worker_IsRunning (sys_worker (run_sys z)) then AtHeartbeat else AtShutdown\<rparr>)"
| run_heartbeat: "run_pc z = AtHeartbeat \<Longrightarrow> clock beat_ms \<Longrightarrow>
    run_step B clock env Own z []
      (after (Worker_MaybePublishHeartbeat (B fuel) steady_now beat_ms (run_sys z)) (\<lambda>_. AtGuard))"
| run_guard: "run_pc z = AtGuard \<Longrightarrow>
    run_step B clock env Own z []
      (z\<lparr>run_pc := if Worker_CanAcceptTask (sys_worker (run_sys z)) then AtPoll else AtLoop\<rparr>)"
| run_poll: "run_pc z = AtPoll \<Longrightarrow> clock tick_ms \<Longrightarrow> clock reserve_ms \<Longrightarrow>
    Worker_poll (B fuel) tick_ms reserve_ms (run_sys z) = (Inr (Some task), s) \<Longrightarrow>
    run_step B clock env Own z (case task of None \<Rightarrow> [] | Some m \<Rightarrow> [Reserved m])
      \<lparr>run_sys = s, run_pc = (case task of None \<Rightarrow> AtLoop | Some m \<Rightarrow> AtSubmit m)\<rparr>"
| run_poll_throws: "run_pc z = AtPoll \<Longrightarrow> clock tick_ms \<Longrightarrow> clock reserve_ms \<Longrightarrow>
    Worker_poll (B fuel) tick_ms reserve_ms (run_sys z) = (Inl e, s) \<Longrightarrow>
    run_step B clock env Own z [] \<lparr>run_sys = s, run_pc = Threw e\<rparr>"
| run_submit: "run_pc z = AtSubmit m \<Longrightarrow>
    run_step B clock env Own z []
      \<lparr>run_sys = put_pool (ThreadPool_Submit m (pool_of z)) (run_sys z), run_pc = AtLoop\<rparr>"
| run_shutdown: "run_pc z = AtShutdown \<Longrightarrow>
    run_step B clock env Own z []
      \<lparr>run_sys = put_pool (ThreadPool_Shutdown (pool_of z)) (run_sys z), run_pc = AtJoin\<rparr>"
| run_join: "run_pc z = AtJoin \<Longrightarrow> unsent_all (pool_of z) = 0 \<Longrightarrow> set (threads (pool_of z)) \<subseteq> {Exited} \<Longrightarrow>
    run_step B clock env Own z []
      \<lparr>run_sys = put_pool (ThreadPool_join (pool_of z)) (run_sys z), run_pc = Returned\<rparr>"
| run_stop: "run_pc z \<noteq> Aborted \<Longrightarrow>
    run_step B clock env Outside z [] (z\<lparr>run_sys := (run_sys z)\<lparr>sys_worker := Worker_Stop (sys_worker (run_sys z))\<rparr>\<rparr>)"
| pool_move: "run_pc z \<noteq> Aborted \<Longrightarrow> a \<noteq> Client \<Longrightarrow> pool_step a (pool_of z) es p \<Longrightarrow> completed es = [] \<Longrightarrow>
    run_step B clock env (if a = Internal then Own else Outside) z [] (z\<lparr>run_sys := put_pool p (run_sys z)\<rparr>)"
| pool_process: "run_pc z \<noteq> Aborted \<Longrightarrow> pool_step Internal (pool_of z) [Completed m] p \<Longrightarrow> clock now_ms \<Longrightarrow>
    Worker_ProcessTask (B fuel) started_at finished_at now_ms m (run_sys z) = (Inr (), s) \<Longrightarrow>
    run_step B clock env Own z [Processed m] (z\<lparr>run_sys := put_pool p s\<rparr>)"
| pool_abort: "run_pc z \<noteq> Aborted \<Longrightarrow> pool_step Internal (pool_of z) [Completed m] p \<Longrightarrow> clock now_ms \<Longrightarrow>
    Worker_ProcessTask (B fuel) started_at finished_at now_ms m (run_sys z) = (Inl e, s) \<Longrightarrow>
    run_step B clock env Own z [] \<lparr>run_sys = s, run_pc = Aborted\<rparr>"
| others: "run_pc z \<noteq> Aborted \<Longrightarrow> env (sys_broker (run_sys z)) b \<Longrightarrow>
    run_step B clock env Outside z [] (z\<lparr>run_sys := (run_sys z)\<lparr>sys_broker := b\<rparr>\<rparr>)"

inductive worker_run ::
    "(nat \<Rightarrow> 's Broker) \<Rightarrow> (int \<Rightarrow> bool) \<Rightarrow> ('s \<Rightarrow> 's \<Rightarrow> bool) \<Rightarrow>
     ('w, 's) run_state \<Rightarrow> run_event list \<Rightarrow> ('w, 's) run_state \<Rightarrow> bool" for B clock env z0 where
  run_start: "worker_run B clock env z0 [] z0"
| run_next: "worker_run B clock env z0 es z \<Longrightarrow> run_step B clock env a z fs z' \<Longrightarrow>
    worker_run B clock env z0 (es @ fs) z'"

section \<open>The broker calls leave the pool alone\<close>

lemma on_broker_worker: "on_broker m s = (r, s') \<Longrightarrow> sys_worker s' = sys_worker s \<and> sys_app s' = sys_app s"
  by (auto simp: on_broker_def split: prod.splits)

lemma poll_worker: "Worker_poll B t u s = (r, s') \<Longrightarrow> sys_worker s' = sys_worker s"
  using on_broker_worker by (fastforce simp: Worker_poll_def)

lemma heartbeat_pool:
  "Worker_MaybePublishHeartbeat B t u s = (r, s') \<Longrightarrow>
     w_thread_pool (sys_worker s') = w_thread_pool (sys_worker s) \<and>
     w_running (sys_worker s') = w_running (sys_worker s)"
  by (auto simp: Worker_MaybePublishHeartbeat_def Let_def dest!: on_broker_worker split: if_splits)

lemma process_worker: "Worker_ProcessTask B t u now m s = (r, s') \<Longrightarrow> sys_worker s' = sys_worker s"
  by (auto simp: Worker_ProcessTask_def Let_def dest!: on_broker_worker split: if_splits prod.splits)

lemma pool_of_simps [simp]:
  "pool_of \<lparr>run_sys = s, run_pc = pc\<rparr> = w_thread_pool (sys_worker s)"
  "pool_of (z\<lparr>run_pc := pc\<rparr>) = pool_of z"
  "pool_of (z\<lparr>run_sys := put_pool p s\<rparr>) = p"
  "pool_of (z\<lparr>run_sys := s\<lparr>sys_broker := b\<rparr>\<rparr>) = w_thread_pool (sys_worker s)"
  "w_thread_pool (sys_worker (put_pool p s)) = p"
  "w_thread_pool (Worker_Stop w) = w_thread_pool w"
  "sys_broker (put_pool p s) = sys_broker s" "sys_app (put_pool p s) = sys_app s"
  "w_running (sys_worker (put_pool p s)) = w_running (sys_worker s)"
  by (simp_all add: pool_of_def put_pool_def Worker_Stop_def)

lemma after_cases:
  "after rs next = (case rs of (Inl e, s) \<Rightarrow> \<lparr>run_sys = s, run_pc = Threw e\<rparr>
     | (Inr a, s) \<Rightarrow> \<lparr>run_sys = s, run_pc = next a\<rparr>)"
  by (simp add: after_def)

lemma pool_own_step:
  assumes "pool_step a p es q" and "a \<noteq> Client" and "pool_inv p"
  shows "InFlightCount q \<le> InFlightCount p" "stop q = stop p" "thread_count q = thread_count p"
    "submitted es = []"
proof -
  show "stop q = stop p" "thread_count q = thread_count p"
    using assms(1,2) by (induction rule: pool_step.induct) (simp_all add: pool_op_defs)
  show "submitted es = []"
    using assms(1,2)
    by (induction rule: pool_step.induct) (auto simp: take_Suc submitted_def split: list.splits)
  show "InFlightCount q \<le> InFlightCount p"
    using assms(1,2)
    by (induction rule: pool_step.induct)
      (auto simp: InFlightCount_def pool_op_defs neq_Nil_conv)
qed

section \<open>Invariant\<close>

definition reserved :: "run_event list \<Rightarrow> TaskMessage list" where
  "reserved es = concat (map (\<lambda>e. case e of Reserved m \<Rightarrow> [m] | _ \<Rightarrow> []) es)"

definition processed :: "run_event list \<Rightarrow> TaskMessage list" where
  "processed es = concat (map (\<lambda>e. case e of Processed m \<Rightarrow> [m] | _ \<Rightarrow> []) es)"

lemma run_event_simps [simp]:
  "reserved [] = []" "reserved (es @ fs) = reserved es @ reserved fs"
  "reserved [Reserved m] = [m]" "reserved [Processed m] = []"
  "processed [] = []" "processed (es @ fs) = processed es @ processed fs"
  "processed [Reserved m] = []" "processed [Processed m] = [m]"
  by (simp_all add: reserved_def processed_def)

text \<open>The tasks a worker has reserved and not yet processed.\<close>

fun held :: "run_pc \<Rightarrow> TaskMessage list" where
  "held (AtSubmit m) = [m]"
| "held _ = []"

definition in_hand :: "('w, 's) run_state \<Rightarrow> TaskMessage multiset" where
  "in_hand z = mset (held (run_pc z)) + mset (tasks (pool_of z)) + mset (executing (pool_of z))"

definition run_inv :: "nat \<Rightarrow> ('w, 's) run_state \<Rightarrow> bool" where
  "run_inv n z \<longleftrightarrow>
     pool_inv (pool_of z) \<and> thread_count (pool_of z) = n \<and>
     InFlightCount (pool_of z) + length (held (run_pc z)) \<le> n \<and>
     (run_pc z = AtPoll \<longrightarrow> InFlightCount (pool_of z) < n) \<and>
     (run_pc z \<noteq> Aborted \<longrightarrow> stop (pool_of z) = (run_pc z \<in> {AtJoin, Returned})) \<and>
     (run_pc z = Returned \<longrightarrow> tasks (pool_of z) = [] \<and> executing (pool_of z) = [])"

text \<open>The calls of \<open>Run\<close> on its pool, and the steps of the pool's threads.\<close>

lemma run_inv_calls:
  assumes "run_inv n z"
  shows "run_pc z = AtSubmit m \<Longrightarrow>
      run_inv n \<lparr>run_sys = put_pool (ThreadPool_Submit m (pool_of z)) (run_sys z), run_pc = AtLoop\<rparr>"
    and "run_pc z = AtShutdown \<Longrightarrow>
      run_inv n \<lparr>run_sys = put_pool (ThreadPool_Shutdown (pool_of z)) (run_sys z), run_pc = AtJoin\<rparr>"
proof -
  have "pool_inv (ThreadPool_Submit m (pool_of z))" "pool_inv (ThreadPool_Shutdown (pool_of z))"
    using assms by (simp_all add: run_inv_def pool_step_inv [OF submit] pool_step_inv [OF shutdown])
  then show "run_pc z = AtSubmit m \<Longrightarrow>
      run_inv n \<lparr>run_sys = put_pool (ThreadPool_Submit m (pool_of z)) (run_sys z), run_pc = AtLoop\<rparr>"
    and "run_pc z = AtShutdown \<Longrightarrow>
      run_inv n \<lparr>run_sys = put_pool (ThreadPool_Shutdown (pool_of z)) (run_sys z), run_pc = AtJoin\<rparr>"
    using assms by (simp_all add: run_inv_def ThreadPool_Submit_def ThreadPool_Shutdown_def InFlightCount_def)
qed

lemma run_inv_join:
  assumes "run_inv n z" and "run_pc z = AtJoin" and "unsent_all (pool_of z) = 0"
    and "set (threads (pool_of z)) \<subseteq> {Exited}"
  shows "run_inv n \<lparr>run_sys = put_pool (ThreadPool_join (pool_of z)) (run_sys z), run_pc = Returned\<rparr>"
proof -
  have "pool_inv (ThreadPool_join (pool_of z))"
    using assms pool_step_inv [OF join] by (auto simp: run_inv_def)
  moreover have "tasks (pool_of z) = [] \<or> n = 0"
    using assms by (cases "threads (pool_of z)") (auto simp: run_inv_def pool_inv_def)
  ultimately show ?thesis
    using assms by (auto simp: run_inv_def ThreadPool_join_def InFlightCount_def executing_def)
qed

lemma run_inv_move:
  assumes "run_inv n z" and "run_pc z \<noteq> Aborted" and "a \<noteq> Client" and "pool_step a (pool_of z) es p"
    and "completed es = []"
  shows "run_inv n (z\<lparr>run_sys := put_pool p (run_sys z)\<rparr>)"
proof -
  note own = pool_own_step [OF assms(4,3)]
  have "pool_inv p" using assms(1,4) pool_step_inv by (auto simp: run_inv_def)
  moreover have "executing p = []" "tasks p = []" if "run_pc z = Returned"
    using that pool_step_jobs [OF assms(4)] pool_step_queue [OF assms(4)] own(4) assms(1,5)
    by (simp_all add: run_inv_def)
  ultimately show ?thesis using assms own by (fastforce simp: run_inv_def)
qed

lemma run_step_inv:
  assumes "run_step B clock env a z es z'" and "run_inv n z"
  shows "run_inv n z'"
  using assms
proof (induction rule: run_step.induct)
  case (run_begin z now_ms beat_ms fuel steady_now)
  then show ?case
    by (auto simp: run_inv_def after_cases run_prologue_def pool_of_def dest!: heartbeat_pool
        split: prod.splits sum.splits)
next
  case (run_heartbeat z beat_ms fuel steady_now)
  then show ?case
    by (auto simp: run_inv_def after_cases pool_of_def dest!: heartbeat_pool split: prod.splits sum.splits)
next
  case (run_guard z)
  then show ?case by (auto simp: run_inv_def Worker_CanAcceptTask_def pool_of_def)
next
  case (run_poll z tick_ms reserve_ms fuel task s)
  then show ?case by (auto simp: run_inv_def pool_of_def dest!: poll_worker split: option.splits)
next
  case (run_poll_throws z tick_ms reserve_ms fuel e s)
  then show ?case by (auto simp: run_inv_def pool_of_def dest!: poll_worker)
next
  case (run_submit z m)
  then show ?case by (intro run_inv_calls(1))
next
  case (run_shutdown z)
  then show ?case by (intro run_inv_calls(2))
next
  case (run_join z)
  then show ?case by (intro run_inv_join)
next
  case (pool_move z a es p)
  then show ?case by (intro run_inv_move)
next
  case (pool_process z m p now_ms fuel started_at finished_at s)
  then have "pool_inv p" using pool_step_inv by (auto simp: run_inv_def)
  moreover have "run_pc z \<noteq> Returned"
    using pool_step_jobs [OF pool_process(2)] pool_process(5) by (auto simp: run_inv_def)
  ultimately show ?case
    using pool_process pool_own_step [OF pool_process(2)] by (fastforce simp: run_inv_def)
next
  case (pool_abort z m p now_ms fuel started_at finished_at e s)
  then show ?case by (auto simp: run_inv_def pool_of_def dest!: process_worker)
qed (auto simp: run_inv_def pool_of_def)

section \<open>Every reserved task is processed once\<close>

lemma run_step_hand:
  assumes "run_step B clock env a z es z'" and "run_inv n z" and "run_pc z' \<noteq> Aborted"
  shows "in_hand z + mset (reserved es) = in_hand z' + mset (processed es)"
  using assms
proof (induction rule: run_step.induct)
  case (run_begin z now_ms beat_ms fuel steady_now)
  then show ?case
    by (auto simp: in_hand_def after_cases run_prologue_def pool_of_def dest!: heartbeat_pool
        split: prod.splits sum.splits)
next
  case (run_heartbeat z beat_ms fuel steady_now)
  then show ?case
    by (auto simp: in_hand_def after_cases pool_of_def dest!: heartbeat_pool split: prod.splits sum.splits)
next
  case (run_poll z tick_ms reserve_ms fuel task s)
  then show ?case by (auto simp: in_hand_def pool_of_def dest!: poll_worker split: option.splits)
next
  case (run_poll_throws z tick_ms reserve_ms fuel e s)
  then show ?case by (auto simp: in_hand_def pool_of_def dest!: poll_worker)
next
  case (run_submit z m)
  then show ?case by (auto simp: in_hand_def run_inv_def ThreadPool_Submit_def executing_def)
next
  case (run_shutdown z)
  then show ?case by (auto simp: in_hand_def ThreadPool_Shutdown_def executing_def)
next
  case (run_join z)
  then have "executing (pool_of z) = []" by (auto simp: executing_def split: pool_thread.splits)
  then show ?case using run_join by (auto simp: in_hand_def ThreadPool_join_def executing_def)
next
  case (pool_move z a es p)
  then have "tasks (pool_of z) = started es @ tasks p"
    using pool_step_queue pool_own_step(4) by (fastforce simp: run_inv_def)
  then show ?case using pool_step_jobs [OF pool_move(3)] pool_move(4) by (simp add: in_hand_def ac_simps)
next
  case (pool_process z m p now_ms fuel started_at finished_at s)
  have "tasks (pool_of z) = tasks p" using pool_step_queue [OF pool_process(2)] by simp
  then show ?case using pool_step_jobs [OF pool_process(2)] by (simp add: in_hand_def)
qed (auto simp: in_hand_def pool_of_def)

lemma aborted_final: "run_step B clock env a z es z' \<Longrightarrow> run_pc z \<noteq> Aborted"
  by (induction rule: run_step.induct) auto

definition fresh_run :: "nat \<Rightarrow> ('w, 's) run_state \<Rightarrow> bool" where
  "fresh_run n z \<longleftrightarrow> run_pc z = AtBegin \<and> pool_of z = ThreadPool_create n"

lemma fresh_inv: "fresh_run n z \<Longrightarrow> run_inv n z" "fresh_run n z \<Longrightarrow> in_hand z = {#}"
  using pool_inv_create [of n]
  by (simp_all add: fresh_run_def run_inv_def in_hand_def InFlightCount_def executing_def ThreadPool_create_def)

lemma worker_run_inv:
  assumes "worker_run B clock env z0 es z" and "fresh_run n z0"
  shows "run_inv n z \<and> (run_pc z \<noteq> Aborted \<longrightarrow> mset (reserved es) = in_hand z + mset (processed es))"
  using assms(1)
proof (induction rule: worker_run.induct)
  case run_start
  then show ?case using fresh_inv [OF assms(2)] by simp
next
  case (run_next es z a fs z')
  then show ?case
    using run_step_inv run_step_hand [OF run_next(2)] aborted_final [OF run_next(2)] by (auto simp: ac_simps)
qed

lemma length_executing: "length (executing p) \<le> length (filter busy (threads p))"
proof -
  have "length (concat (map (\<lambda>t. case t of Executing j \<Rightarrow> [j] | _ \<Rightarrow> []) ts)) \<le> length (filter busy ts)"
    for ts :: "'a pool_thread list" by (induction ts) (auto split: pool_thread.splits)
  then show ?thesis by (simp add: executing_def)
qed

text \<open>
  C7: a running worker. With \<open>n\<close> threads at most \<open>n\<close> tasks are reserved and not yet processed at any
  moment, so that a task is only taken from the queue when a thread is free for it. Every
  reserved task is processed at most once, and when \<open>Run\<close> has returned each was processed exactly
  once: \<open>Stop\<close> lets the tasks in hand finish. None is dropped at \<open>Submit\<close> on the way.
\<close>

theorem reserved_tasks_processed_once:
  assumes "worker_run B clock env z0 es z" and "fresh_run n z0" and "run_pc z \<noteq> Aborted"
  shows "mset (reserved es) = in_hand z + mset (processed es) \<and> size (in_hand z) \<le> n \<and>
    InFlightCount (pool_of z) \<le> n \<and> (run_pc z = Returned \<longrightarrow> mset (reserved es) = mset (processed es))"
proof -
  have inv: "run_inv n z" and hand: "mset (reserved es) = in_hand z + mset (processed es)"
    using worker_run_inv [OF assms(1,2)] assms(3) by simp_all
  have "length (executing (pool_of z)) \<le> active_count (pool_of z)"
    using inv length_executing [of "pool_of z"] by (simp add: run_inv_def pool_inv_def)
  then have "size (in_hand z) \<le> n" using inv by (auto simp: run_inv_def in_hand_def InFlightCount_def)
  moreover have "run_pc z = Returned \<longrightarrow> in_hand z = {#}" using inv by (auto simp: run_inv_def in_hand_def)
  ultimately show ?thesis using inv hand by (auto simp: run_inv_def)
qed

text \<open>A worker over the reference server, before \<open>Run\<close> and after its first heartbeat.\<close>

definition sample_start :: "(nat, mem_server conn) run_state" where
  "sample_start =
     \<lparr>run_sys = \<lparr>sys_worker = flaky_worker, sys_app = 0, sys_broker = ref_conn pending_db\<rparr>, run_pc = AtBegin\<rparr>"

definition sample_begun :: "(nat, mem_server conn) run_state" where
  "sample_begun =
     after (Worker_MaybePublishHeartbeat (RedisBroker_methods ref_ext 2) 1 1000
       (run_prologue 1000 (run_sys sample_start))) (\<lambda>_. AtLoop)"

lemma fresh_sample: "fresh_run 1 sample_start"
  by (simp add: fresh_run_def sample_start_def pool_of_def flaky_worker_def)

lemma sample_begins:
  "clock 1000 \<Longrightarrow> worker_run (RedisBroker_methods ref_ext) clock env sample_start [] sample_begun"
  "run_pc sample_begun \<noteq> Aborted" "run_pc sample_begun \<noteq> AtBegin"
proof -
  show "worker_run (RedisBroker_methods ref_ext) clock env sample_start [] sample_begun" if "clock 1000"
    using run_next [OF run_start run_begin [where B = "RedisBroker_methods ref_ext" and clock = clock and
        env = env and z = sample_start and fuel = 2 and steady_now = 1, OF _ that that]]
    by (simp add: sample_begun_def sample_start_def)
qed (auto simp: sample_begun_def after_cases split: prod.splits sum.splits)

context wire_text
begin

text \<open>The heartbeat of a worker leaves a waiting task alone.\<close>

lemma published_waiting:
  assumes "published h db db'" and "waiting T db m"
  shows "waiting T db' m"
proof -
  have same: "list_at db' = list_at db" "zset_at db' = zset_at db"
    and hash: "\<And>k. k \<noteq> WorkerKey (worker_id h) \<Longrightarrow> hash_at db' k = hash_at db k"
    using assms(1) by (simp_all add: published_def)
  have side: "side_key (WorkerKey (worker_id h))" by (simp add: side_key_def WorkerKey_def)
  have "hash_at db' k = hash_at db k" if "\<not> side_key k" for k using hash [of k] that side by metis
  then have "wf_db T db'" using queues_same(1) [OF same] assms(2) by (simp add: waiting_def)
  moreover have "hash_at db' redis_kRunning = hash_at db redis_kRunning" "hash_at db' redis_kMetrics = hash_at db redis_kMetrics"
    by (rule hash, simp add: WorkerKey_def key_defs)+
  ultimately show ?thesis using assms(2) unfolding waiting_def metrics_ok_def queued_alone_def same by simp
qed

end

text \<open>The sample worker publishes its heartbeat, goes once round its loop and reserves the sample task.\<close>

lemma sample_reserves:
  fixes env
  defines "m \<equiv> taken 1000 sample_message" and "B \<equiv> RedisBroker_methods ref_ext"
  shows "\<exists>s. worker_run B (\<lambda>_. True) env sample_start [Reserved m] \<lparr>run_sys = s, run_pc = AtSubmit m\<rparr>"
proof -
  let ?s0 = "run_prologue 1000 (run_sys sample_start)"
  let ?w = "(sys_worker ?s0)\<lparr>w_last_heartbeat_at := 1\<rparr>"
  have last: "w_last_heartbeat_at (sys_worker ?s0) = 0" by (simp add: run_prologue_def)
  obtain db1 where db1: "yields ref_ext fst (RedisBroker_UpsertWorkerHeartbeat ref_ext (worker_heartbeat 1000 ?w)
      (w_heartbeat_ttl_seconds ?w)) pending_db (Inr ()) db1" "published (worker_heartbeat 1000 ?w) pending_db db1"
    using refx.yields_heartbeat by blast
  have "connected ref_ext fst (sys_broker (?s0\<lparr>sys_worker := ?w\<rparr>)) pending_db"
    by (simp add: run_prologue_def sample_start_def)
  from on_broker_yields [OF db1(1) this] obtain b where b: "connected ref_ext fst b db1"
    "Worker_MaybePublishHeartbeat (B 2) 1 1000 ?s0 = (Inr (), ?s0\<lparr>sys_worker := ?w, sys_broker := b\<rparr>)"
    using last by (auto simp: Worker_MaybePublishHeartbeat_def Let_def B_def)
  let ?s = "?s0\<lparr>sys_worker := ?w, sys_broker := b\<rparr>" and ?run = "worker_run B (\<lambda>_. True) env sample_start"
  let ?z = "\<lambda>pc. \<lparr>run_sys = ?s, run_pc = pc\<rparr>"
  have w: "w_running ?w" "w_thread_pool ?w = ThreadPool_create 1" "w_heartbeat_interval ?w = 5000"
    by (simp_all add: run_prologue_def sample_start_def flaky_worker_def)
  have "?run [] (?z AtLoop)"
    using run_next [OF run_start run_begin [of sample_start "\<lambda>_. True" 1000 1000 B env 2 1]] b(2)
    by (simp add: sample_start_def after_def)
  from run_next [OF this run_loop] have "?run [] (?z AtHeartbeat)" using w by (simp add: Worker_IsRunning_def)
  moreover have "Worker_MaybePublishHeartbeat (B 2) 2 1000 ?s = (Inr (), ?s)"
    using w by (simp add: Worker_MaybePublishHeartbeat_def)
  ultimately have "?run [] (?z AtGuard)"
    using run_next [OF _ run_heartbeat [of "?z AtHeartbeat" "\<lambda>_. True" 1000 B env 2 2]] by (simp add: after_def)
  from run_next [OF this run_guard] have poll: "?run [] (?z AtPoll)"
    using w by (simp add: Worker_CanAcceptTask_def InFlightCount_def ThreadPool_create_def)
  have "ready sample_message 1000" "small 1000"
    by (simp_all add: ready_def small_def sample_message_def TaskMessage_Create_def TaskMessage_default_def)
  then obtain s' where "Worker_poll (B 2) 1000 1000 ?s = (Inr (Some (Some m)), s')"
    using refx.poll_waiting [OF refx.published_waiting [OF db1(2) waiting_sample], of 1000 2 1000 ?s] b(1)
    by (auto simp: m_def B_def)
  then have "run_step B (\<lambda>_. True) env Own (?z AtPoll) [Reserved m] \<lparr>run_sys = s', run_pc = AtSubmit m\<rparr>"
    using run_poll [of "?z AtPoll" "\<lambda>_. True" 1000 1000 B 2 "Some m" s' env] by simp
  from run_next [OF poll this] show ?thesis by auto
qed

theorem reserved_tasks_processed_once_witness:
  "\<exists>z. worker_run (RedisBroker_methods ref_ext) (\<lambda>_. True) (\<lambda>_ _. False) sample_start
       [Reserved (taken 1000 sample_message)] z \<and>
     in_hand z = {#taken 1000 sample_message#} \<and> InFlightCount (pool_of z) \<le> 1"
proof -
  obtain s where s: "worker_run (RedisBroker_methods ref_ext) (\<lambda>_. True) (\<lambda>_ _. False) sample_start
      [Reserved (taken 1000 sample_message)] \<lparr>run_sys = s, run_pc = AtSubmit (taken 1000 sample_message)\<rparr>"
    using sample_reserves by blast
  from reserved_tasks_processed_once [OF s fresh_sample] show ?thesis
    using s by (intro exI conjI) (assumption, simp_all add: reserved_def processed_def)
qed

end
