(* ===== verification/Termination.thy ===== *)
theory Termination
  imports Worker_Loop Heartbeats
begin

text \<open>
  The loops end: the promotion loop of the broker on any keyspace and over any connection, and
  \<open>Run\<close> after \<open>Stop\<close>.
\<close>

section \<open>The promotion loop\<close>

abbreviation delayed_len :: "redis_db \<Rightarrow> nat" where
  "delayed_len db \<equiv> length (zset_at db redis_kDelayed)"

lemma length_drop_key:
  "map_of z t \<noteq> None \<Longrightarrow> length (filter (\<lambda>p. fst p \<noteq> t) z) < length z"
  by (induction z) (auto simp: le_imp_less_Suc split: if_splits)

lemma promote_script_shrinks:
  assumes "kPromoteOneScript (dbx T) redis_kDelayed redis_kPending redis_kStatus now st db = (r, db')"
  shows "delayed_len db' \<le> delayed_len db" "r = Inr (RInt k) \<Longrightarrow> 0 < k \<Longrightarrow> delayed_len db' < delayed_len db"
proof -
  have drop: "delayed_len (put_zset redis_kDelayed (filter (\<lambda>p. fst p \<noteq> t) (zset_at db redis_kDelayed)) db) <
      delayed_len db" if "map_of (zset_at db redis_kDelayed) t = Some sc" for t sc
    using that length_drop_key [of "zset_at db redis_kDelayed" t] by simp
  have arg: "s' = s" if "lua_arg (dbx T) v s = (x, s')" for v s x s'
    using that by (cases v) (auto simp: ret_def throw_def)
  have "delayed_len db' < delayed_len db \<or> delayed_len db' \<le> delayed_len db \<and> r = Inr (RInt 0)"
    using assms drop
    by (auto simp: kPromoteOneScript_def on_db key_simps dest!: arg
        split: redis_reply.splits list.splits option.splits if_splits prod.splits sum.splits)
  then show "delayed_len db' \<le> delayed_len db" "r = Inr (RInt k) \<Longrightarrow> 0 < k \<Longrightarrow> delayed_len db' < delayed_len db"
    by auto
qed

lemma promote_reply:
  assumes "kPromoteOneScript (dbx T) redis_kDelayed redis_kPending redis_kStatus now st db = (Inr (RInt k), db')"
  shows "k = 0 \<or> k = 1"
  using assms
  by (auto simp: kPromoteOneScript_def bind_io_def then_io_def ret_def Let_def
      split: redis_reply.splits list.splits option.splits if_splits prod.splits sum.splits)

context external
begin

lemma PromoteOne_shrinks:
  assumes "RedisScripts_PromoteOneDueTask X now c = (Inr k, c')" and "loaded X c" and "0 < k"
  shows "delayed_len (view (srv c')) < delayed_len (view (srv c))" "loaded X c'"
proof -
  let ?n = "kPromoteOneScript (dbx T) redis_kDelayed redis_kPending redis_kStatus now (TaskStatusToString kPending)"
  let ?I = "\<lambda>db. delayed_len db \<le> delayed_len (view (srv c))"
  obtain r c1 where ev: "Eval X kPromoteOne [redis_kDelayed, redis_kPending, redis_kStatus]
      [ANum now, AStr (TaskStatusToString kPending)] c = (Inr (RInt r), c1)" and k: "k = to_i32 r" "c' = c1"
  proof -
    have "\<exists>i. r = RInt i \<and> k = to_i32 i" if "map_sum id to_i32 (as_long_long r) = Inr k" for r
      using that by (cases r) auto
    then show thesis
      using assms(1) that
      by (auto simp: RedisScripts_PromoteOneDueTask_def bind_io_def lift_io_def split: prod.splits sum.splits)
  qed
  have sim: "sim (run_script X kPromoteOne [redis_kDelayed, redis_kPending, redis_kStatus]
      [ANum now, AStr (TaskStatusToString kPending)]) ?n"
    by (simp add: sim_kPromoteOne key_simps)
  have keeps: "keeps ?I ?n"
  proof (rule keepsI)
    fix db assume "?I db"
    then show "?I (snd (?n db))"
      using promote_script_shrinks(1) [of T now "TaskStatusToString kPending" db "fst (?n db)" "snd (?n db)"] by simp
  qed
  have inv: "conn_inv X view ?I c" using assms(2) by (simp add: conn_inv_def)
  then obtain db where db: "?I db" "?n db = (Inr (RInt r), view (srv c1))"
    using Eval_result [OF sim keeps inv ev] by blast
  have "0 < r" using assms(3) k(1) promote_reply [OF db(2)] by (auto simp: to_i32_def)
  then show "delayed_len (view (srv c')) < delayed_len (view (srv c))"
    using promote_script_shrinks(2) [OF db(2)] db(1) k(2) by fastforce
  show "loaded X c'"
    using keepsD [OF keeps_Eval [OF sim keeps] inv] ev k(2) by (simp add: conn_inv_def)
qed

lemma promote_loop_ends:
  "loaded X c \<Longrightarrow> delayed_len (view (srv c)) < fuel \<Longrightarrow> fst (promote_loop X fuel now c) \<noteq> Inr None"
proof (induction fuel arbitrary: c)
  case 0
  then show ?case by simp
next
  case (Suc fuel)
  obtain r c1 where one: "RedisScripts_PromoteOneDueTask X now c = (r, c1)" by fastforce
  show ?case
  proof (cases r)
    case (Inl e)
    then show ?thesis using one by (simp add: bind_io_def)
  next
    case (Inr k)
    show ?thesis
    proof (cases "0 < k")
      case True
      then show ?thesis
        using one Inr Suc.IH [of c1] PromoteOne_shrinks [OF one [unfolded Inr] Suc.prems(1) True] Suc.prems(2)
        by (simp add: bind_io_def)
    next
      case False
      then show ?thesis using one Inr by (simp add: bind_io_def ret_def)
    qed
  qed
qed

end

text \<open>
  C15: the loop \<open>while (scripts_.PromoteOneDueTask(now_ms) > 0) {}\<close> ends on every keyspace, whatever
  the delayed set holds and whatever messages are lost: each round that goes on has removed a
  member, so with more fuel than the delayed set has members it returns or throws.
\<close>

theorem PromoteDueTasks_terminates:
  assumes "external X view" and "loaded X c" and "delayed_len (view (srv c)) < fuel"
  shows "fst (RedisBroker_PromoteDueTasks X fuel now c) \<noteq> Inr None"
  using external.promote_loop_ends [OF assms] by (simp add: RedisBroker_PromoteDueTasks_def)

theorem PromoteDueTasks_terminates_witness:
  "fst (RedisBroker_PromoteDueTasks ref_ext 2 9 (ref_conn delayed_db)) \<noteq> Inr None"
proof -
  have "fst (srv (ref_conn delayed_db)) = delayed_db"
    using ref_conn_connected [of delayed_db] by (simp add: connected_def)
  moreover have "delayed_len delayed_db < 2" by (simp add: delayed_db_def zset_insert_def)
  ultimately show ?thesis
    using PromoteDueTasks_terminates [OF refx.external_axioms loaded_ref_conn, of delayed_db 2 9] by simp
qed

section \<open>Run ends after Stop\<close>

text \<open>
  A bound on the steps of the worker's own threads once \<open>Stop\<close> was called: the calling thread
  passes at most once more through the loop, submitting at most one task, then shuts the pool
  down; the pool has its own bound.
\<close>

fun pc_weight :: "nat \<Rightarrow> run_pc \<Rightarrow> nat" where
  "pc_weight n AtHeartbeat = n + 14"
| "pc_weight n AtGuard = n + 13"
| "pc_weight n AtPoll = n + 12"
| "pc_weight n (AtSubmit m) = n + 11"
| "pc_weight n AtLoop = n + 5"
| "pc_weight n AtShutdown = n + 4"
| "pc_weight n AtJoin = 2"
| "pc_weight n Aborted = 0"
| "pc_weight n _ = 1"

definition run_bound :: "nat \<Rightarrow> ('w, 's) run_state \<Rightarrow> nat" where
  "run_bound n z = pc_weight n (run_pc z) + pool_bound (pool_of z)"

definition stopping :: "('w, 's) run_state \<Rightarrow> bool" where
  "stopping z \<longleftrightarrow> \<not> Worker_IsRunning (sys_worker (run_sys z)) \<and> run_pc z \<noteq> AtBegin"

lemma submit_bound:
  "idle_waiters p = [] \<Longrightarrow> pool_bound (ThreadPool_Submit m p) \<le> pool_bound p + 5"
  by (auto simp: pool_bound_def ThreadPool_Submit_def)

lemma shutdown_bound:
  "pool_bound (ThreadPool_Shutdown p) \<le> pool_bound p + Suc (length (threads p))"
  by (auto simp: pool_bound_def ThreadPool_Shutdown_def Let_def)

lemma join_bound: "pool_bound (ThreadPool_join p) \<le> pool_bound p"
  by (auto simp: pool_bound_def ThreadPool_join_def Let_def)

lemma pool_own_waiters: "pool_step a p es q \<Longrightarrow> a \<noteq> Client \<Longrightarrow> idle_waiters p = [] \<Longrightarrow> idle_waiters q = []"
  by (induction rule: pool_step.induct) (auto simp: pool_op_defs)

lemma run_waiters:
  assumes "run_step B clock env a z es z'" and "idle_waiters (pool_of z) = []"
  shows "idle_waiters (pool_of z') = []"
  using assms
proof (induction rule: run_step.induct)
  case (run_begin z now_ms beat_ms fuel steady_now)
  then show ?case
    by (auto simp: after_cases run_prologue_def pool_of_def dest!: heartbeat_pool split: prod.splits sum.splits)
next
  case (run_heartbeat z beat_ms fuel steady_now)
  then show ?case
    by (auto simp: after_cases pool_of_def dest!: heartbeat_pool split: prod.splits sum.splits)
next
  case (pool_move z a es p)
  then show ?case using pool_own_waiters by (metis pool_of_simps(3))
next
  case (pool_process z m p now_ms fuel started_at finished_at s)
  then show ?case using pool_own_waiters by (metis pool_of_simps(3) pool_actor.distinct(1))
qed (auto simp: pool_of_def ThreadPool_Submit_def ThreadPool_Shutdown_def ThreadPool_join_def
    dest!: poll_worker process_worker)

lemma worker_run_waiters:
  "worker_run B clock env z0 es z \<Longrightarrow> fresh_run n z0 \<Longrightarrow> idle_waiters (pool_of z) = []"
  by (induction rule: worker_run.induct)
    (auto simp: fresh_run_def ThreadPool_create_def intro: run_waiters)

lemma own_step_decreases:
  assumes "run_step B clock env a z es z'" and "a = Own" and "stopping z" and "run_inv n z"
    and "idle_waiters (pool_of z) = []"
  shows "run_bound n z' < run_bound n z \<and> stopping z'"
  using assms
proof (induction rule: run_step.induct)
  case (run_heartbeat z beat_ms fuel steady_now)
  then show ?case
    by (auto simp: run_bound_def stopping_def after_cases pool_of_def Worker_IsRunning_def
        dest!: heartbeat_pool split: prod.splits sum.splits)
next
  case (run_poll z tick_ms reserve_ms fuel task s)
  then show ?case
    by (auto simp: run_bound_def stopping_def pool_of_def dest!: poll_worker split: option.splits)
next
  case (run_poll_throws z tick_ms reserve_ms fuel e s)
  then show ?case by (auto simp: run_bound_def stopping_def pool_of_def dest!: poll_worker)
next
  case (run_submit z m)
  then show ?case
    using submit_bound [of "pool_of z" m]
    by (simp add: run_bound_def stopping_def Worker_IsRunning_def)
next
  case (run_shutdown z)
  then have "length (threads (pool_of z)) \<le> n" by (auto simp: run_inv_def pool_inv_def)
  then show ?case
    using run_shutdown shutdown_bound [of "pool_of z"]
    by (simp add: run_bound_def stopping_def Worker_IsRunning_def)
next
  case (run_join z)
  then show ?case
    using join_bound [of "pool_of z"]
    by (simp add: run_bound_def stopping_def Worker_IsRunning_def)
next
  case (pool_move z a es p)
  then have "pool_bound p < pool_bound (pool_of z)"
    using pool_step_decreases by (metis run_actor.distinct(1))
  then show ?case using pool_move by (simp add: run_bound_def stopping_def Worker_IsRunning_def)
next
  case (pool_process z m p now_ms fuel started_at finished_at s)
  then show ?case
    using pool_step_decreases [OF pool_process(2) refl] process_worker [OF pool_process(4)]
    by (simp add: run_bound_def stopping_def Worker_IsRunning_def)
next
  case (pool_abort z m p now_ms fuel started_at finished_at e s)
  then show ?case
    using process_worker [OF pool_abort(4)]
    by (cases "run_pc z") (auto simp: run_bound_def stopping_def pool_of_def)
qed (auto simp: run_bound_def stopping_def)

text \<open>The calling thread and the pool are never all stuck: a thread waits only for others that can move.\<close>

lemma internal_events: "pool_step a p es q \<Longrightarrow> a = Internal \<Longrightarrow> completed es = [] \<or> (\<exists>m. es = [Completed m])"
proof (induction rule: pool_step.induct)
  case (take i p)
  then show ?case by (cases "tasks p") simp_all
qed simp_all

lemma pool_own_enabled:
  assumes "\<not> at_rest (pool_of z)" and "run_pc z \<noteq> Aborted" and "clock t"
  shows "\<exists>es z'. run_step B clock env Own z es z'"
proof -
  obtain es p where step: "pool_step Internal (pool_of z) es p" using assms(1) by (auto simp: at_rest_def)
  from internal_events [OF step refl] show ?thesis
  proof (elim disjE exE)
    assume "completed es = []"
    then show ?thesis using pool_move [OF assms(2) _ step, of B clock env] by auto
  next
    fix m assume es: "es = [Completed m]"
    obtain r s where "Worker_ProcessTask (B 0) 0 0 t m (run_sys z) = (r, s)" by fastforce
    then show ?thesis
      using pool_process [where B = B and env = env and clock = clock and now_ms = t and fuel = 0,
          OF assms(2) step [unfolded es] assms(3), of 0 0 s]
        pool_abort [where B = B and env = env and clock = clock and now_ms = t and fuel = 0,
          OF assms(2) step [unfolded es] assms(3), of 0 0 _ s]
      by (cases r) (blast, simp, blast)
  qed
qed

definition ended :: "('w, 's) run_state \<Rightarrow> bool" where
  "ended z \<longleftrightarrow> run_pc z \<in> {Returned, Aborted} \<or> (\<exists>e. run_pc z = Threw e)"

definition poll_returns :: "(nat \<Rightarrow> 's Broker) \<Rightarrow> (int \<Rightarrow> bool) \<Rightarrow> ('w, 's) run_state \<Rightarrow> bool" where
  "poll_returns B clock z \<longleftrightarrow>
     (\<exists>fuel t u. clock t \<and> clock u \<and> fst (Worker_poll (B fuel) t u (run_sys z)) \<noteq> Inr None)"

lemma own_step_enabled:
  assumes "run_inv n z" and "0 < n" and "clock t" and "poll_returns B clock z" and "\<not> ended z"
  shows "\<exists>es z'. run_step B clock env Own z es z'"
proof (cases "run_pc z")
  case AtJoin
  show ?thesis
  proof (cases "at_rest (pool_of z)")
    case True
    have inv: "pool_inv (pool_of z)" "stop (pool_of z)" "0 < thread_count (pool_of z)"
      using assms(1,2) AtJoin by (auto simp: run_inv_def)
    show ?thesis
      using run_join [OF AtJoin at_rest_steps(3) [OF True] at_rest_done(4) [OF True inv(1,3,2)], of B clock env] by blast
  next
    case False
    then show ?thesis
      using pool_own_enabled [where clock = clock and t = t and z = z and B = B and env = env] assms(3) AtJoin
      by simp
  qed
next
  case AtPoll
  obtain fuel t u r s where p: "clock t" "clock u" "Worker_poll (B fuel) t u (run_sys z) = (r, s)" "r \<noteq> Inr None"
    using assms(4) by (auto simp: poll_returns_def) (metis prod.collapse)
  show ?thesis
  proof (cases r)
    case (Inl e)
    then show ?thesis
      using run_poll_throws [where B = B and env = env and clock = clock and fuel = fuel, OF AtPoll p(1,2)
          p(3) [unfolded Inl]] by blast
  next
    case (Inr task)
    then obtain m where "r = Inr (Some m)" using p(4) by (cases task) auto
    then show ?thesis
      using run_poll [where B = B and env = env and clock = clock and fuel = fuel, OF AtPoll p(1,2), of m s] p(3)
      by blast
  qed
next
  case (AtSubmit m)
  then show ?thesis using run_submit [of z m B clock env] by blast
qed (use assms(3,5) run_begin [of z clock t t B env] run_loop [of z B clock env]
    run_heartbeat [of z clock t B env] run_guard [of z B clock env] run_shutdown [of z B clock env]
    in \<open>auto simp: ended_def\<close>)

text \<open>
  C10: \<open>Run\<close> ends after \<open>Stop\<close>. From every state a worker can reach, once \<open>running_\<close> is false and
  \<open>Run\<close> has begun, every step of the worker's own threads brings a bound down and leaves
  \<open>running_\<close> false, and as long as \<open>Run\<close> has neither returned nor been left by an exception some
  thread of the worker can move: there is no deadlock between the caller of \<open>Run\<close> and the pool.
\<close>

theorem run_ends_after_stop:
  assumes "worker_run B clock env z0 es z" and "fresh_run n z0" and "0 < n" and "stopping z"
    and "clock t" and "poll_returns B clock z"
  shows "(\<forall>fs z'. run_step B clock env Own z fs z' \<longrightarrow> run_bound n z' < run_bound n z \<and> stopping z') \<and>
    (\<not> ended z \<longrightarrow> (\<exists>fs z'. run_step B clock env Own z fs z'))"
  using own_step_decreases [OF _ refl assms(4) _ worker_run_waiters [OF assms(1,2)]]
    worker_run_inv [OF assms(1,2)] own_step_enabled [OF _ assms(3,5,6)] by blast

text \<open>With the Redis broker every poll returns, given enough fuel.\<close>

lemma redis_poll_returns:
  assumes "external X view" and "loaded X (sys_broker (run_sys z))" and "clock t"
  shows "poll_returns (RedisBroker_methods X) clock z"
proof -
  let ?c = "sys_broker (run_sys z)"
  let ?fuel = "Suc (delayed_len (view (srv ?c)))"
  have promoted: "fst (RedisBroker_PromoteDueTasks X ?fuel t ?c) \<noteq> Inr None"
    using external.promote_loop_ends [OF assms(1,2), of ?fuel] unfolding RedisBroker_PromoteDueTasks_def by blast
  have "fst (Worker_poll (RedisBroker_methods X ?fuel) t t (run_sys z)) \<noteq> Inr None"
    using promoted
    by (auto simp: Worker_poll_def RunSchedulerTick_def on_broker_def bind_io_def then_io_def ret_def
        RedisBroker_methods_def split: prod.splits sum.splits option.splits)
  then show ?thesis using assms(3) unfolding poll_returns_def by blast
qed

definition sample_stopped :: "(nat, mem_server conn) run_state" where
  "sample_stopped = sample_begun\<lparr>run_sys := (run_sys sample_begun)\<lparr>sys_worker :=
     Worker_Stop (sys_worker (run_sys sample_begun))\<rparr>\<rparr>"

lemma sample_begun_loop: "loaded ref_ext (sys_broker (run_sys sample_begun))" "run_pc sample_begun = AtLoop"
proof -
  let ?h = "worker_heartbeat 1000 (flaky_worker\<lparr>w_running := True, w_started_at_ms := 1000, w_last_heartbeat_at := 1\<rparr>)"
  obtain c where c: "RedisBroker_UpsertWorkerHeartbeat ref_ext ?h 15 (ref_conn pending_db) = (Inr (), c)"
    "loaded ref_ext c"
    using refx.yields_heartbeat [of ?h 15 pending_db] yieldsD [OF _ ref_conn_connected]
    by (fastforce simp: connected_def)
  have b: "sample_begun = \<lparr>run_sys = \<lparr>sys_worker = flaky_worker\<lparr>w_running := True, w_started_at_ms := 1000,
      w_last_heartbeat_at := 1\<rparr>, sys_app = 0, sys_broker = c\<rparr>, run_pc = AtLoop\<rparr>"
    using c(1) by (simp add: sample_begun_def after_cases Worker_MaybePublishHeartbeat_def
        run_prologue_def sample_start_def on_broker_def RedisBroker_methods_def flaky_worker_def)
  show "loaded ref_ext (sys_broker (run_sys sample_begun))" unfolding b using c(2) by simp
  show "run_pc sample_begun = AtLoop" unfolding b by simp
qed

theorem run_ends_after_stop_witness:
  "stopping sample_stopped \<and> \<not> ended sample_stopped \<and>
   (\<exists>fs z'. run_step (RedisBroker_methods ref_ext) (\<lambda>_. True) (\<lambda>_ _. False) Own sample_stopped fs z' \<and>
      run_bound 1 z' < run_bound 1 sample_stopped)"
proof -
  let ?B = "RedisBroker_methods ref_ext" and ?clock = "\<lambda>_. True" and ?env = "\<lambda>_ _. False"
  have run: "worker_run ?B ?clock ?env sample_start [] sample_stopped"
    using run_next [OF sample_begins(1) run_stop [where B = ?B and clock = ?clock and env = ?env,
        OF sample_begins(2)]] by (simp add: sample_stopped_def)
  have stop: "stopping sample_stopped"
    using sample_begins(3) by (simp add: stopping_def sample_stopped_def Worker_Stop_def Worker_IsRunning_def)
  have returns: "poll_returns ?B ?clock sample_stopped"
    by (rule redis_poll_returns [OF refx.external_axioms]) (simp_all add: sample_stopped_def sample_begun_loop)
  have "\<not> ended sample_stopped" by (simp add: ended_def sample_stopped_def sample_begun_loop)
  then show ?thesis
    using run_ends_after_stop [OF run fresh_sample _ stop _ returns] stop by auto
qed

end
