(* ===== verification/Worker_Safety.thy ===== *)
theory Worker_Safety
  imports Termination
begin

text \<open>
  A worker and the broker it is given. The locale \<open>broker_contract\<close> states what the worker relies
  on: a predicate on the broker's state that its operations keep, and that reserved tasks are
  good ones. Its lemmas hold for any broker; the Redis broker meets the contract for the
  predicate that no task is lost or altered, so a running worker keeps it.
\<close>

locale broker_contract =
  fixes B :: "nat \<Rightarrow> 's Broker" and J :: "'s \<Rightarrow> bool" and good :: "TaskMessage \<Rightarrow> bool"
    and clock :: "int \<Rightarrow> bool"
  assumes promote_J: "keeps J (b_PromoteDueTasks (B fuel) now)"
    and reclaim_J: "keeps J (b_ReclaimStaleTasks (B fuel) now timeout)"
    and reserve_J: "clock now \<Longrightarrow> keeps J (b_Reserve (B fuel) now)"
    and reserve_good: "clock now \<Longrightarrow> J s \<Longrightarrow> b_Reserve (B fuel) now s = (Inr (Some m), s') \<Longrightarrow> good m"
    and ack_J: "good m \<Longrightarrow> keeps J (b_Ack (B fuel) (m_id m))"
    and fail_J: "good m \<Longrightarrow> keeps J (b_Fail (B fuel) (m_id m) reason)"
    and retry_J: "good m \<Longrightarrow> ShouldRetry m \<Longrightarrow> clock now \<Longrightarrow> keeps J (b_Retry (B fuel) now m reason)"
    and heartbeat_J: "keeps J (b_UpsertWorkerHeartbeat (B fuel) h ttl)"
    and counter_J: "keeps J (b_RecordCounter (B fuel) name delta)"
    and duration_J: "keeps J (b_RecordDurationMs (B fuel) name d)"
begin

lemma on_broker_J: "keeps J m \<Longrightarrow> J (sys_broker s) \<Longrightarrow> J (sys_broker (snd (on_broker m s)))"
  using keepsD [of J m "sys_broker s"] by (auto simp: on_broker_def split: prod.splits)

lemma tick_J: "keeps J (RunSchedulerTick (B fuel) now timeout)"
  unfolding RunSchedulerTick_def
  by (intro keeps_bind promote_J) (auto intro!: keeps_intros reclaim_J split: option.splits)

lemma poll_J:
  assumes "J (sys_broker s)" and "clock u" and "Worker_poll (B fuel) t u s = (r, s')"
  shows "J (sys_broker s')" "r = Inr (Some (Some m)) \<Longrightarrow> good m"
proof -
  let ?m = "bind_io (RunSchedulerTick (B fuel) t (w_visibility_timeout (sys_worker s))) (\<lambda>ticked.
      case ticked of None \<Rightarrow> ret None | Some _ \<Rightarrow> bind_io (b_Reserve (B fuel) u) (\<lambda>task. ret (Some task)))"
  have "keeps J ?m"
    by (intro keeps_bind tick_J) (auto intro!: keeps_intros reserve_J [OF assms(2)] split: option.splits)
  from on_broker_J [OF this, of s] show "J (sys_broker s')" using assms(1,3) by (simp add: Worker_poll_def)
  show "good m" if r: "r = Inr (Some (Some m))"
  proof -
    have "fst (?m (sys_broker s)) = r"
      using assms(3) by (auto simp: Worker_poll_def on_broker_def split: prod.splits)
    then obtain b1 b2 where b: "RunSchedulerTick (B fuel) t (w_visibility_timeout (sys_worker s)) (sys_broker s) =
        (Inr (Some ()), b1)" "b_Reserve (B fuel) u b1 = (Inr (Some m), b2)"
      using r by (auto simp: bind_io_def ret_def split: prod.splits sum.splits option.splits)
    have "J b1" using keepsD [OF tick_J assms(1)] b(1) by (metis snd_conv)
    then show ?thesis using reserve_good [OF assms(2)] b(2) by blast
  qed
qed

lemma process_J:
  assumes "J (sys_broker s)" and "good m" and "clock now" and "Worker_ProcessTask (B fuel) t0 t1 now m s = (r, s')"
  shows "J (sys_broker s')"
proof -
  have settle: "keeps J (then_io (b_RecordDurationMs (B fuel) kTaskExecutionDurationMs d)
      (if tr_success result then b_Ack (B fuel) (m_id m)
       else then_io (b_RecordCounter (B fuel) kTasksFailedTotal 1)
             (if ShouldRetry m then b_Retry (B fuel) now m (tr_error_message result)
              else b_Fail (B fuel) (m_id m) (tr_error_message result))))" for d result
    by (auto intro!: keeps_then duration_J ack_J [OF assms(2)] counter_J retry_J [OF assms(2) _ assms(3)] fail_J [OF assms(2)])
  obtain result a where
    ex: "TaskRegistry_Execute (w_registry (sys_worker s)) (m_name m) (m_payload m) (sys_app s) = (result, a)"
    by fastforce
  have app: "J (sys_broker (s\<lparr>sys_app := a\<rparr>))" using assms(1) by simp
  have "J (sys_broker (snd (Worker_ProcessTask (B fuel) t0 t1 now m s)))"
    unfolding Worker_ProcessTask_def Let_def ex prod.case
    by (cases "TaskRegistry_HasTask (w_registry (sys_worker s)) (m_name m)"; simp only: simp_thms if_True if_False)
      (rule on_broker_J [OF settle app] on_broker_J [OF fail_J [OF assms(2)] assms(1)])+
  then show ?thesis by (simp add: assms(4))
qed

lemma publish_J:
  "J (sys_broker s) \<Longrightarrow> J (sys_broker (snd (Worker_MaybePublishHeartbeat (B fuel) t u s)))"
  using on_broker_J [OF heartbeat_J, of "s\<lparr>sys_worker := w\<rparr>" for w]
  by (simp add: Worker_MaybePublishHeartbeat_def Let_def)

definition safe_run :: "('w, 's) run_state \<Rightarrow> bool" where
  "safe_run z \<longleftrightarrow> J (sys_broker (run_sys z)) \<and> (\<forall>m \<in># in_hand z. good m)"

lemma executing_hand:
  assumes "pool_step a (pool_of z) [Completed m] p"
  shows "m \<in># in_hand z"
proof -
  have "m \<in># mset (executing p) + mset (completed [Completed m])" by simp
  then have "m \<in># mset (executing (pool_of z))"
    unfolding pool_step_jobs [OF assms, symmetric] by simp
  then show ?thesis by (simp add: in_hand_def)
qed

lemma sys_broker_after: "sys_broker (run_sys (after rs next)) = sys_broker (snd rs)"
  by (auto simp: after_cases split: prod.splits sum.splits)

lemma run_step_J:
  assumes "run_step B clock env a z es z'" and "safe_run z" and "\<And>b b'. env b b' \<Longrightarrow> J b \<Longrightarrow> J b'"
  shows "J (sys_broker (run_sys z')) \<and> (\<forall>m \<in> set (reserved es). good m)"
  using assms
proof (induction rule: run_step.induct)
  case (run_begin z now_ms beat_ms fuel steady_now)
  then have "J (sys_broker (run_prologue now_ms (run_sys z)))" by (simp add: safe_run_def run_prologue_def)
  then show ?case using publish_J by (simp add: sys_broker_after)
next
  case (run_heartbeat z beat_ms fuel steady_now)
  then have "J (sys_broker (run_sys z))" by (simp add: safe_run_def)
  then show ?case using publish_J by (simp add: sys_broker_after)
next
  case (run_poll z tick_ms reserve_ms fuel task s)
  then show ?case using poll_J [OF _ run_poll(3,4)] by (auto simp: safe_run_def split: option.splits)
next
  case (run_poll_throws z tick_ms reserve_ms fuel e s)
  then show ?case using poll_J [OF _ run_poll_throws(3,4)] by (auto simp: safe_run_def)
next
  case (pool_process z m p now_ms fuel started_at finished_at s)
  then show ?case using process_J [OF _ _ pool_process(3,4)] executing_hand [OF pool_process(2)]
    by (simp add: safe_run_def)
next
  case (pool_abort z m p now_ms fuel started_at finished_at e s)
  then show ?case using process_J [OF _ _ pool_abort(3,4)] executing_hand [OF pool_abort(2)]
    by (simp add: safe_run_def)
qed (auto simp: safe_run_def)

lemma run_step_safe:
  assumes "run_step B clock env a z es z'" and "run_inv n z" and "run_pc z \<noteq> Aborted \<longrightarrow> safe_run z"
    and "\<And>b b'. env b b' \<Longrightarrow> J b \<Longrightarrow> J b'"
  shows "J (sys_broker (run_sys z')) \<and> (\<forall>m \<in> set (reserved es). good m) \<and>
    (run_pc z' \<noteq> Aborted \<longrightarrow> safe_run z')"
proof -
  have z: "safe_run z" using assms(3) aborted_final [OF assms(1)] by blast
  note J' = run_step_J [OF assms(1) z assms(4)]
  have "\<forall>m \<in># in_hand z'. good m" if "run_pc z' \<noteq> Aborted"
  proof
    fix m assume "m \<in># in_hand z'"
    then have "m \<in># in_hand z + mset (reserved es)" using run_step_hand [OF assms(1,2) that] by simp
    then show "good m" using z J' by (auto simp: safe_run_def)
  qed
  then show ?thesis using J' by (simp add: safe_run_def)
qed

lemma worker_run_safe:
  assumes "worker_run B clock env z0 es z" and "fresh_run n z0" and "J (sys_broker (run_sys z0))"
    and "\<And>b b'. env b b' \<Longrightarrow> J b \<Longrightarrow> J b'"
  shows "J (sys_broker (run_sys z)) \<and> (\<forall>m \<in> set (reserved es). good m) \<and> (run_pc z \<noteq> Aborted \<longrightarrow> safe_run z)"
  using assms(1)
proof (induction rule: worker_run.induct)
  case run_start
  then show ?case using assms(2,3) fresh_inv(2) [OF assms(2)] by (simp add: safe_run_def)
next
  case (run_next es z a fs z')
  have "run_inv n z" using worker_run_inv [OF run_next(1) assms(2)] by blast
  with run_step_safe [OF run_next(2) _ _ assms(4)] show ?case using run_next.IH by auto
qed

end

section \<open>The Redis broker\<close>

text \<open>
  \<open>intact T O1 K db\<close>: every stored text is a task of \<open>O1\<close>, and every task of \<open>K\<close> is accounted for.
\<close>

definition intact :: "text_ops \<Rightarrow> task_origins \<Rightarrow> string set \<Rightarrow> redis_db \<Rightarrow> bool" where
  "intact T O1 K db \<longleftrightarrow> carried T O1 db \<and> (\<forall>i \<in> K. accounted T db i)"

definition genuine :: "task_origins \<Rightarrow> TaskMessage \<Rightarrow> bool" where
  "genuine O1 m \<longleftrightarrow> deliverable m \<and> task_origin m \<in> O1"

text \<open>Retries of the tasks in \<open>O1\<close> are due before \<open>10^14\<close> ms, whatever time the clock shows.\<close>

definition timed_origins :: "(int \<Rightarrow> bool) \<Rightarrow> task_origins \<Rightarrow> bool" where
  "timed_origins clock O1 \<longleftrightarrow>
     (\<forall>t. clock t \<longrightarrow> small t) \<and>
     (\<forall>(i, name, payload, p, created) \<in> O1. \<forall>k \<le> max_retries p. \<forall>d now.
        ComputeRetryDelayMs p k = Inr d \<longrightarrow> clock now \<longrightarrow> small (now + d))"

lemma retry_deliverable:
  assumes "timed_origins clock O1" and "genuine O1 m" and "ShouldRetry m" and "clock now"
    and "retry_message now m reason = Inr m'"
  shows "deliverable m'"
proof -
  obtain d where d: "ComputeRetryDelayMs (m_retry_policy m) (m_retry_count m + 1) = Inr d" "in_i64 (now + d)"
    "in_i32 (m_retry_count m + 1)" "m' = m\<lparr>m_retry_count := m_retry_count m + 1, m_last_error := reason,
       m_status := kRetrying, m_reserved_at_ms := None, m_run_at_ms := Some (now + d)\<rparr>"
    using assms(5) by (auto simp: retry_message_def bind_sum_def Let_def add_i32_def add_i64_def
        split: sum.splits if_splits)
  have "(m_id m, m_name m, m_payload m, m_retry_policy m, m_created_at_ms m) \<in> O1"
    and "m_retry_count m + 1 \<le> max_retries (m_retry_policy m)"
    using assms(2,3) by (simp_all add: genuine_def task_origin_def ShouldRetry_def)
  then have "small (now + d)"
    using assms(1,4) d(1) unfolding timed_origins_def by blast
  then show ?thesis
    using assms(2) d(2-4)
    by (auto simp: genuine_def deliverable_def wire_message_def in_range_message_def)
qed

context external
begin

lemma exec_intact:
  assumes "carrying T O1 r" and "intact T O1 K db"
  shows "intact T O1 K (exec T r db)"
proof -
  have "(server_step T)\<^sup>*\<^sup>* db (exec T r db)"
    using assms(1) by (intro r_into_rtranclp step_request) (simp add: carrying_def)
  then have "accounted T (exec T r db) i" if "i \<in> K" for i
    using steps_accounted [OF wire_text_axioms, of db "exec T r db" i] assms(2) that
    by (simp add: intact_def carried_def del: exec.simps)
  then show ?thesis
    using assms(2) exec_carried [OF assms(1)] by (simp add: intact_def del: exec.simps)
qed

lemma intact_invariant: "request_invariant X view (intact T O1 K) (carrying T O1)"
proof unfold_locales
  show "intact T O1 K (exec T r db)" if "carrying T O1 r" "intact T O1 K db" for r db
    using exec_intact that .
  show "carrying T O1 r" if "request_free r" for r using that by (cases r) (simp_all add: carrying_def)
qed

text \<open>The Redis broker meets the contract of the worker for an invariant that the worker's requests keep.\<close>

lemma invariant_contract:
  assumes inv: "request_invariant X view I ok"
    and "\<And>now. clock now \<Longrightarrow> ok (RunReserve now)"
    and "\<And>now c m c'. clock now \<Longrightarrow> conn_inv X view I c \<Longrightarrow> RedisBroker_Reserve X now c = (Inr (Some m), c') \<Longrightarrow> good m"
    and "\<And>m t. good m \<Longrightarrow> ok (RunAck (TaskId_Value (m_id m)) t)"
    and "\<And>m reason. good m \<Longrightarrow> ok (RunFail (TaskId_Value (m_id m)) reason)"
    and "\<And>m now reason m' t. good m \<Longrightarrow> ShouldRetry m \<Longrightarrow> clock now \<Longrightarrow> retry_message now m reason = Inr m' \<Longrightarrow>
      dump T (TaskMessage_ToJson m') = Inr t \<Longrightarrow>
      ok (RunRetry (TaskId_Value (m_id m)) t (the (m_run_at_ms m')) reason)"
  shows "broker_contract (RedisBroker_methods X) (conn_inv X view I) good clock"
proof -
  note keep = request_invariant.keeps_PromoteDueTasks [OF inv] request_invariant.keeps_ReclaimStaleTasks [OF inv]
    request_invariant.keeps_Reserve [OF inv] request_invariant.keeps_Ack [OF inv]
    request_invariant.keeps_Fail [OF inv] request_invariant.keeps_Retry [OF inv]
    request_invariant.keeps_heartbeat [OF inv] request_invariant.keeps_RecordCounter [OF inv]
    request_invariant.keeps_RecordDurationMs [OF inv]
  show ?thesis
    by (unfold_locales, simp_all only: RedisBroker_methods_def Broker.simps) (use assms(2-) in \<open>blast intro: keep\<close>)+
qed

lemma carrying_settle: "carrying T O1 (RunAck j t)" "carrying T O1 (RunFail j reason)"
  by (simp_all add: carrying_def)

lemma carrying_reserve: "timed_origins clock O1 \<Longrightarrow> clock now \<Longrightarrow> carrying T O1 (RunReserve now)"
  using small_i64 by (simp add: carrying_def timed_origins_def)

lemma carrying_retry:
  assumes "timed_origins clock O1" and "genuine O1 m" and "ShouldRetry m" and "clock now"
    and "retry_message now m reason = Inr m'" and "dump T (TaskMessage_ToJson m') = Inr t"
  shows "carrying T O1 (RunRetry (TaskId_Value (m_id m)) t (the (m_run_at_ms m')) reason)"
  using carrying_call_ok [of O1 "CallRetry now m reason"] retry_deliverable [OF assms(1-4)] assms(2,5,6)
  by (auto simp: genuine_def)

lemma redis_contract:
  assumes "timed_origins clock O1"
  shows "broker_contract (RedisBroker_methods X) (conn_inv X view (intact T O1 K)) (genuine O1) clock"
proof (rule invariant_contract [OF intact_invariant])
  fix now c m c'
  assume "clock now" "conn_inv X view (intact T O1 K) c" "RedisBroker_Reserve X now c = (Inr (Some m), c')"
  then show "genuine O1 m"
    using Reserve_carried [of O1 c now m c'] assms by (simp add: conn_inv_def intact_def genuine_def timed_origins_def)
qed (use assms in \<open>auto intro: carrying_settle carrying_reserve carrying_retry\<close>)

lemma flow_intact:
  assumes "flow_step X view O1 s s'" and "intact T O1 K (view s)"
  shows "intact T O1 K (view s')"
  using assms keepsD [OF request_invariant.keeps_call [OF intact_invariant carrying_call_ok]] exec_intact
  by (induction rule: flow_step.induct) (auto simp: conn_inv_def)

end

text \<open>The other clients, seen from a connection: its script hashes stay as they are.\<close>

definition other_clients :: "'s ext \<Rightarrow> ('s \<Rightarrow> redis_db) \<Rightarrow> task_origins \<Rightarrow> 's conn \<Rightarrow> 's conn \<Rightarrow> bool" where
  "other_clients X view O1 c c' \<longleftrightarrow> shas c' = shas c \<and> flow_step X view O1 (srv c) (srv c')"

text \<open>
  C2: a running worker loses and alters no task. A worker runs on a Redis server that further
  clients and workers use as well; connections may lose messages at any point, \<open>Stop\<close> may be
  called, exceptions may leave \<open>Run\<close> or terminate the process. At every moment each task that was
  accounted for at the start is pending, delayed, running or dead, or its result is recorded,
  and whatever the worker has reserved is one of the enqueued tasks.
\<close>

theorem running_worker_keeps_tasks:
  assumes "external X view" and "timed_origins clock O1" and "fresh_run n z0"
    and "loaded X (sys_broker (run_sys z0))"
    and "intact (codec X) O1 K (view (srv (sys_broker (run_sys z0))))"
    and "worker_run (RedisBroker_methods X) clock (other_clients X view O1) z0 es z"
  shows "intact (codec X) O1 K (view (srv (sys_broker (run_sys z)))) \<and>
    (\<forall>m \<in> set (reserved es). task_origin m \<in> O1)"
proof -
  let ?J = "conn_inv X view (intact (codec X) O1 K)"
  have "?J c'" if "other_clients X view O1 c c'" "?J c" for c c'
    using that external.flow_intact [OF assms(1)] by (auto simp: other_clients_def conn_inv_def loaded_def)
  then have "?J (sys_broker (run_sys z)) \<and> (\<forall>m \<in> set (reserved es). genuine O1 m)"
    using broker_contract.worker_run_safe [OF external.redis_contract [OF assms(1,2)] assms(6,3)] assms(4,5)
    by (auto simp: conn_inv_def)
  then show ?thesis by (simp add: conn_inv_def genuine_def)
qed

text \<open>The contract on the reference server, for tasks with the default policy.\<close>

abbreviation sample_clock :: "int \<Rightarrow> bool" where
  "sample_clock t \<equiv> 0 \<le> t \<and> t < 10 ^ 13"

lemma default_delay:
  assumes "k \<le> 3" and "ComputeRetryDelayMs RetryPolicy_default k = Inr d"
  shows "0 \<le> d \<and> d \<le> 4000"
proof (cases "0 < k")
  case True
  then have "k = 1 \<or> k = 2 \<or> k = 3" using assms(1) by linarith
  then show ?thesis
    using assms(2) delay_doubling [of RetryPolicy_default k] True by (auto simp: RetryPolicy_default_def)
next
  case False
  then show ?thesis using assms(2) by (simp add: ComputeRetryDelayMs_def RetryPolicy_default_def)
qed

lemma timed_sample: "timed_origins sample_clock {task_origin sample_message}"
proof -
  have o: "task_origin sample_message = (m_id sample_message, m_name sample_message, m_payload sample_message,
      RetryPolicy_default, m_created_at_ms sample_message)"
    by (simp add: task_origin_def sample_message_def TaskMessage_Create_def TaskMessage_default_def)
  have "small (now + d)" if "sample_clock now" "k \<le> 3" "ComputeRetryDelayMs RetryPolicy_default k = Inr d" for k d now
    using that default_delay [OF that(2,3)] by (simp add: small_def)
  then show ?thesis
    by (auto simp: timed_origins_def o small_def RetryPolicy_default_def [THEN arg_cong, of max_retries])
qed

interpretation ref_worker: broker_contract "RedisBroker_methods ref_ext"
  "conn_inv ref_ext fst (intact (codec ref_ext) {task_origin sample_message} K)"
  "genuine {task_origin sample_message}" sample_clock for K
  by (rule refx.redis_contract [OF timed_sample])

lemma sample_intact:
  "intact (codec ref_ext) {task_origin sample_message} {TaskId_Value (m_id sample_message)} pending_db"
proof -
  let ?t = "ser (TaskMessage_ToJson sample_message)"
  have "good_text (codec ref_ext) (TaskId_Value (m_id sample_message)) ?t"
    using refx.carrying_text [OF deliverable_sample, of "{task_origin sample_message}" ?t] by simp
  then have "text_id (codec ref_ext) ?t = TaskId_Value (m_id sample_message)" by (rule good_text_id)
  then have "accounted (codec ref_ext) pending_db (TaskId_Value (m_id sample_message))"
    by (simp add: accounted_def pending_db_def push_db key_simps)
  then show ?thesis using sample_carried by (simp add: intact_def)
qed

text \<open>The worker publishes its first heartbeat, then another worker reserves the one task.\<close>

theorem running_worker_keeps_tasks_witness:
  "accounted (codec ref_ext) (exec ref_text (RunReserve 1000) (fst (srv (sys_broker (run_sys sample_begun)))))
     (TaskId_Value (m_id sample_message))"
proof -
  let ?O = "{task_origin sample_message}" and ?c = "sys_broker (run_sys sample_begun)"
  let ?env = "other_clients ref_ext fst ?O"
  let ?c' = "?c\<lparr>srv := (exec ref_text (RunReserve 1000) (fst (srv ?c)), snd (srv ?c))\<rparr>"
  let ?z = "sample_begun\<lparr>run_sys := (run_sys sample_begun)\<lparr>sys_broker := ?c'\<rparr>\<rparr>"
  have b: "sys_broker (run_sys sample_start) = ref_conn pending_db" by (simp add: sample_start_def)
  have begun: "worker_run (RedisBroker_methods ref_ext) sample_clock ?env sample_start [] sample_begun"
    by (rule sample_begins) simp
  have "carrying (codec ref_ext) ?O (RunReserve 1000)" by (simp add: carrying_def in_i64_def small_def)
  then have "?env ?c ?c'"
    unfolding other_clients_def by (auto simp del: exec.simps intro: flow_other [of ref_ext ?O "RunReserve 1000"])
  then have "run_step (RedisBroker_methods ref_ext) sample_clock ?env Outside sample_begun [] ?z"
    by (rule others [OF sample_begins(2)])
  from run_next [OF begun this]
  have run: "worker_run (RedisBroker_methods ref_ext) sample_clock ?env sample_start [] ?z" by simp
  have "intact (codec ref_ext) ?O {TaskId_Value (m_id sample_message)} (fst (srv (sys_broker (run_sys sample_start))))"
    unfolding b using sample_intact by (simp add: ref_conn_def)
  from running_worker_keeps_tasks [OF refx.external_axioms timed_sample fresh_sample _ this run]
  show ?thesis by (simp add: b intact_def del: exec.simps)
qed

end
