(* ===== verification/Cli.thy ===== *)
theory Cli
  imports Worker
begin

text \<open>
  The command line program (cli/main.cc) and the producer example (examples/producer.cc). The
  options come from the CLI11 parser, which is external code: its outcome is an argument of
  \<open>cli_main\<close>. Each callback is a definition over the state of the process: what was written to
  the two output streams, and the connection to the broker. \<open>ping uri\<close> is what \<^verbatim>\<open>ping()\<close> on a
  fresh connection to \<open>uri\<close> returns or throws; clock readings and random bytes are arguments.
\<close>

section \<open>The process\<close>

record 's process =
  p_out :: string
  p_err :: string
  p_conn :: "'s conn"

definition cout :: "string \<Rightarrow> ('s process, unit) io" where
  "cout s = (\<lambda>p. (Inr (), p\<lparr>p_out := p_out p @ s\<rparr>))"

definition cerr :: "string \<Rightarrow> ('s process, unit) io" where
  "cerr s = (\<lambda>p. (Inr (), p\<lparr>p_err := p_err p @ s\<rparr>))"

definition on_conn :: "('s conn, 'a) io \<Rightarrow> ('s process, 'a) io" where
  "on_conn m = (\<lambda>p. case m (p_conn p) of (r, c) \<Rightarrow> (r, p\<lparr>p_conn := c\<rparr>))"

abbreviation nl :: string where "nl \<equiv> [CHR 0x0A]"
abbreviation tab :: string where "tab \<equiv> [CHR 0x09]"

definition ExitWithError :: "string \<Rightarrow> ('s process, 'a) io" where
  "ExitWithError message = then_io (cerr (message @ nl)) (throw (ProcessExit 1))"

definition ValidateOrExit :: "ConfigValidation \<Rightarrow> ('s process, unit) io" where
  "ValidateOrExit validation =
     (if \<not> pr_Ok validation then ExitWithError (pr_error validation) else ret ())"

definition EnsureRedis :: "(string \<Rightarrow> exn + string) \<Rightarrow> string \<Rightarrow> ('s process, bool) io" where
  "EnsureRedis ping redis_uri =
     bind_io (lift_io (RedisBroker_Ping (ping redis_uri))) (\<lambda>ok.
       if ok then ret True
       else then_io (cerr (''Redis not available at '' @ redis_uri @ nl))
           (then_io (cerr (''Start Redis with: docker compose up -d redis'' @ nl)) (ret False)))"

definition ParsePayloadJson :: "text_ops \<Rightarrow> string \<Rightarrow> ('s process, json) io" where
  "ParsePayloadJson T payload_json =
     (case parse T payload_json of
        Inr j \<Rightarrow> ret j
      | Inl (JsonError what) \<Rightarrow> ExitWithError (''invalid JSON payload: '' @ what)
      | Inl e \<Rightarrow> throw e)"

text \<open>The guard every callback begins with after its own validations.\<close>

definition redis_or_exit :: "(string \<Rightarrow> exn + string) \<Rightarrow> string \<Rightarrow> ('s process, unit) io" where
  "redis_or_exit ping redis_uri =
     bind_io (EnsureRedis ping redis_uri) (\<lambda>ok. if ok then ret () else throw (ProcessExit 1))"

definition parsed_or_exit :: "'a ParseResult \<Rightarrow> ('s process, 'a) io" where
  "parsed_or_exit r = (if pr_Ok r then ret (pr_value r) else ExitWithError (pr_error r))"

section \<open>The add task\<close>

text \<open>
  \<^verbatim>\<open>get<int>()\<close>: any number or boolean is converted, other kinds throw. A floating-point value
  out of the range of \<open>int\<close> has no defined conversion.
\<close>

fun get_int_exn :: "json \<Rightarrow> exn + int" where
  "get_int_exn (JInt i) = Inr (to_i32 i)"
| "get_int_exn (JFloat (DFin q)) =
     (if in_i32 (truncate_rat q) then Inr (truncate_rat q) else Inl (UndefinedBehaviour ''double to int''))"
| "get_int_exn (JFloat _) = Inl (UndefinedBehaviour ''double to int'')"
| "get_int_exn (JBool b) = Inr (if b then 1 else 0)"
| "get_int_exn _ = Inl (JsonError ''type must be number'')"

definition add_result :: "json \<Rightarrow> exn + TaskResult" where
  "add_result payload =
     bind_sum (at_exn payload ''a'') (\<lambda>ja. bind_sum (get_int_exn ja) (\<lambda>a.
     bind_sum (at_exn payload ''b'') (\<lambda>jb. bind_sum (get_int_exn jb) (\<lambda>b.
     bind_sum (add_i32 a b) (\<lambda>s.
       Inr (TaskResult_Success (json_object [(''result'', JInt s)])))))))"

text \<open>
  \<open>what\<close> gives the text of an exception of the JSON library, and \<open>undef\<close> is what the compiled code
  does where C++ gives it no meaning.
\<close>

definition MakeAddHandler :: "(exn \<Rightarrow> string) \<Rightarrow> (thrown + TaskResult) \<Rightarrow> 'w TaskHandler" where
  "MakeAddHandler what undef payload w =
     (case add_result payload of
        Inr result \<Rightarrow> (Inr result, w)
      | Inl (UndefinedBehaviour _) \<Rightarrow> (undef, w)
      | Inl e \<Rightarrow> (Inl (StdException (what e)), w))"

section \<open>Output\<close>

definition BuildTaskStatusJson :: "'s ext \<Rightarrow> TaskId \<Rightarrow> ('s process, json) io" where
  "BuildTaskStatusJson X tid =
     bind_io (on_conn (RedisBroker_GetStatus X tid)) (\<lambda>status.
     bind_io (parsed_or_exit status) (\<lambda>st.
     (let json = json_object [(''task_id'', JString (TaskId_Value tid)),
                              (''status'', JString (TaskStatusToString st)),
                              (''failure_reason'', JNull),
                              (''result'', JNull)]
      in bind_io (on_conn (RedisBroker_GetFailureReason X tid)) (\<lambda>reason.
         (let json = (if pr_Ok reason then json_put ''failure_reason'' (JString (pr_value reason)) json else json)
          in bind_io (on_conn (RedisBroker_GetTaskResult X tid)) (\<lambda>result.
             ret (if pr_Ok result then json_put ''result'' (TaskResult_ToJson (pr_value result)) json
                  else json)))))))"

definition PrintTaskStatus :: "'s ext \<Rightarrow> TaskId \<Rightarrow> ('s process, unit) io" where
  "PrintTaskStatus X tid =
     bind_io (BuildTaskStatusJson X tid) (\<lambda>json.
     then_io (cout (''task_id: '' @ get_string (json_at json ''task_id'') @ nl))
    (then_io (cout (''status: '' @ get_string (json_at json ''status'') @ nl))
    (then_io (if \<not> is_null (json_at json ''failure_reason'')
              then cout (''failure_reason: '' @ get_string (json_at json ''failure_reason'') @ nl)
              else ret ())
             (if \<not> is_null (json_at json ''result'')
              then then_io (cout ''result: '')
                  (bind_io (lift_io (at_exn (json_at json ''result'') ''payload'')) (\<lambda>payload.
                   bind_io (lift_io (dump (codec X) payload)) (\<lambda>t. cout (t @ nl))))
              else ret ()))))"

definition PrintTaskResult :: "'s ext \<Rightarrow> TaskId \<Rightarrow> ('s process, unit) io" where
  "PrintTaskResult X tid =
     bind_io (on_conn (RedisBroker_GetTaskResult X tid)) (\<lambda>result.
     bind_io (parsed_or_exit result) (\<lambda>r.
     bind_io (lift_io (dump (codec X) (tr_payload r))) (\<lambda>t. cout (t @ nl))))"

definition PrintStats :: "BrokerStats \<Rightarrow> ('s process, unit) io" where
  "PrintStats stats =
     then_io (cout (''pending: '' @ to_string (int (pending_count stats)) @ nl))
    (then_io (cout (''delayed: '' @ to_string (int (delayed_count stats)) @ nl))
    (then_io (cout (''running: '' @ to_string (int (running_count stats)) @ nl))
             (cout (''dead: '' @ to_string (int (dead_count stats)) @ nl))))"

definition worker_row :: "WorkerHeartbeat \<Rightarrow> string" where
  "worker_row w =
     worker_id w @ tab @ hostname w @ tab @ to_string (pid w) @ tab @ to_string (uint (concurrency w)) @ tab @
     to_string (uint (currently_running w)) @ tab @ to_string (started_at_ms w) @ tab @
     to_string (last_seen_ms w) @ nl"

text \<open>Sorted by host name, then by identifier; \<^verbatim>\<open>std::sort\<close> leaves the order of equal keys open.\<close>

definition PrintWorkers :: "WorkerHeartbeat list \<Rightarrow> ('s process, unit) io" where
  "PrintWorkers workers =
     (if workers = [] then cout (''No active workers'' @ nl)
      else then_io
        (cout (''worker_id'' @ tab @ ''hostname'' @ tab @ ''pid'' @ tab @ ''concurrency'' @ tab @ ''running'' @
               tab @ ''started_at'' @ tab @ ''last_seen'' @ nl))
        (cout (concat (map worker_row (sort_key (\<lambda>w. (hostname w, worker_id w)) workers)))))"

section \<open>Commands\<close>

text \<open>The variables the options of \<open>main\<close> are bound to, with their initial values.\<close>

record cli_options =
  redis_uri :: string
  task_name :: string
  payload_json :: string
  retry_policy_json :: string
  opt_delay_ms :: int
  status_task_id :: string
  status_format :: string
  result_task_id :: string
  result_format :: string
  opt_concurrency :: nat
  visibility_timeout_ms :: int
  failed_list_format :: string
  retry_task_id :: string
  metrics_format :: string

definition default_options :: "string option \<Rightarrow> cli_options" where
  "default_options env_uri =
     \<lparr>redis_uri = DefaultRedisUriFromEnv env_uri, task_name = '''', payload_json = ''{}'',
      retry_policy_json = '''', opt_delay_ms = 0, status_task_id = '''', status_format = ''text'',
      result_task_id = '''', result_format = ''text'', opt_concurrency = 4,
      visibility_timeout_ms = kDefaultVisibilityTimeoutMs, failed_list_format = ''text'',
      retry_task_id = '''', metrics_format = ''prometheus''\<rparr>"

text \<open>
  What a run of the program takes from outside: the answer of the server, clock readings, random
  bytes, host and process, and the course of \<^verbatim>\<open>worker.Run()\<close>, which depends on how its threads
  take turns; what \<open>Run\<close> may do is the step relation of Worker_Loop.
\<close>

record 's cli_world =
  cw_ping :: "string \<Rightarrow> exn + string"
  cw_create_ms :: int
  cw_create_bytes :: "8 word list"
  cw_enqueue_ms :: int
  cw_enqueue_bytes :: "8 word list"
  cw_host :: "string option"
  cw_pid :: int
  cw_what :: "exn \<Rightarrow> string"
  cw_undef :: "thrown + TaskResult"
  cw_run :: "unit Worker \<Rightarrow> ('s process, unit) io"

definition enqueue_callback :: "'s ext \<Rightarrow> 's cli_world \<Rightarrow> cli_options \<Rightarrow> ('s process, unit) io" where
  "enqueue_callback X w opt =
     then_io (ValidateOrExit (ValidateRedisUri (redis_uri opt)))
    (then_io (ValidateOrExit (ValidateDelayMs (opt_delay_ms opt)))
    (then_io (redis_or_exit (cw_ping w) (redis_uri opt))
    (bind_io (ParsePayloadJson (codec X) (payload_json opt)) (\<lambda>payload.
     bind_io (if opt_delay_ms opt > 0
              then lift_io (TaskMessage_CreateWithDelay (cw_create_bytes w) (cw_create_ms w) (task_name opt)
                     payload (opt_delay_ms opt))
              else ret (TaskMessage_Create (cw_create_bytes w) (cw_create_ms w) (task_name opt) payload)) (\<lambda>task.
     bind_io (if retry_policy_json opt \<noteq> ''''
              then bind_io (ParsePayloadJson (codec X) (retry_policy_json opt)) (\<lambda>j.
                   bind_io (parsed_or_exit (RetryPolicyFromJson j)) (\<lambda>policy.
                     ret (task\<lparr>m_retry_policy := policy\<rparr>)))
              else ret task) (\<lambda>task.
     then_io (on_conn (RedisBroker_create X))
    (bind_io (on_conn (RedisBroker_Enqueue X (cw_enqueue_bytes w) (cw_enqueue_ms w) task)) (\<lambda>tid.
       cout (TaskId_Value tid @ nl)))))))))"

definition status_callback :: "'s ext \<Rightarrow> 's cli_world \<Rightarrow> cli_options \<Rightarrow> ('s process, unit) io" where
  "status_callback X w opt =
     then_io (ValidateOrExit (ValidateRedisUri (redis_uri opt)))
    (then_io (redis_or_exit (cw_ping w) (redis_uri opt))
    (bind_io (parsed_or_exit (TaskId_Parse (status_task_id opt))) (\<lambda>tid.
     then_io (on_conn (RedisBroker_create X))
    (if status_format opt = ''json''
     then bind_io (BuildTaskStatusJson X tid) (\<lambda>json.
          bind_io (lift_io (dump (codec X) json)) (\<lambda>t. cout (t @ nl)))
     else if status_format opt \<noteq> ''text''
     then ExitWithError (''unsupported status format: '' @ status_format opt)
     else PrintTaskStatus X tid))))"

definition result_callback :: "'s ext \<Rightarrow> 's cli_world \<Rightarrow> cli_options \<Rightarrow> ('s process, unit) io" where
  "result_callback X w opt =
     then_io (ValidateOrExit (ValidateRedisUri (redis_uri opt)))
    (then_io (redis_or_exit (cw_ping w) (redis_uri opt))
    (bind_io (parsed_or_exit (TaskId_Parse (result_task_id opt))) (\<lambda>tid.
     then_io (on_conn (RedisBroker_create X))
    (bind_io (on_conn (RedisBroker_GetTaskResult X tid)) (\<lambda>task_result.
     bind_io (parsed_or_exit task_result) (\<lambda>r.
       if result_format opt = ''json''
       then bind_io (lift_io (dump (codec X) (TaskResult_ToJson r))) (\<lambda>t. cout (t @ nl))
       else if result_format opt \<noteq> ''text''
       then ExitWithError (''unsupported result format: '' @ result_format opt)
       else PrintTaskResult X tid))))))"

definition stats_callback :: "'s ext \<Rightarrow> 's cli_world \<Rightarrow> cli_options \<Rightarrow> ('s process, unit) io" where
  "stats_callback X w opt =
     then_io (ValidateOrExit (ValidateRedisUri (redis_uri opt)))
    (then_io (redis_or_exit (cw_ping w) (redis_uri opt))
    (then_io (on_conn (RedisBroker_create X))
    (bind_io (on_conn (RedisBroker_GetStats X)) PrintStats)))"

text \<open>
  \<open>worker start\<close> up to the call of \<open>Run\<close>: the worker that is about to run. From then on \<open>SIGINT\<close> and
  \<open>SIGTERM\<close> call \<open>HandleStopSignal\<close> on it.
\<close>

definition HandleStopSignal :: "'w Worker option \<Rightarrow> 'w Worker option" where
  "HandleStopSignal g_worker = map_option Worker_Stop g_worker"

definition worker_start_callback :: "'s ext \<Rightarrow> 's cli_world \<Rightarrow> cli_options \<Rightarrow> ('s process, 'w Worker) io" where
  "worker_start_callback X w opt =
     then_io (ValidateOrExit (ValidateRedisUri (redis_uri opt)))
    (then_io (ValidateOrExit (ValidateWorkerConcurrency (opt_concurrency opt)))
    (then_io (ValidateOrExit (ValidateVisibilityTimeout (visibility_timeout_ms opt)))
    (then_io (redis_or_exit (cw_ping w) (redis_uri opt))
    (then_io (on_conn (RedisBroker_create X))
    (bind_io (lift_io (Worker_create (cw_create_bytes w) (cw_host w) (cw_pid w) (opt_concurrency opt))) (\<lambda>worker.
     bind_io (lift_io (Worker_SetVisibilityTimeout (visibility_timeout_ms opt) worker)) (\<lambda>worker.
       ret (Worker_RegisterTask ''add'' (MakeAddHandler (cw_what w) (cw_undef w)) worker))))))))"

fun print_failed :: "'s ext \<Rightarrow> TaskMessage list \<Rightarrow> ('s process, unit) io" where
  "print_failed X [] = ret ()"
| "print_failed X (task # rest) =
     bind_io (on_conn (RedisBroker_GetFailureReason X (m_id task))) (\<lambda>reason.
     then_io (cout (TaskId_Value (m_id task) @ tab @ m_name task @ tab @ to_string (m_retry_count task) @ tab @
                (if pr_Ok reason then pr_value reason else ''unknown'') @ nl))
             (print_failed X rest))"

definition failed_list_callback :: "'s ext \<Rightarrow> 's cli_world \<Rightarrow> cli_options \<Rightarrow> ('s process, unit) io" where
  "failed_list_callback X w opt =
     then_io (ValidateOrExit (ValidateRedisUri (redis_uri opt)))
    (then_io (redis_or_exit (cw_ping w) (redis_uri opt))
    (then_io (on_conn (RedisBroker_create X))
    (bind_io (on_conn (RedisBroker_ListDeadTasks X)) (\<lambda>dead_tasks.
       if failed_list_format opt = ''json''
       then bind_io (lift_io (dump (codec X) (JArray (map TaskMessage_ToJson dead_tasks)))) (\<lambda>t. cout (t @ nl))
       else if failed_list_format opt \<noteq> ''text''
       then ExitWithError (''unsupported failed list format: '' @ failed_list_format opt)
       else if dead_tasks = [] then cout (''No failed tasks'' @ nl)
       else print_failed X dead_tasks))))"

definition failed_retry_callback :: "'s ext \<Rightarrow> 's cli_world \<Rightarrow> cli_options \<Rightarrow> ('s process, unit) io" where
  "failed_retry_callback X w opt =
     then_io (ValidateOrExit (ValidateRedisUri (redis_uri opt)))
    (then_io (redis_or_exit (cw_ping w) (redis_uri opt))
    (bind_io (parsed_or_exit (TaskId_Parse (retry_task_id opt))) (\<lambda>tid.
     then_io (on_conn (RedisBroker_create X))
    (bind_io (on_conn (RedisBroker_RetryDeadTask X tid)) (\<lambda>retried.
     bind_io (parsed_or_exit retried) (\<lambda>rid.
     bind_io (on_conn (RedisBroker_GetStatus X rid)) (\<lambda>status.
       if pr_Ok status
       then cout (''requeued task '' @ TaskId_Value rid @ '' status='' @ TaskStatusToString (pr_value status) @ nl)
       else ret ())))))))"

definition workers_list_callback :: "'s ext \<Rightarrow> 's cli_world \<Rightarrow> cli_options \<Rightarrow> ('s process, unit) io" where
  "workers_list_callback X w opt =
     then_io (ValidateOrExit (ValidateRedisUri (redis_uri opt)))
    (then_io (redis_or_exit (cw_ping w) (redis_uri opt))
    (then_io (on_conn (RedisBroker_create X))
    (bind_io (on_conn (RedisBroker_ListWorkers X)) PrintWorkers)))"

definition metrics_callback :: "'s ext \<Rightarrow> 's cli_world \<Rightarrow> cli_options \<Rightarrow> ('s process, unit) io" where
  "metrics_callback X w opt =
     then_io (ValidateOrExit (ValidateRedisUri (redis_uri opt)))
    (then_io (redis_or_exit (cw_ping w) (redis_uri opt))
    (then_io (on_conn (RedisBroker_create X))
    (bind_io (on_conn (CollectMetrics (RedisBroker_methods X 0))) (\<lambda>snapshot.
       if metrics_format opt = ''plain'' then cout (FormatMetricsPlainText snapshot)
       else if metrics_format opt = ''prometheus'' then cout (FormatMetricsPrometheus snapshot)
       else ExitWithError (''unsupported metrics format: '' @ metrics_format opt)))))"

section \<open>main\<close>

text \<open>
  What the parser found: an error or a request for help, with the exit code it asks for, or the
  callback to run.
\<close>

datatype cli_command =
    CmdEnqueue | CmdStatus | CmdResult | CmdStats | CmdWorkerStart | CmdFailedList | CmdFailedRetry
  | CmdWorkersList | CmdMetrics | CmdGroup | CmdNone

definition run_command ::
    "'s ext \<Rightarrow> 's cli_world \<Rightarrow> string \<Rightarrow> cli_command \<Rightarrow> cli_options \<Rightarrow> ('s process, unit) io" where
  "run_command X w help cmd opt =
     (case cmd of
        CmdEnqueue \<Rightarrow> enqueue_callback X w opt
      | CmdStatus \<Rightarrow> status_callback X w opt
      | CmdResult \<Rightarrow> result_callback X w opt
      | CmdStats \<Rightarrow> stats_callback X w opt
      | CmdWorkerStart \<Rightarrow>
          bind_io (worker_start_callback X w opt) (cw_run w)
      | CmdFailedList \<Rightarrow> failed_list_callback X w opt
      | CmdFailedRetry \<Rightarrow> failed_retry_callback X w opt
      | CmdWorkersList \<Rightarrow> workers_list_callback X w opt
      | CmdMetrics \<Rightarrow> metrics_callback X w opt
      | CmdGroup \<Rightarrow> ret ()
      | CmdNone \<Rightarrow> cout (help @ nl))"

text \<open>The exit code. An exception that is not \<^verbatim>\<open>CLI::ParseError\<close> leaves \<open>main\<close>.\<close>

definition cli_main ::
    "'s ext \<Rightarrow> 's cli_world \<Rightarrow> string \<Rightarrow> int + cli_command \<times> cli_options \<Rightarrow> ('s process, int) io" where
  "cli_main X w help parsed =
     (case parsed of
        Inl code \<Rightarrow> ret code
      | Inr (cmd, opt) \<Rightarrow>
          catch_io (then_io (run_command X w help cmd opt) (ret 0))
            (\<lambda>e. case e of ProcessExit code \<Rightarrow> ret code | _ \<Rightarrow> throw Terminated))"

section \<open>Builds without Redis\<close>

text \<open>The one subcommand such a build has.\<close>

definition enqueue_callback_disabled :: "('s process, unit) io" where
  "enqueue_callback_disabled =
     then_io (cerr (''Redis support disabled. Rebuild with TASKQUEUE_ENABLE_REDIS=ON'' @ nl)) (throw (ProcessExit 1))"

section \<open>The producer example\<close>

definition kVersionString :: string where "kVersionString = ''0.1.0''"

definition Version :: string where "Version = kVersionString"

text \<open>Two tasks, each created and enqueued with its own clock readings and random bytes.\<close>

definition producer_main ::
    "'s ext \<Rightarrow> 's cli_world \<Rightarrow> 's cli_world \<Rightarrow> string option \<Rightarrow> ('s process, int) io" where
  "producer_main X w1 w2 env_uri =
     then_io (cout (''taskqueue producer example'' @ nl))
    (then_io (cout (''version: '' @ kVersionString @ nl))
    (let redis_uri = DefaultRedisUriFromEnv env_uri
     in bind_io (lift_io (RedisBroker_Ping (cw_ping w1 redis_uri))) (\<lambda>ok.
        if \<not> ok
        then then_io (cerr (''Redis not available at '' @ redis_uri @ nl))
            (then_io (cerr (''Start Redis with: docker compose up -d redis'' @ nl)) (ret 1))
        else then_io (on_conn (RedisBroker_create X))
       (let immediate = TaskMessage_Create (cw_create_bytes w1) (cw_create_ms w1) ''add''
              (json_object [(''a'', JInt 2), (''b'', JInt 3)])
        in bind_io (on_conn (RedisBroker_Enqueue X (cw_enqueue_bytes w1) (cw_enqueue_ms w1) immediate)) (\<lambda>immediate_id.
           bind_io (lift_io (TaskMessage_CreateWithDelay (cw_create_bytes w2) (cw_create_ms w2) ''add''
              (json_object [(''a'', JInt 10), (''b'', JInt 1)]) 5000)) (\<lambda>delayed.
           bind_io (on_conn (RedisBroker_Enqueue X (cw_enqueue_bytes w2) (cw_enqueue_ms w2) delayed)) (\<lambda>delayed_id.
           then_io (cout (''enqueued immediate task id: '' @ TaskId_Value immediate_id @ nl))
          (then_io (cout (''enqueued delayed task id: '' @ TaskId_Value delayed_id @ '' run_at_ms='' @
                     to_string (the (m_run_at_ms delayed)) @ nl))
          (bind_io (on_conn (RedisBroker_GetStatus X immediate_id)) (\<lambda>status.
           then_io (if pr_Ok status then cout (''status: '' @ TaskStatusToString (pr_value status) @ nl) else ret ())
                   (ret 0)))))))))))"

definition producer_main_disabled :: "('s process, int) io" where
  "producer_main_disabled =
     then_io (cout (''taskqueue producer example'' @ nl))
    (then_io (cout (''version: '' @ kVersionString @ nl))
    (then_io (cout (''Redis support disabled at build time'' @ nl)) (ret 0)))"

end
