(* ===== verification/Cli_Properties.thy ===== *)
theory Cli_Properties
  imports Cli Heartbeats Worker_Loop
begin

text \<open>
  What the command line program prints and with which code it ends, on a connection without
  losses. \<open>runs\<close> describes a computation of the process by its result, its output and its effect
  on the keyspace, as \<open>yields\<close> does for the broker.
\<close>

definition runs ::
    "'s ext \<Rightarrow> ('s \<Rightarrow> redis_db) \<Rightarrow> ('s process, 'a) io \<Rightarrow> redis_db \<Rightarrow> exn + 'a \<Rightarrow> string \<Rightarrow> string \<Rightarrow> redis_db \<Rightarrow> bool"
  where
  "runs X view m db r out err db' \<longleftrightarrow>
     (\<forall>p. connected X view (p_conn p) db \<longrightarrow>
        (\<exists>c. connected X view c db' \<and> m p = (r, \<lparr>p_out = p_out p @ out, p_err = p_err p @ err, p_conn = c\<rparr>)))"

lemma runsD:
  "runs X view m db r out err db' \<Longrightarrow> connected X view (p_conn p) db \<Longrightarrow>
     \<exists>c. connected X view c db' \<and> m p = (r, \<lparr>p_out = p_out p @ out, p_err = p_err p @ err, p_conn = c\<rparr>)"
  by (simp add: runs_def)

lemma runs_pure:
  "runs X view (ret a) db (Inr a) '''' '''' db" "runs X view (lift_io r) db r '''' '''' db"
  "runs X view (cout s) db (Inr ()) s '''' db" "runs X view (throw e) db (Inl e) '''' '''' db"
  "runs X view (ExitWithError s) db (Inl (ProcessExit 1)) '''' (s @ nl) db"
  by (auto simp: runs_def ret_def lift_io_def throw_def cout_def ExitWithError_def then_io_def bind_io_def
      cerr_def)

lemma runs_bind:
  fixes X :: "'s ext"
  assumes "runs X view m db (Inr a) out err db1" and "runs X view (f a) db1 r out' err' db2"
  shows "runs X view (bind_io m f) db r (out @ out') (err @ err') db2"
  unfolding runs_def
proof (intro allI impI)
  fix p :: "'s process"
  assume "connected X view (p_conn p) db"
  then obtain c where c: "connected X view c db1"
    "m p = (Inr a, \<lparr>p_out = p_out p @ out, p_err = p_err p @ err, p_conn = c\<rparr>)"
    using runsD [OF assms(1)] by blast
  then show "\<exists>c. connected X view c db2 \<and> bind_io m f p =
      (r, \<lparr>p_out = p_out p @ out @ out', p_err = p_err p @ err @ err', p_conn = c\<rparr>)"
    using runsD [OF assms(2), of "\<lparr>p_out = p_out p @ out, p_err = p_err p @ err, p_conn = c\<rparr>"]
    by (simp add: bind_io_def)
qed

lemma runs_then:
  "runs X view m db (Inr a) out err db1 \<Longrightarrow> runs X view n db1 r out' err' db2 \<Longrightarrow>
     runs X view (then_io m n) db r (out @ out') (err @ err') db2"
  by (simp add: then_io_def runs_bind)

lemma runs_on_conn:
  assumes "yields X view m db r db'"
  shows "runs X view (on_conn m) db r '''' '''' db'"
  unfolding runs_def on_conn_def using yieldsD [OF assms] by fastforce

lemma runs_silent:
  "runs X view m db (Inr a) '''' '''' db1 \<Longrightarrow> runs X view (f a) db1 r out err db2 \<Longrightarrow>
     runs X view (bind_io m f) db r out err db2"
  using runs_bind [of X view m db a "''''" "''''" db1 f r out err db2] by simp

lemma runs_cout: "runs X view m db r out err db' \<Longrightarrow> runs X view (then_io (cout s) m) db r (s @ out) err db'"
  using runs_then [OF runs_pure(3)] by fastforce

lemma runs_lift: "runs X view (f a) db r out err db' \<Longrightarrow> runs X view (bind_io (lift_io (Inr a)) f) db r out err db'"
  by simp

text \<open>The guards pass when the input is fine and the server answers.\<close>

lemma guards [simp]:
  "pr_Ok v \<Longrightarrow> ValidateOrExit v = ret ()"
  "ping u = Inr ''PONG'' \<Longrightarrow> redis_or_exit ping u = ret ()"
  "pr_Ok r \<Longrightarrow> parsed_or_exit r = ret (pr_value r)"
  "parse T s = Inr j \<Longrightarrow> ParsePayloadJson T s = ret j"
  by (simp_all add: ValidateOrExit_def redis_or_exit_def EnsureRedis_def RedisBroker_Ping_def
      parsed_or_exit_def ParsePayloadJson_def)

lemma then_ret [simp]: "then_io (ret a) m = m"
  by (simp add: then_io_def)

text \<open>The part of a callback after the constructor of the broker.\<close>

lemma after_create:
  assumes "external X view" and "net (p_conn p) = []" and "view (srv (p_conn p)) = db"
    and "runs X view m db r out err db'"
  shows "\<exists>c. connected X view c db' \<and> then_io (on_conn (RedisBroker_create X)) m p =
    (r, \<lparr>p_out = p_out p @ out, p_err = p_err p @ err, p_conn = c\<rparr>)"
proof -
  obtain c where c: "LoadScripts X (p_conn p) = (Inr (), c)" "connected X view c db"
    using external.LoadScripts_connected [OF assms(1,2)] assms(3) by blast
  then have "on_conn (RedisBroker_create X) p = (Inr (), p\<lparr>p_conn := c\<rparr>)"
    by (simp add: on_conn_def RedisBroker_create_def)
  then show ?thesis
    using runsD [OF assms(4), of "p\<lparr>p_conn := c\<rparr>"] c(2) by (simp add: then_io_def bind_io_def)
qed

section \<open>Status and result\<close>

context external
begin

lemma runs_BuildTaskStatusJson:
  assumes "map_of (hash_at db redis_kStatus) (TaskId_Value i) = Some s" and "TaskStatusFromString s = PR_Ok st"
    and "map_of (hash_at db redis_kFailures) (TaskId_Value i) = None"
    and "map_of (hash_at db redis_kResults) (TaskId_Value i) = None"
  shows "runs X view (BuildTaskStatusJson X i) db
    (Inr (json_object [(''task_id'', JString (TaskId_Value i)), (''status'', JString (TaskStatusToString st)),
       (''failure_reason'', JNull), (''result'', JNull)])) '''' '''' db"
  unfolding BuildTaskStatusJson_def Let_def
  using runs_on_conn [OF yields_GetStatus, of i db] runs_on_conn [OF yields_GetFailureReason, of i db]
    runs_on_conn [OF yields_GetTaskResult_none, of db i]
  by (auto simp: assms intro!: runs_silent runs_pure)

lemma runs_PrintTaskStatus:
  assumes "map_of (hash_at db redis_kStatus) (TaskId_Value i) = Some s" and "TaskStatusFromString s = PR_Ok st"
    and "map_of (hash_at db redis_kFailures) (TaskId_Value i) = None"
    and "map_of (hash_at db redis_kResults) (TaskId_Value i) = None"
  shows "runs X view (PrintTaskStatus X i) db (Inr ())
    (''task_id: '' @ TaskId_Value i @ nl @ ''status: '' @ TaskStatusToString st @ nl) '''' db"
proof -
  have "runs X view (then_io (cout (''task_id: '' @ TaskId_Value i @ nl))
      (then_io (cout (''status: '' @ TaskStatusToString st @ nl)) (ret ()))) db (Inr ())
      ((''task_id: '' @ TaskId_Value i @ nl) @ (''status: '' @ TaskStatusToString st @ nl) @ []) [] db"
    by (intro runs_cout runs_pure)
  then show ?thesis
    unfolding PrintTaskStatus_def
    by (intro runs_silent [OF runs_BuildTaskStatusJson [OF assms]]) (simp add: json_at_def)
qed

end

lemma cli_main_ok:
  assumes "run_command X w help cmd opt p = (Inr u, p')"
  shows "cli_main X w help (Inr (cmd, opt)) p = (Inr 0, p')"
  using assms by (simp add: cli_main_def catch_io_def then_io_def bind_io_def ret_def)

lemma cli_main_exit:
  assumes "run_command X w help cmd opt p = (Inl (ProcessExit code), p')"
  shows "cli_main X w help (Inr (cmd, opt)) p = (Inr code, p')"
  using assms by (simp add: cli_main_def catch_io_def then_io_def bind_io_def ret_def)

definition created_task :: "'s cli_world \<Rightarrow> cli_options \<Rightarrow> json \<Rightarrow> exn + TaskMessage" where
  "created_task w opt payload =
     (if opt_delay_ms opt > 0
      then TaskMessage_CreateWithDelay (cw_create_bytes w) (cw_create_ms w) (task_name opt) payload (opt_delay_ms opt)
      else Inr (TaskMessage_Create (cw_create_bytes w) (cw_create_ms w) (task_name opt) payload))"

lemma created_task_id:
  "created_task w opt payload = Inr task \<Longrightarrow> m_id task = TaskId_Generate (cw_create_bytes w)"
  by (auto simp: created_task_def TaskMessage_CreateWithDelay_def TaskMessage_Create_def Let_def bind_sum_def
      split: if_splits sum.splits)

lemma generated_valid: "TaskId_Parse (TaskId_Value (TaskId_Generate b)) = PR_Ok (TaskId_Generate b)"
    "TaskId_Value (TaskId_Generate b) \<noteq> ''''"
  using IsValidUuidFormat_nonempty by (auto simp: TaskId_Generate_def Let_def)

lemma enqueue_command:
  assumes "external X view" and "net (p_conn p) = []" and "redis_uri opt \<noteq> ''''"
    and "cw_ping w (redis_uri opt) = Inr ''PONG''" and "parse (codec X) (payload_json opt) = Inr payload"
    and "retry_policy_json opt = ''''" and "0 \<le> opt_delay_ms opt" and "created_task w opt payload = Inr task"
    and "dump (codec X) (TaskMessage_ToJson (stored_message (cw_enqueue_bytes w) (cw_enqueue_ms w) task)) = Inr t"
  shows "\<exists>c db'. run_command X w help CmdEnqueue opt p =
      (Inr (), \<lparr>p_out = p_out p @ TaskId_Value (TaskId_Generate (cw_create_bytes w)) @ nl, p_err = p_err p, p_conn = c\<rparr>) \<and>
    connected X view c db' \<and>
    metrics_only (exec (codec X) (enqueue_request (cw_enqueue_ms w)
      (stored_message (cw_enqueue_bytes w) (cw_enqueue_ms w) task) t) (view (srv (p_conn p)))) db'"
proof -
  let ?stored = "stored_message (cw_enqueue_bytes w) (cw_enqueue_ms w) task"
  have i: "m_id ?stored = TaskId_Generate (cw_create_bytes w)"
    using created_task_id [OF assms(8)] generated_valid(2) by (simp add: stored_message_def Let_def)
  obtain db' where y: "yields X view (RedisBroker_Enqueue X (cw_enqueue_bytes w) (cw_enqueue_ms w) task)
      (view (srv (p_conn p))) (Inr (m_id ?stored)) db'"
    and mo: "metrics_only (exec (codec X) (enqueue_request (cw_enqueue_ms w) ?stored t) (view (srv (p_conn p)))) db'"
    using external.yields_Enqueue [OF assms(1,9)] by blast
  have "runs X view (bind_io (on_conn (RedisBroker_Enqueue X (cw_enqueue_bytes w) (cw_enqueue_ms w) task))
      (\<lambda>tid. cout (TaskId_Value tid @ nl))) (view (srv (p_conn p))) (Inr ()) (TaskId_Value (m_id ?stored) @ nl) '''' db'"
    by (rule runs_silent [OF runs_on_conn [OF y]]) (rule runs_pure)
  from after_create [OF assms(1,2) refl this] obtain c where "connected X view c db'"
    "then_io (on_conn (RedisBroker_create X)) (bind_io (on_conn (RedisBroker_Enqueue X (cw_enqueue_bytes w)
        (cw_enqueue_ms w) task)) (\<lambda>tid. cout (TaskId_Value tid @ nl))) p =
      (Inr (), \<lparr>p_out = p_out p @ TaskId_Value (m_id ?stored) @ nl, p_err = p_err p @ '''', p_conn = c\<rparr>)"
    by blast
  moreover have "run_command X w help CmdEnqueue opt p = then_io (on_conn (RedisBroker_create X))
      (bind_io (on_conn (RedisBroker_Enqueue X (cw_enqueue_bytes w) (cw_enqueue_ms w) task))
        (\<lambda>tid. cout (TaskId_Value tid @ nl))) p"
    using assms(3-8)
    by (cases "opt_delay_ms opt > 0")
      (simp_all add: run_command_def enqueue_callback_def ValidateRedisUri_def ValidateDelayMs_def created_task_def)
  ultimately show ?thesis using i mo by auto
qed

lemma status_command:
  assumes "external X view" and "connected X view (p_conn p) db" and "redis_uri opt \<noteq> ''''"
    and "cw_ping w (redis_uri opt) = Inr ''PONG''" and "TaskId_Parse (status_task_id opt) = PR_Ok i"
    and "status_format opt = ''text''" and "runs X view (PrintTaskStatus X i) db (Inr ()) out '''' db"
  shows "\<exists>c. connected X view c db \<and> run_command X w help CmdStatus opt p =
    (Inr (), \<lparr>p_out = p_out p @ out, p_err = p_err p, p_conn = c\<rparr>)"
proof -
  have "net (p_conn p) = []" "view (srv (p_conn p)) = db" using assms(2) by (simp_all add: connected_def)
  from after_create [OF assms(1) this assms(7)] show ?thesis
    using assms(3-6) by (simp add: run_command_def status_callback_def ValidateRedisUri_def)
qed

text \<open>
  C22: \<open>taskq enqueue\<close> followed by \<open>taskq status\<close>. With a valid payload, no retry policy, a delay that is not
  negative and a server that answers, \<open>enqueue\<close> prints the identifier of the new task and exits with 0;
  \<open>status\<close> with this identifier then prints it with the status \<open>pending\<close> and exits with 0, also
  for a delayed task.
\<close>

theorem enqueue_then_status:
  fixes X :: "'s ext" and p :: "'s process" and w :: "'s cli_world"
  defines "i \<equiv> TaskId_Value (TaskId_Generate (cw_create_bytes w))"
  assumes "external X view" and "net (p_conn p) = []" and "redis_uri opt \<noteq> ''''"
    and "cw_ping w (redis_uri opt) = Inr ''PONG''" and "parse (codec X) (payload_json opt) = Inr payload"
    and "retry_policy_json opt = ''''" and "0 \<le> opt_delay_ms opt" and "created_task w opt payload = Inr task"
    and "dump (codec X) (TaskMessage_ToJson (stored_message (cw_enqueue_bytes w) (cw_enqueue_ms w) task)) = Inr t"
    and "map_of (hash_at (view (srv (p_conn p))) redis_kFailures) i = None"
    and "map_of (hash_at (view (srv (p_conn p))) redis_kResults) i = None"
  shows "\<exists>p' p''. cli_main X w help (Inr (CmdEnqueue, opt)) p = (Inr 0, p') \<and>
    p_out p' = p_out p @ i @ nl \<and> p_err p' = p_err p \<and>
    cli_main X w help (Inr (CmdStatus, opt\<lparr>status_task_id := i, status_format := ''text''\<rparr>)) p' = (Inr 0, p'') \<and>
    p_out p'' = p_out p' @ ''task_id: '' @ i @ nl @ ''status: pending'' @ nl \<and> p_err p'' = p_err p"
proof -
  let ?stored = "stored_message (cw_enqueue_bytes w) (cw_enqueue_ms w) task"
  let ?i = "TaskId_Generate (cw_create_bytes w)"
  have mid: "TaskId_Value (m_id ?stored) = i"
    using created_task_id [OF assms(9)] generated_valid(2) by (simp add: stored_message_def Let_def i_def)
  obtain c db' where c: "run_command X w help CmdEnqueue opt p =
      (Inr (), \<lparr>p_out = p_out p @ i @ nl, p_err = p_err p, p_conn = c\<rparr>)" "connected X view c db'"
    and mo: "metrics_only (exec (codec X) (enqueue_request (cw_enqueue_ms w) ?stored t) (view (srv (p_conn p)))) db'"
    using enqueue_command [OF assms(2-10)] unfolding i_def by blast
  have db': "map_of (hash_at db' redis_kStatus) i = Some ''pending''"
    "map_of (hash_at db' redis_kFailures) i = None" "map_of (hash_at db' redis_kResults) i = None"
    using mo assms(11,12)
    by (auto simp: metrics_only_def enqueue_request_def push_db schedule_db key_simps mid split: if_splits)
  have "runs X view (PrintTaskStatus X ?i) db' (Inr ())
      (''task_id: '' @ i @ nl @ ''status: '' @ TaskStatusToString kPending @ nl) '''' db'"
    using external.runs_PrintTaskStatus [OF assms(2), of db' ?i "''pending''" kPending] db'
    by (simp add: i_def TaskStatusFromString_def)
  note show_status = status_command [OF assms(2) _ _ _ _ _ this, of "\<lparr>p_out = p_out p @ i @ nl, p_err = p_err p, p_conn = c\<rparr>"
      "opt\<lparr>status_task_id := i, status_format := ''text''\<rparr>" w "help"]
  obtain c' where "run_command X w help CmdStatus (opt\<lparr>status_task_id := i, status_format := ''text''\<rparr>)
      \<lparr>p_out = p_out p @ i @ nl, p_err = p_err p, p_conn = c\<rparr> = (Inr (), \<lparr>p_out = (p_out p @ i @ nl) @
        ''task_id: '' @ i @ nl @ ''status: '' @ TaskStatusToString kPending @ nl, p_err = p_err p, p_conn = c'\<rparr>)"
    using show_status c(2) assms(4,5) generated_valid(1) by (auto simp: i_def)
  from cli_main_ok [OF c(1)] cli_main_ok [OF this] show ?thesis by simp
qed

definition sample_world :: "mem_server cli_world" where
  "sample_world =
     \<lparr>cw_ping = (\<lambda>_. Inr ''PONG''), cw_create_ms = 1000, cw_create_bytes = replicate 16 7, cw_enqueue_ms = 1001,
      cw_enqueue_bytes = [], cw_host = Some ''host'', cw_pid = 42, cw_what = (\<lambda>_. ''bad payload''),
      cw_undef = Inl OtherException, cw_run = (\<lambda>_. ret ())\<rparr>"

definition sample_options :: cli_options where
  "sample_options = (default_options None)\<lparr>task_name := ''add'', payload_json := ser empty_object\<rparr>"

definition sample_process :: "mem_server process" where
  "sample_process = \<lparr>p_out = '''', p_err = '''', p_conn = ref_conn empty_db\<rparr>"

lemma sample_process_simps [simp]:
  "net (p_conn sample_process) = []" "fst (srv (p_conn sample_process)) = empty_db"
  "p_out sample_process = ''''" "p_err sample_process = ''''"
  by (simp_all add: sample_process_def ref_conn_def)

theorem enqueue_then_status_witness:
  "let i = TaskId_Value (TaskId_Generate (replicate 16 7))
   in \<exists>p' p''. cli_main ref_ext sample_world '''' (Inr (CmdEnqueue, sample_options)) sample_process = (Inr 0, p') \<and>
     cli_main ref_ext sample_world '''' (Inr (CmdStatus, sample_options\<lparr>status_task_id := i, status_format := ''text''\<rparr>)) p' =
       (Inr 0, p'') \<and> p_out p'' = i @ nl @ ''task_id: '' @ i @ nl @ ''status: pending'' @ nl"
proof -
  have s: "created_task sample_world sample_options empty_object =
      Inr (TaskMessage_Create (replicate 16 7) 1000 ''add'' empty_object)"
    by (simp add: created_task_def sample_world_def sample_options_def default_options_def)
  have parsed: "parse ref_text ''{}'' = Inr empty_object"
    using ref.parse_dump [of empty_object "''{}''"] by (simp add: ref_text_def smap_def)
  have w: "cw_create_bytes sample_world = replicate 16 7" by (simp add: sample_world_def)
  have "\<exists>p' p''. cli_main ref_ext sample_world '''' (Inr (CmdEnqueue, sample_options)) sample_process = (Inr 0, p') \<and>
      p_out p' = p_out sample_process @ TaskId_Value (TaskId_Generate (cw_create_bytes sample_world)) @ nl \<and>
      p_err p' = p_err sample_process \<and>
      cli_main ref_ext sample_world '''' (Inr (CmdStatus, sample_options\<lparr>status_task_id :=
        TaskId_Value (TaskId_Generate (cw_create_bytes sample_world)), status_format := ''text''\<rparr>)) p' = (Inr 0, p'') \<and>
      p_out p'' = p_out p' @ ''task_id: '' @ TaskId_Value (TaskId_Generate (cw_create_bytes sample_world)) @ nl @
        ''status: pending'' @ nl \<and> p_err p'' = p_err sample_process"
    by (rule enqueue_then_status [OF refx.external_axioms _ _ _ _ _ _ s])
      (simp_all add: sample_options_def default_options_def DefaultRedisUriFromEnv_def sample_world_def parsed)
  then show ?thesis unfolding Let_def w by auto
qed

section \<open>Invalid input\<close>

text \<open>\<open>refuses m\<close>: \<open>m\<close> ends the process with 1 and a message, before any output or request.\<close>

definition refuses :: "('s process, 'a) io \<Rightarrow> bool" where
  "refuses m \<longleftrightarrow>
     (\<forall>p. \<exists>message. message \<noteq> '''' \<and> m p = (Inl (ProcessExit 1), p\<lparr>p_err := p_err p @ message\<rparr>))"

lemma refuses_bind [simp]: "refuses m \<Longrightarrow> refuses (bind_io m f)"
  unfolding refuses_def by (metis bind_io_simps(2))

lemma refuses_then [simp]: "refuses m \<Longrightarrow> refuses (then_io m n)"
  by (simp add: then_io_def)

lemma not_refuses_ret [simp]: "\<not> refuses (ret a)"
  by (simp add: refuses_def ret_def)

lemma refuses_Exit [simp]: "refuses (ExitWithError message)"
  by (auto simp: refuses_def ExitWithError_def then_io_def bind_io_def cerr_def throw_def)

lemma refuses_guards [simp]:
  "\<not> pr_Ok v \<Longrightarrow> refuses (ValidateOrExit v)" "\<not> pr_Ok r \<Longrightarrow> refuses (parsed_or_exit r)"
  "parse T s = Inl (JsonError e) \<Longrightarrow> refuses (ParsePayloadJson T s)"
  by (simp_all add: ValidateOrExit_def parsed_or_exit_def ParsePayloadJson_def)

lemma refuses_redis [simp]:
  assumes "ping u \<noteq> Inr ''PONG''" and "\<exists>s e. ping u = Inr s \<or> ping u = Inl (RedisError e)"
  shows "refuses (redis_or_exit ping u)"
  using assms
  by (auto simp: refuses_def redis_or_exit_def EnsureRedis_def RedisBroker_Ping_def then_io_def bind_io_def
      cerr_def throw_def ret_def lift_io_def)

text \<open>What the program rejects, command by command.\<close>

definition invalid_policy :: "text_ops \<Rightarrow> string \<Rightarrow> bool" where
  "invalid_policy T text \<longleftrightarrow>
     text \<noteq> '''' \<and>
     (case parse T text of
        Inr j \<Rightarrow> \<not> pr_Ok (RetryPolicyFromJson j)
      | Inl (JsonError _) \<Rightarrow> True
      | Inl _ \<Rightarrow> False)"

definition invalid_enqueue :: "text_ops \<Rightarrow> 's cli_world \<Rightarrow> cli_options \<Rightarrow> bool" where
  "invalid_enqueue T w opt \<longleftrightarrow>
     opt_delay_ms opt < 0 \<or>
     (case parse T (payload_json opt) of
        Inl (JsonError _) \<Rightarrow> True
      | Inl _ \<Rightarrow> False
      | Inr payload \<Rightarrow> (\<exists>task. created_task w opt payload = Inr task) \<and> invalid_policy T (retry_policy_json opt))"

definition invalid_input :: "text_ops \<Rightarrow> 's cli_world \<Rightarrow> cli_command \<Rightarrow> cli_options \<Rightarrow> bool" where
  "invalid_input T w cmd opt \<longleftrightarrow>
     cmd \<notin> {CmdGroup, CmdNone} \<and>
     (redis_uri opt = '''' \<or> cw_ping w (redis_uri opt) \<noteq> Inr ''PONG'' \<or>
      cmd = CmdEnqueue \<and> invalid_enqueue T w opt \<or>
      cmd = CmdStatus \<and> \<not> IsValidUuidFormat (status_task_id opt) \<or>
      cmd = CmdResult \<and> \<not> IsValidUuidFormat (result_task_id opt) \<or>
      cmd = CmdFailedRetry \<and> \<not> IsValidUuidFormat (retry_task_id opt) \<or>
      cmd = CmdWorkerStart \<and> (opt_concurrency opt = 0 \<or> visibility_timeout_ms opt \<le> 0))"

lemma not_ok_simps:
  "pr_Ok (TaskId_Parse v) \<longleftrightarrow> IsValidUuidFormat v" "pr_Ok (ValidateRedisUri u) \<longleftrightarrow> u \<noteq> ''''"
  "pr_Ok (ValidateDelayMs d) \<longleftrightarrow> 0 \<le> d" "pr_Ok (ValidateWorkerConcurrency n) \<longleftrightarrow> n \<noteq> 0"
  "pr_Ok (ValidateVisibilityTimeout t) \<longleftrightarrow> 0 < t"
  using IsValidUuidFormat_nonempty
  by (auto simp: TaskId_Parse_def ValidateRedisUri_def ValidateDelayMs_def ValidateWorkerConcurrency_def
      ValidateVisibilityTimeout_def)

lemma refuses_guarded [simp]:
  "refuses (then_io (ValidateOrExit v) n) \<longleftrightarrow> \<not> pr_Ok v \<or> refuses n"
  "refuses (bind_io (parsed_or_exit r) f) \<longleftrightarrow> \<not> pr_Ok r \<or> refuses (f (pr_value r))"
  by (cases "pr_Ok v"; simp) (cases "pr_Ok r"; simp)

lemma refuses_after_redis:
  assumes "\<exists>s e. ping u = Inr s \<or> ping u = Inl (RedisError e)"
  shows "refuses (then_io (redis_or_exit ping u) n) \<longleftrightarrow> ping u \<noteq> Inr ''PONG'' \<or> refuses n"
  using assms by (cases "ping u = Inr ''PONG''") simp_all

lemmas callback_defs =
  enqueue_callback_def status_callback_def result_callback_def stats_callback_def worker_start_callback_def
  failed_list_callback_def failed_retry_callback_def workers_list_callback_def metrics_callback_def

lemma refuses_enqueue:
  fixes X :: "'s ext"
  assumes "invalid_enqueue (codec X) w opt" and "redis_uri opt \<noteq> ''''"
    and "cw_ping w (redis_uri opt) = Inr ''PONG''"
  shows "refuses (enqueue_callback X w opt)"
proof (cases "opt_delay_ms opt < 0")
  case True
  then show ?thesis using assms(2) by (simp add: enqueue_callback_def not_ok_simps)
next
  case False
  note start = enqueue_callback_def not_ok_simps assms(2,3)
  show ?thesis
  proof (cases "parse (codec X) (payload_json opt)")
    case (Inl e)
    then obtain what where "e = JsonError what" using assms(1) False by (cases e) (auto simp: invalid_enqueue_def)
    then show ?thesis using False Inl by (simp add: start)
  next
    case (Inr payload)
    then obtain task where task: "created_task w opt payload = Inr task"
      and pol: "invalid_policy (codec X) (retry_policy_json opt)"
      using assms(1) False by (auto simp: invalid_enqueue_def)
    have step: "(if opt_delay_ms opt > 0
        then lift_io (TaskMessage_CreateWithDelay (cw_create_bytes w) (cw_create_ms w) (task_name opt)
               payload (opt_delay_ms opt))
        else ret (TaskMessage_Create (cw_create_bytes w) (cw_create_ms w) (task_name opt) payload)) = ret task"
      using task by (auto simp: created_task_def ret_def lift_io_def)
    have "refuses (bind_io (ParsePayloadJson (codec X) (retry_policy_json opt)) (\<lambda>j.
        bind_io (parsed_or_exit (RetryPolicyFromJson j)) (\<lambda>policy. ret (task\<lparr>m_retry_policy := policy\<rparr>)))
      :: ('s process, TaskMessage) io)"
      using pol by (auto simp: invalid_policy_def split: sum.splits exn.splits)
    then show ?thesis using False Inr pol by (simp add: start step invalid_policy_def)
  qed
qed

lemma invalid_input_refused:
  assumes "invalid_input (codec X) w cmd opt"
    and "\<exists>s e. cw_ping w (redis_uri opt) = Inr s \<or> cw_ping w (redis_uri opt) = Inl (RedisError e)"
  shows "\<exists>message. message \<noteq> '''' \<and>
    cli_main X w help (Inr (cmd, opt)) p = (Inr 1, p\<lparr>p_err := p_err p @ message\<rparr>)"
proof -
  note rules = run_command_def invalid_input_def not_ok_simps refuses_after_redis [of "cw_ping w" "redis_uri opt", OF assms(2)]
  have "refuses (run_command X w help cmd opt)"
  proof (cases "redis_uri opt = '''' \<or> cw_ping w (redis_uri opt) \<noteq> Inr ''PONG''")
    case True
    then show ?thesis using assms(1) by (cases cmd) (auto simp: rules callback_defs)
  next
    case False
    then show ?thesis
      using assms(1) refuses_enqueue [of X w opt]
      by (cases cmd) (auto simp: rules callback_defs)
  qed
  then obtain message where "message \<noteq> ''''"
    "run_command X w help cmd opt p = (Inl (ProcessExit 1), p\<lparr>p_err := p_err p @ message\<rparr>)"
    unfolding refuses_def by blast
  then show ?thesis using cli_main_exit by blast
qed

text \<open>
  An output format the command does not have. The program looks at the format after it has created
  the broker and, but for \<open>status\<close>, after it has put its question: \<open>format_reached\<close> says that the
  question is answered.
\<close>

definition bad_format :: "cli_command \<Rightarrow> cli_options \<Rightarrow> bool" where
  "bad_format cmd opt \<longleftrightarrow>
     cmd = CmdStatus \<and> status_format opt \<notin> {''json'', ''text''} \<or>
     cmd = CmdResult \<and> result_format opt \<notin> {''json'', ''text''} \<or>
     cmd = CmdFailedList \<and> failed_list_format opt \<notin> {''json'', ''text''} \<or>
     cmd = CmdMetrics \<and> metrics_format opt \<notin> {''plain'', ''prometheus''}"

definition format_reached ::
    "'s ext \<Rightarrow> ('s \<Rightarrow> redis_db) \<Rightarrow> cli_command \<Rightarrow> cli_options \<Rightarrow> redis_db \<Rightarrow> redis_db \<Rightarrow> bool" where
  "format_reached X view cmd opt db db' \<longleftrightarrow>
     (case cmd of
        CmdResult \<Rightarrow>
          \<exists>r. yields X view (RedisBroker_GetTaskResult X (pr_value (TaskId_Parse (result_task_id opt)))) db (Inr r) db'
      | CmdFailedList \<Rightarrow> \<exists>tasks. yields X view (RedisBroker_ListDeadTasks X) db (Inr tasks) db'
      | CmdMetrics \<Rightarrow> \<exists>snapshot. yields X view (CollectMetrics (RedisBroker_methods X 0)) db (Inr snapshot) db'
      | _ \<Rightarrow> db' = db)"

text \<open>\<open>stops m\<close>: \<open>m\<close> ends the process with 1 and a message, without output.\<close>

definition stops ::
    "'s ext \<Rightarrow> ('s \<Rightarrow> redis_db) \<Rightarrow> ('s process, 'a) io \<Rightarrow> redis_db \<Rightarrow> redis_db \<Rightarrow> bool" where
  "stops X view m db db' \<longleftrightarrow> (\<exists>message. message \<noteq> '''' \<and> runs X view m db (Inl (ProcessExit 1)) '''' message db')"

lemma stops_exit: "stops X view (ExitWithError s) db db"
  unfolding stops_def by (rule exI [of _ "s @ nl"]) (simp add: runs_pure)

lemma runs_bind_fail:
  fixes X :: "'s ext"
  assumes "runs X view m db (Inl e) out err db'"
  shows "runs X view (bind_io m f) db (Inl e) out err db'"
  unfolding runs_def
proof (intro allI impI)
  fix p :: "'s process"
  assume "connected X view (p_conn p) db"
  from runsD [OF assms this] show "\<exists>c. connected X view c db' \<and>
      bind_io m f p = (Inl e, \<lparr>p_out = p_out p @ out, p_err = p_err p @ err, p_conn = c\<rparr>)"
    by (elim exE conjE) (simp add: bind_io_def)
qed

lemma stops_bind: "stops X view m db db' \<Longrightarrow> stops X view (bind_io m f) db db'"
  unfolding stops_def by (blast intro: runs_bind_fail)

lemma stops_parsed: "\<not> pr_Ok r \<Longrightarrow> stops X view (bind_io (parsed_or_exit r) f) db db"
  by (simp add: parsed_or_exit_def stops_bind stops_exit)

lemma stops_query:
  "yields X view m db (Inr a) db' \<Longrightarrow> stops X view (f a) db' db'' \<Longrightarrow> stops X view (bind_io (on_conn m) f) db db''"
  unfolding stops_def by (blast intro: runs_silent [OF runs_on_conn])

text \<open>Past its guards a command with such a format creates the broker and stops.\<close>

lemma bad_format_command:
  fixes X :: "'s ext" and w :: "'s cli_world"
  assumes "bad_format cmd opt" and "\<not> invalid_input (codec X) w cmd opt" and "format_reached X view cmd opt db db'"
  shows "\<exists>m. run_command X w help cmd opt = then_io (on_conn (RedisBroker_create X)) m \<and> stops X view m db db'"
proof -
  have ok: "redis_uri opt \<noteq> ''''" "cw_ping w (redis_uri opt) = Inr ''PONG''"
    using assms(1,2) by (auto simp: invalid_input_def bad_format_def)
  note start = run_command_def not_ok_simps ok
  consider (status) "cmd = CmdStatus" "status_format opt \<notin> {''json'', ''text''}"
    | (result) "cmd = CmdResult" "result_format opt \<notin> {''json'', ''text''}"
    | (failed) "cmd = CmdFailedList" "failed_list_format opt \<notin> {''json'', ''text''}"
    | (metrics) "cmd = CmdMetrics" "metrics_format opt \<notin> {''plain'', ''prometheus''}"
    using assms(1) by (auto simp: bad_format_def)
  then show ?thesis
  proof cases
    case status
    then show ?thesis
      using assms(2,3) stops_exit [of X view "''unsupported status format: '' @ status_format opt" db]
      by (intro exI [of _ "ExitWithError (''unsupported status format: '' @ status_format opt)"])
        (simp add: start status_callback_def invalid_input_def format_reached_def)
  next
    case result
    let ?q = "RedisBroker_GetTaskResult X (pr_value (TaskId_Parse (result_task_id opt)))"
    obtain r where r: "yields X view ?q db (Inr r) db'" using assms(3) result by (auto simp: format_reached_def)
    let ?m = "bind_io (on_conn ?q) (\<lambda>task_result. bind_io (parsed_or_exit task_result) (\<lambda>r.
        ExitWithError (''unsupported result format: '' @ result_format opt) :: ('s process, unit) io))"
    have "stops X view ?m db db'"
      by (rule stops_query [OF r], cases "pr_Ok r") (simp_all add: stops_parsed stops_exit)
    then show ?thesis
      using assms(2) result by (intro exI [of _ ?m]) (simp add: start result_callback_def invalid_input_def)
  next
    case failed
    then obtain ts where "yields X view (RedisBroker_ListDeadTasks X) db (Inr ts) db'"
      using assms(3) by (auto simp: format_reached_def)
    from stops_query [OF this stops_exit] show ?thesis
      using failed by (intro exI conjI) (simp_all add: start failed_list_callback_def)
  next
    case metrics
    then obtain snapshot where "yields X view (CollectMetrics (RedisBroker_methods X 0)) db (Inr snapshot) db'"
      using assms(3) by (auto simp: format_reached_def)
    from stops_query [OF this stops_exit] show ?thesis
      using metrics by (intro exI conjI) (simp_all add: start metrics_callback_def)
  qed
qed

lemma bad_format_stops:
  assumes "external X view" and "connected X view (p_conn p) db" and "bad_format cmd opt"
    and "\<not> invalid_input (codec X) w cmd opt" and "format_reached X view cmd opt db db'"
  shows "\<exists>message c. message \<noteq> '''' \<and> connected X view c db' \<and>
    cli_main X w help (Inr (cmd, opt)) p = (Inr 1, p\<lparr>p_err := p_err p @ message, p_conn := c\<rparr>)"
proof -
  have net: "net (p_conn p) = []" "view (srv (p_conn p)) = db" using assms(2) by (simp_all add: connected_def)
  obtain m message where m: "run_command X w help cmd opt = then_io (on_conn (RedisBroker_create X)) m"
    "message \<noteq> ''''" "runs X view m db (Inl (ProcessExit 1)) '''' message db'"
    using bad_format_command [OF assms(3-5), of "help"] unfolding stops_def by blast
  obtain c where "connected X view c db'" "run_command X w help cmd opt p =
      (Inl (ProcessExit 1), p\<lparr>p_err := p_err p @ message, p_conn := c\<rparr>)"
    using after_create [OF assms(1) net m(3)] m(1) by auto
  then show ?thesis using cli_main_exit m(2) by blast
qed

text \<open>
  C23: invalid input is refused. When the option parser reports an error, \<open>main\<close> returns the exit code it
  gives and does nothing else. An empty server address, a server that answers \<open>EnsureRedis\<close> with
  anything but \<open>PONG\<close> or with a Redis error, a negative delay, a payload that is not JSON, an invalid retry
  policy, an identifier that is no UUID, no worker threads or a visibility timeout that is not positive
  ends the program with exit code 1 and a message on the error stream; nothing is printed, and
  after the \<open>PING\<close> of \<open>EnsureRedis\<close> no request is sent. An output format the command does not have ends
  the program in the same way, but only after the broker was created and the question of the command,
  if it has one, was answered.
\<close>

theorem invalid_input_exits:
  "cli_main X w help (Inl code) p = (Inr code, p) \<and>
   (invalid_input (codec X) w cmd opt \<and>
      (\<exists>s e. cw_ping w (redis_uri opt) = Inr s \<or> cw_ping w (redis_uri opt) = Inl (RedisError e)) \<longrightarrow>
    (\<exists>message. message \<noteq> '''' \<and>
       cli_main X w help (Inr (cmd, opt)) p = (Inr 1, p\<lparr>p_err := p_err p @ message\<rparr>))) \<and>
   (bad_format cmd opt \<and> \<not> invalid_input (codec X) w cmd opt \<and> external X view \<and>
      connected X view (p_conn p) db \<and> format_reached X view cmd opt db db' \<longrightarrow>
    (\<exists>message c. message \<noteq> '''' \<and> connected X view c db' \<and>
       cli_main X w help (Inr (cmd, opt)) p = (Inr 1, p\<lparr>p_err := p_err p @ message, p_conn := c\<rparr>)))"
proof (intro conjI impI)
  show "cli_main X w help (Inl code) p = (Inr code, p)" by (simp add: cli_main_def ret_def)
qed (elim conjE; rule invalid_input_refused bad_format_stops; assumption)+

theorem invalid_input_exits_witness:
  "(\<exists>message. message \<noteq> '''' \<and>
     cli_main ref_ext sample_world '''' (Inr (CmdEnqueue, sample_options\<lparr>opt_delay_ms := - 5\<rparr>)) sample_process =
       (Inr 1, sample_process\<lparr>p_err := message\<rparr>)) \<and>
   (\<exists>message c. message \<noteq> '''' \<and>
     cli_main ref_ext sample_world '''' (Inr (CmdStatus, sample_options\<lparr>status_task_id :=
         ''00000000-0000-4000-8000-000000000000'', status_format := ''xml''\<rparr>)) sample_process =
       (Inr 1, sample_process\<lparr>p_err := message, p_conn := c\<rparr>))"
proof
  have "invalid_input (codec ref_ext) sample_world CmdEnqueue (sample_options\<lparr>opt_delay_ms := - 5\<rparr>)"
    by (simp add: invalid_input_def invalid_enqueue_def)
  then show "\<exists>message. message \<noteq> '''' \<and>
     cli_main ref_ext sample_world '''' (Inr (CmdEnqueue, sample_options\<lparr>opt_delay_ms := - 5\<rparr>)) sample_process =
       (Inr 1, sample_process\<lparr>p_err := message\<rparr>)"
    using invalid_input_exits [THEN conjunct2, THEN conjunct1, rule_format, of ref_ext sample_world CmdEnqueue
        "sample_options\<lparr>opt_delay_ms := - 5\<rparr>" "''''" sample_process]
    by (simp add: sample_world_def)
next
  let ?opt = "sample_options\<lparr>status_task_id := ''00000000-0000-4000-8000-000000000000'', status_format := ''xml''\<rparr>"
  have "IsValidUuidFormat ''00000000-0000-4000-8000-000000000000''" by code_simp
  then have "\<not> invalid_input (codec ref_ext) sample_world CmdStatus ?opt"
    by (simp add: invalid_input_def sample_options_def default_options_def DefaultRedisUriFromEnv_def sample_world_def)
  moreover have "connected ref_ext fst (p_conn sample_process) empty_db" by (simp add: sample_process_def)
  moreover have "bad_format CmdStatus ?opt" "format_reached ref_ext fst CmdStatus ?opt empty_db empty_db"
    by (simp_all add: bad_format_def format_reached_def)
  ultimately show "\<exists>message c. message \<noteq> '''' \<and>
     cli_main ref_ext sample_world '''' (Inr (CmdStatus, ?opt)) sample_process =
       (Inr 1, sample_process\<lparr>p_err := message, p_conn := c\<rparr>)"
    using invalid_input_exits [THEN conjunct2, THEN conjunct2, rule_format, of CmdStatus ?opt ref_ext sample_world
        fst sample_process empty_db empty_db "''''"] refx.external_axioms
    by blast
qed

section \<open>The add task and its result\<close>

text \<open>
  The \<open>add\<close> handler. Two operands in the range of \<open>int\<close> whose sum is in range give a successful
  result with the sum; a first operand that is missing or neither a number nor a boolean gives a
  failed result with the text of the library's exception, which the registry catches. A sum out
  of range has no defined value. The state of the application is not touched.
\<close>

theorem add_task:
  assumes "handlers r ''add'' = Some (MakeAddHandler what (Inr undef))"
  shows "(json_find payload ''a'' = Some (JInt a) \<and> json_find payload ''b'' = Some (JInt b) \<and> in_i32 a \<and> in_i32 b \<longrightarrow>
      TaskRegistry_Execute r ''add'' payload s =
        (if in_i32 (a + b) then TaskResult_Success (json_object [(''result'', JInt (a + b))]) else undef, s)) \<and>
    (json_find payload ''a'' \<in> {None, Some JNull, Some (JString v), Some (JArray xs), Some (JObject kvs)} \<longrightarrow>
      (\<exists>e. TaskRegistry_Execute r ''add'' payload s = (TaskResult_Failure (what e), s)))"
  using assms
  by (auto simp: TaskRegistry_Execute_def MakeAddHandler_def add_result_def at_exn_def add_i32_def bind_sum_def)

theorem add_task_witness:
  "TaskRegistry_Execute (TaskRegistry_RegisterTask ''add'' (MakeAddHandler (\<lambda>_. ''bad'') (Inr TaskResult_default))
     TaskRegistry_empty) ''add'' (json_object [(''a'', JInt 2), (''b'', JInt 3)]) () =
   (TaskResult_Success (json_object [(''result'', JInt 5)]), ())"
proof -
  let ?r = "TaskRegistry_RegisterTask ''add'' (MakeAddHandler (\<lambda>_. ''bad'') (Inr TaskResult_default)) TaskRegistry_empty"
  let ?payload = "json_object [(''a'', JInt 2), (''b'', JInt 3)]"
  have "handlers ?r ''add'' = Some (MakeAddHandler (\<lambda>_. ''bad'') (Inr TaskResult_default))"
    by (simp add: TaskRegistry_RegisterTask_def)
  from add_task [OF this, of ?payload 2 3 "()"] show ?thesis by (simp add: in_i32_def)
qed

context external
begin

lemma runs_GetTaskResult:
  assumes "map_of (hash_at db redis_kResults) (TaskId_Value i) = Some u"
    and "dump T (TaskResult_ToJson (TaskResult_Success empty_object)) = Inr u"
  shows "runs X view (on_conn (RedisBroker_GetTaskResult X i)) db (Inr (PR_Ok (TaskResult_Success empty_object))) '''' '''' db"
proof -
  have "parse T u = Inr (TaskResult_ToJson (TaskResult_Success empty_object))"
    by (rule parse_dump [OF assms(2) success_json_wf])
  from runs_on_conn [OF yields_GetTaskResult [OF assms(1) this]] show ?thesis
    by (simp add: TaskResultFromJson_ToJson)
qed

lemma result_command:
  assumes "connected X view (p_conn p) db" and "map_of (hash_at db redis_kResults) (TaskId_Value i) = Some u"
    and "dump T (TaskResult_ToJson (TaskResult_Success empty_object)) = Inr u" and "dump T empty_object = Inr t"
    and "redis_uri opt \<noteq> ''''" and "cw_ping w (redis_uri opt) = Inr ''PONG''"
    and "TaskId_Parse (result_task_id opt) = PR_Ok i" and "result_format opt = ''text''"
  shows "\<exists>c. run_command X w help CmdResult opt p =
    (Inr (), \<lparr>p_out = p_out p @ t @ nl, p_err = p_err p, p_conn = c\<rparr>)"
proof -
  note get = runs_GetTaskResult [OF assms(2,3)]
  have print: "runs X view (PrintTaskResult X i) db (Inr ()) (t @ nl) '''' db"
    unfolding PrintTaskResult_def
    by (rule runs_silent [OF get]) (simp add: assms(4) TaskResult_Success_def TaskResult_default_def runs_pure)
  have "runs X view (bind_io (on_conn (RedisBroker_GetTaskResult X i)) (\<lambda>task_result.
      bind_io (parsed_or_exit task_result) (\<lambda>r.
        if result_format opt = ''json''
        then bind_io (lift_io (dump T (TaskResult_ToJson r))) (\<lambda>t. cout (t @ nl))
        else if result_format opt \<noteq> ''text''
        then ExitWithError (''unsupported result format: '' @ result_format opt)
        else PrintTaskResult X i))) db (Inr ()) (t @ nl) '''' db"
    by (rule runs_silent [OF get]) (simp add: assms(8) print)
  moreover have "net (p_conn p) = []" "view (srv (p_conn p)) = db" using assms(1) by (simp_all add: connected_def)
  ultimately show ?thesis
    using after_create [OF external_axioms] assms(5-7)
    by (fastforce simp: run_command_def result_callback_def ValidateRedisUri_def)
qed

end

text \<open>
  C33: what \<open>taskq result\<close> shows. After a worker has run a task whose handler succeeded, with
  whatever payload, the command prints the empty object and exits with 0: the payload the
  handler returned is not stored. For the \<open>add\<close> task the sum is lost.
\<close>

theorem result_payload_not_shown:
  assumes "external X view" and "connected X view (sys_broker s) db" and "wf_db (codec X) db"
    and "metrics_ok db" and "storable task"
    and "map_of (hash_at db redis_kRunning) (TaskId_Value (m_id task)) = Some text"
    and "TaskRegistry_HasTask (w_registry (sys_worker s)) (m_name task)"
    and "TaskRegistry_Execute (w_registry (sys_worker s)) (m_name task) (m_payload task) (sys_app s) = (result, a)"
    and "tr_success result" and "can_settle (codec X) now_ms task result" and "in_i64 (elapsed_ms t0 t1)"
    and "dump (codec X) empty_object = Inr t" and "redis_uri opt \<noteq> ''''"
    and "cw_ping w (redis_uri opt) = Inr ''PONG''" and "TaskId_Parse (result_task_id opt) = PR_Ok (m_id task)"
    and "result_format opt = ''text''"
  shows "\<exists>s' c. Worker_ProcessTask (RedisBroker_methods X fuel) t0 t1 now_ms task s = (Inr (), s') \<and>
    cli_main X w help (Inr (CmdResult, opt)) \<lparr>p_out = '''', p_err = '''', p_conn = sys_broker s'\<rparr> =
      (Inr 0, \<lparr>p_out = t @ nl, p_err = '''', p_conn = c\<rparr>)"
proof -
  obtain s' db' where s': "Worker_ProcessTask (RedisBroker_methods X fuel) t0 t1 now_ms task s = (Inr (), s')"
    "connected X view (sys_broker s') db'" "task_outcome (codec X) db db' now_ms task text result"
    using external.ProcessTask_outcome [OF assms(1-8,10,11)] by blast
  then obtain u where u: "dump (codec X) (TaskResult_ToJson (TaskResult_Success empty_object)) = Inr u"
    "map_of (hash_at db' redis_kResults) (TaskId_Value (m_id task)) = Some u"
    using assms(9) by (auto simp: task_outcome_def acked_def)
  from external.result_command [OF assms(1) _ u(2,1) assms(12-16), of "\<lparr>p_out = '''', p_err = '''', p_conn = sys_broker s'\<rparr>" "help"]
  obtain c where "run_command X w help CmdResult opt \<lparr>p_out = '''', p_err = '''', p_conn = sys_broker s'\<rparr> =
      (Inr (), \<lparr>p_out = t @ nl, p_err = '''', p_conn = c\<rparr>)" using s'(2) by auto
  from cli_main_ok [OF this] s'(1) show ?thesis by blast
qed

definition adding_worker :: "unit Worker" where
  "adding_worker =
     \<lparr>w_registry = TaskRegistry_RegisterTask ''add'' (MakeAddHandler (\<lambda>_. ''bad'') (Inr TaskResult_default)) TaskRegistry_empty,
      w_thread_pool = ThreadPool_create 1, w_running = False, w_worker_id = ''w'', w_hostname = ''h'',
      w_pid = 1, w_started_at_ms = 0, w_poll_interval = 100, w_visibility_timeout = 30000,
      w_heartbeat_interval = 5000, w_heartbeat_ttl_seconds = 15, w_last_heartbeat_at = 0\<rparr>"

theorem result_payload_not_shown_witness:
  "\<exists>db s' c. fst (TaskRegistry_Execute (w_registry adding_worker) (m_name sample_message) (m_payload sample_message) ()) =
       TaskResult_Success (json_object [(''result'', JInt 5)]) \<and>
     Worker_ProcessTask (RedisBroker_methods ref_ext 2) 0 0 1000 sample_message
       \<lparr>sys_worker = adding_worker, sys_app = (), sys_broker = ref_conn db\<rparr> = (Inr (), s') \<and>
     cli_main ref_ext sample_world '''' (Inr (CmdResult, sample_options\<lparr>result_task_id := TaskId_Value (m_id sample_message)\<rparr>))
       \<lparr>p_out = '''', p_err = '''', p_conn = sys_broker s'\<rparr> = (Inr 0, \<lparr>p_out = ''{}'' @ nl, p_err = '''', p_conn = c\<rparr>)"
proof -
  let ?result = "TaskResult_Success (json_object [(''result'', JInt 5)])"
  obtain db t where db: "wf_db (codec ref_ext) db" "metrics_ok db"
    "map_of (hash_at db redis_kRunning) (TaskId_Value (m_id sample_message)) = Some t"
    using running_sample_db by blast
  let ?s = "\<lparr>sys_worker = adding_worker, sys_app = (), sys_broker = ref_conn db\<rparr> :: (unit, mem_server conn) system"
  let ?opt = "sample_options\<lparr>result_task_id := TaskId_Value (m_id sample_message)\<rparr>"
  have m: "m_name sample_message = ''add''" "m_payload sample_message = JObject [(''a'', JInt 2), (''b'', JInt 3)]"
    by (simp_all add: sample_message_def TaskMessage_Create_def)
  have ex: "TaskRegistry_Execute (w_registry (sys_worker ?s)) (m_name sample_message) (m_payload sample_message)
      (sys_app ?s) = (?result, ())"
    by (simp add: m adding_worker_def Execute_registered MakeAddHandler_def add_result_def at_exn_def json_find_def
        add_i32_def to_i32_def in_i32_def)
  have has: "TaskRegistry_HasTask (w_registry (sys_worker ?s)) (m_name sample_message)"
    by (simp add: m adding_worker_def)
  have ok: "can_settle (codec ref_ext) 1000 sample_message ?result"
    by (simp add: can_settle_def TaskResult_Success_def)
  have opt: "redis_uri ?opt \<noteq> ''''" "cw_ping sample_world (redis_uri ?opt) = Inr ''PONG''" "result_format ?opt = ''text''"
    by (simp_all add: sample_options_def default_options_def DefaultRedisUriFromEnv_def sample_world_def)
  have "IsValidUuidFormat (TaskId_Value (m_id sample_message))" using wire_message_sample by (simp add: wire_message_def)
  then have i: "TaskId_Parse (result_task_id ?opt) = PR_Ok (m_id sample_message)"
    by (cases "m_id sample_message") simp
  have dumped: "dump (codec ref_ext) empty_object = Inr ''{}''" by simp
  have succ: "tr_success ?result" by (simp add: TaskResult_Success_def)
  from result_payload_not_shown [OF refx.external_axioms _ db(1,2) storable_sample db(3) has ex succ ok _ dumped opt(1,2) i opt(3),
      of 0 0 2 "''''"] ex
  show ?thesis by (fastforce simp: elapsed_ms_def in_i64_def)
qed

section \<open>Listing the workers\<close>

abbreviation worker_order :: "WorkerHeartbeat \<Rightarrow> string \<times> string" where
  "worker_order h \<equiv> (hostname h, worker_id h)"

definition workers_header :: string where
  "workers_header = ''worker_id'' @ tab @ ''hostname'' @ tab @ ''pid'' @ tab @ ''concurrency'' @ tab @ ''running'' @
     tab @ ''started_at'' @ tab @ ''last_seen'' @ nl"

lemma runs_PrintWorkers:
  assumes "hs \<noteq> []"
  shows "runs X view (PrintWorkers hs) db (Inr ())
    (workers_header @ concat (map worker_row (sort_key worker_order hs))) '''' db"
proof -
  have eq: "PrintWorkers hs = then_io (cout workers_header) (cout (concat (map worker_row (sort_key worker_order hs))))"
    using assms by (simp add: PrintWorkers_def workers_header_def)
  show ?thesis unfolding eq by (rule runs_cout [OF runs_pure(3)])
qed

text \<open>
  \<open>taskq workers list\<close>. After a worker has published its heartbeat, the command prints a table
  that has exactly one kind of row for it, with the fields of this heartbeat, next to the rows
  of the other workers, ordered by host name and then by identifier, and exits with 0.
\<close>

theorem workers_list_shows_heartbeat:
  assumes "external X view" and "connected X view c db" and "roster db" and "in_range_heartbeat h"
    and "redis_uri opt \<noteq> ''''" and "cw_ping w (redis_uri opt) = Inr ''PONG''"
  shows "\<exists>c' hs p'. RedisBroker_UpsertWorkerHeartbeat X h ttl c = (Inr (), c') \<and>
    cli_main X w help (Inr (CmdWorkersList, opt)) \<lparr>p_out = '''', p_err = '''', p_conn = c'\<rparr> = (Inr 0, p') \<and>
    p_out p' = workers_header @ concat (map worker_row hs) \<and> sorted (map worker_order hs) \<and>
    set hs = insert h {h' \<in> workers_in db. worker_id h' \<noteq> worker_id h}"
proof -
  obtain db' where db': "yields X view (RedisBroker_UpsertWorkerHeartbeat X h ttl) db (Inr ()) db'" "published h db db'"
    using external.yields_heartbeat [OF assms(1)] by blast
  obtain c' where c': "RedisBroker_UpsertWorkerHeartbeat X h ttl c = (Inr (), c')" "connected X view c' db'"
    using yieldsD [OF db'(1) assms(2)] by blast
  note p = published_roster [OF db'(2) assms(4,3)]
  obtain hs where hs: "listed db' (worker_keys db') = Inr hs"
    "set hs = {h \<in> workers_in db'. WorkerKey (worker_id h) \<in> set (worker_keys db')}"
    using listed_roster [of db' "worker_keys db'"] p by blast
  have set: "set hs = insert h {h' \<in> workers_in db. worker_id h' \<noteq> worker_id h}"
    using hs(2) p by (auto simp: workers_in_def worker_keys_iff)
  then have "hs \<noteq> []" by auto
  have "runs X view (bind_io (on_conn (RedisBroker_ListWorkers X)) PrintWorkers) db' (Inr ())
      (workers_header @ concat (map worker_row (sort_key worker_order hs))) '''' db'"
    by (rule runs_silent [OF runs_on_conn [OF external.yields_ListWorkers [OF assms(1), of db', unfolded hs(1)]]])
      (rule runs_PrintWorkers [OF \<open>hs \<noteq> []\<close>])
  from after_create [OF assms(1) _ _ this, of "\<lparr>p_out = '''', p_err = '''', p_conn = c'\<rparr>"] c'(2)
  obtain c'' where "run_command X w help CmdWorkersList opt \<lparr>p_out = '''', p_err = '''', p_conn = c'\<rparr> =
      (Inr (), \<lparr>p_out = workers_header @ concat (map worker_row (sort_key worker_order hs)), p_err = '''', p_conn = c''\<rparr>)"
    using assms(5,6) by (auto simp: run_command_def workers_list_callback_def ValidateRedisUri_def connected_def)
  from cli_main_ok [OF this] c'(1) set show ?thesis
    by (intro exI [of _ c'] exI [of _ "sort_key worker_order hs"]
        exI [of _ "\<lparr>p_out = workers_header @ concat (map worker_row (sort_key worker_order hs)), p_err = '''', p_conn = c''\<rparr>"])
      simp
qed

theorem workers_list_shows_heartbeat_witness:
  "\<exists>c' p'. RedisBroker_UpsertWorkerHeartbeat ref_ext sample_heartbeat 15 (ref_conn empty_db) = (Inr (), c') \<and>
     cli_main ref_ext sample_world '''' (Inr (CmdWorkersList, sample_options)) \<lparr>p_out = '''', p_err = '''', p_conn = c'\<rparr> =
       (Inr 0, p')"
proof -
  have "roster empty_db" "in_range_heartbeat sample_heartbeat"
    by (simp_all add: roster_def in_range_heartbeat_def sample_heartbeat_def in_i64_def)
  then show ?thesis
    using workers_list_shows_heartbeat [OF refx.external_axioms ref_conn_connected, of empty_db sample_heartbeat
        sample_options sample_world 15 "''''"]
    by (fastforce simp: sample_options_def default_options_def DefaultRedisUriFromEnv_def sample_world_def)
qed

section \<open>Starting a worker\<close>

text \<open>
  The preparations of \<open>taskq worker start\<close>. With valid options and a server that answers, the worker that is
  about to run has a fresh pool with the requested number of threads, all intervals positive,
  the requested visibility timeout and a handler for \<open>add\<close>, over a connection that has loaded
  every script; so what is shown of \<open>Run\<close> from a fresh worker applies to it.
\<close>

theorem worker_start_ready:
  assumes "external X view" and "net (p_conn p) = []" and "redis_uri opt \<noteq> ''''"
    and "cw_ping w (redis_uri opt) = Inr ''PONG''" and "0 < opt_concurrency opt" and "0 < visibility_timeout_ms opt"
  shows "\<exists>worker c. worker_start_callback X w opt p = (Inr worker, p\<lparr>p_conn := c\<rparr>) \<and>
    connected X view c (view (srv (p_conn p))) \<and>
    fresh_run (opt_concurrency opt)
      \<lparr>run_sys = \<lparr>sys_worker = worker, sys_app = app, sys_broker = c\<rparr>, run_pc = AtBegin\<rparr> \<and>
    w_visibility_timeout worker = visibility_timeout_ms opt \<and> 0 < w_poll_interval worker \<and>
    0 < w_heartbeat_interval worker \<and> \<not> Worker_IsRunning worker \<and> Worker_CanAcceptTask worker \<and>
    TaskRegistry_HasTask (w_registry worker) ''add''"
proof -
  let ?db = "view (srv (p_conn p))"
  obtain worker :: "'b Worker" where create: "Worker_create (cw_create_bytes w) (cw_host w) (cw_pid w) (opt_concurrency opt) =
      Inr worker" "w_thread_pool worker = ThreadPool_create (opt_concurrency opt)" "0 < w_poll_interval worker"
      "0 < w_heartbeat_interval worker" "\<not> w_running worker"
    using assms(5)
    by (auto simp: Worker_create_def ThrowIfInvalid_def ValidateWorkerConcurrency_def ValidatePollInterval_def
        ValidateVisibilityTimeout_def kDefaultVisibilityTimeoutMs_def kDefaultWorkerHeartbeatIntervalMs_def)
  let ?worker = "Worker_RegisterTask ''add'' (MakeAddHandler (cw_what w) (cw_undef w))
      (worker\<lparr>w_visibility_timeout := visibility_timeout_ms opt\<rparr>)"
  have "runs X view (bind_io (lift_io (Worker_create (cw_create_bytes w) (cw_host w) (cw_pid w) (opt_concurrency opt)))
      (\<lambda>worker. bind_io (lift_io (Worker_SetVisibilityTimeout (visibility_timeout_ms opt) worker)) (\<lambda>worker.
         ret (Worker_RegisterTask ''add'' (MakeAddHandler (cw_what w) (cw_undef w)) worker)))) ?db (Inr ?worker) '''' '''' ?db"
    using assms(6) create(1)
    by (simp add: Worker_SetVisibilityTimeout_def ThrowIfInvalid_def ValidateVisibilityTimeout_def runs_pure)
  from after_create [OF assms(1,2) refl this] obtain c where
    "connected X view c ?db" "worker_start_callback X w opt p = (Inr ?worker, p\<lparr>p_conn := c\<rparr>)"
    using assms(3-6) by (auto simp: worker_start_callback_def not_ok_simps)
  then show ?thesis
    using create assms(5)
    by (intro exI [of _ ?worker] exI [of _ c])
      (auto simp: Worker_RegisterTask_def fresh_run_def pool_of_def Worker_IsRunning_def Worker_CanAcceptTask_def
        InFlightCount_def ThreadPool_create_def)
qed

theorem worker_start_ready_witness:
  "\<exists>(worker :: unit Worker) c. worker_start_callback ref_ext sample_world sample_options sample_process =
       (Inr worker, sample_process\<lparr>p_conn := c\<rparr>) \<and> Worker_CanAcceptTask worker \<and>
     TaskRegistry_HasTask (w_registry worker) ''add''"
  using worker_start_ready [OF refx.external_axioms, of sample_process sample_options sample_world]
  by (fastforce simp: sample_options_def default_options_def DefaultRedisUriFromEnv_def sample_world_def
      kDefaultVisibilityTimeoutMs_def)

section \<open>Retrying dead tasks\<close>

definition retry_report :: "'s ext \<Rightarrow> TaskId ParseResult \<Rightarrow> ('s process, unit) io" where
  "retry_report X requeued = bind_io (parsed_or_exit requeued) (\<lambda>rid.
     bind_io (on_conn (RedisBroker_GetStatus X rid)) (\<lambda>status.
       if pr_Ok status
       then cout (''requeued task '' @ TaskId_Value rid @ '' status='' @ TaskStatusToString (pr_value status) @ nl)
       else ret ()))"

lemma failed_retry_run:
  assumes "redis_uri opt \<noteq> ''''" and "cw_ping w (redis_uri opt) = Inr ''PONG''"
    and "TaskId_Parse (retry_task_id opt) = PR_Ok i"
  shows "run_command X w help CmdFailedRetry opt =
    then_io (on_conn (RedisBroker_create X)) (bind_io (on_conn (RedisBroker_RetryDeadTask X i)) (retry_report X))"
  using assms by (simp add: run_command_def failed_retry_callback_def ValidateRedisUri_def retry_report_def [abs_def])

lemma exit_bind: "bind_io (ExitWithError s) f = ExitWithError s"
  by (simp add: ExitWithError_def then_io_def bind_io_def throw_def cerr_def fun_eq_iff)

context external
begin

lemma runs_retry_none:
  assumes "wf_db T db" and "find (\<lambda>t. text_id T t = TaskId_Value i) (list_at db redis_kDead) = None"
  shows "runs X view (bind_io (on_conn (RedisBroker_RetryDeadTask X i)) (retry_report X)) db
    (Inl (ProcessExit 1)) '''' ((''dead task not found: '' @ TaskId_Value i) @ nl) db"
proof -
  have sound: "\<forall>t \<in> set (list_at db redis_kDead). sound_text T t" using assms(1) by (simp add: wf_db_def)
  have "exec T (RunRetryDeadTask (TaskId_Value i)) db = db" using assms(2) by (simp add: retry_dead_db [OF sound])
  moreover have "TaskId_Value i \<notin> text_id T ` set (list_at db redis_kDead)" using assms(2) by (auto simp: find_None_iff)
  ultimately have "runs X view (on_conn (RedisBroker_RetryDeadTask X i)) db
      (Inr (PR_Fail (TaskId '''') (''dead task not found: '' @ TaskId_Value i))) '''' '''' db"
    using runs_on_conn [OF yields_RetryDeadTask [OF assms(1), of i]] by simp
  moreover have "retry_report X (PR_Fail (TaskId '''') e) = ExitWithError e" if "e \<noteq> ''''" for e
    using that by (simp add: retry_report_def parsed_or_exit_def exit_bind)
  ultimately show ?thesis
    using runs_silent [where f = "retry_report X"] runs_pure(5) by (metis append_is_Nil_conv list.distinct(1))
qed

lemma runs_retry_some:
  assumes "wf_db T db" and "find (\<lambda>t. text_id T t = TaskId_Value i) (list_at db redis_kDead) = Some t"
  shows "\<exists>db'. runs X view (bind_io (on_conn (RedisBroker_RetryDeadTask X i)) (retry_report X)) db
      (Inr ()) (''requeued task '' @ TaskId_Value i @ '' status=pending'' @ nl) '''' db' \<and>
    list_at db' redis_kDead = remove1 t (list_at db redis_kDead) \<and>
    list_at db' redis_kPending = recode T revived_table t # list_at db redis_kPending"
proof -
  let ?db = "exec T (RunRetryDeadTask (TaskId_Value i)) db"
  have sound: "\<forall>t \<in> set (list_at db redis_kDead). sound_text T t" using assms(1) by (simp add: wf_db_def)
  have db: "map_of (hash_at ?db redis_kStatus) (TaskId_Value i) = Some ''pending''"
    "list_at ?db redis_kDead = remove1 t (list_at db redis_kDead)"
    "list_at ?db redis_kPending = recode T revived_table t # list_at db redis_kPending"
    using assms(2) by (simp_all add: retry_dead_db [OF sound] key_simps)
  have "TaskId_Value i \<in> text_id T ` set (list_at db redis_kDead)"
    using assms(2) by (auto simp: find_Some_iff image_iff) (metis nth_mem)
  then have retry: "runs X view (on_conn (RedisBroker_RetryDeadTask X i)) db (Inr (PR_Ok i)) '''' '''' ?db"
    using runs_on_conn [OF yields_RetryDeadTask [OF assms(1), of i]] by (simp del: exec.simps)
  have status: "runs X view (on_conn (RedisBroker_GetStatus X i)) ?db (Inr (PR_Ok kPending)) '''' '''' ?db"
    using runs_on_conn [OF yields_GetStatus, of i ?db] db(1) by (simp add: TaskStatusFromString_def del: exec.simps)
  have "runs X view (retry_report X (PR_Ok i)) ?db (Inr ())
      (''requeued task '' @ TaskId_Value i @ '' status=pending'' @ nl) '''' ?db"
  proof -
    define report where "report status = (if pr_Ok status then cout (''requeued task '' @ TaskId_Value i @
        '' status='' @ TaskStatusToString (pr_value status) @ nl) else (ret () :: ('s process, unit) io))" for status
    have "report (PR_Ok kPending) = cout (''requeued task '' @ TaskId_Value i @ '' status=pending'' @ nl)"
      by (simp add: report_def)
    moreover have "retry_report X (PR_Ok i) = bind_io (on_conn (RedisBroker_GetStatus X i)) report"
      by (simp add: retry_report_def report_def [abs_def])
    ultimately show ?thesis using runs_silent [OF status, where f = report] runs_pure(3) by metis
  qed
  from runs_silent [where f = "retry_report X", OF retry this] show ?thesis using db(2,3) by blast
qed

end

text \<open>
  C24: \<open>taskq failed retry\<close>. A task in the dead-letter list moves to the head of the pending list with
  its retry count and error reset, the command prints that it is \<open>pending\<close> and exits with 0. An
  identifier that is not in the list changes nothing, and the command ends with 1 and says so.
\<close>

theorem failed_retry_command:
  assumes "external X view" and "connected X view (p_conn p) db" and "wf_db (codec X) db"
    and "redis_uri opt \<noteq> ''''" and "cw_ping w (redis_uri opt) = Inr ''PONG''"
    and "TaskId_Parse (retry_task_id opt) = PR_Ok i"
  shows "\<exists>p' db'. connected X view (p_conn p') db' \<and>
    (case find (\<lambda>t. text_id (codec X) t = TaskId_Value i) (list_at db redis_kDead) of
       Some t \<Rightarrow>
         cli_main X w help (Inr (CmdFailedRetry, opt)) p = (Inr 0, p') \<and>
         p_out p' = p_out p @ ''requeued task '' @ TaskId_Value i @ '' status=pending'' @ nl \<and>
         list_at db' redis_kDead = remove1 t (list_at db redis_kDead) \<and>
         list_at db' redis_kPending = recode (codec X) revived_table t # list_at db redis_kPending
     | None \<Rightarrow>
         cli_main X w help (Inr (CmdFailedRetry, opt)) p = (Inr 1, p') \<and> db' = db \<and> p_out p' = p_out p \<and>
         p_err p' = p_err p @ ''dead task not found: '' @ TaskId_Value i @ nl)"
proof -
  have net: "net (p_conn p) = []" "view (srv (p_conn p)) = db" using assms(2) by (simp_all add: connected_def)
  note run = failed_retry_run [OF assms(4-6)] and after = after_create [OF assms(1) net]
  show ?thesis
  proof (cases "find (\<lambda>t. text_id (codec X) t = TaskId_Value i) (list_at db redis_kDead)")
    case None
    from after [OF external.runs_retry_none [OF assms(1,3) None]] obtain c where c: "connected X view c db"
      "run_command X w help CmdFailedRetry opt p = (Inl (ProcessExit 1), \<lparr>p_out = p_out p,
        p_err = p_err p @ ''dead task not found: '' @ TaskId_Value i @ nl, p_conn = c\<rparr>)"
      unfolding run by auto
    from cli_main_exit [OF c(2)] c(1) None show ?thesis
      by (intro exI [of _ "\<lparr>p_out = p_out p, p_err = p_err p @ ''dead task not found: '' @ TaskId_Value i @ nl, p_conn = c\<rparr>"]
          exI [of _ db]) simp
  next
    case (Some t)
    obtain db' where db': "runs X view (bind_io (on_conn (RedisBroker_RetryDeadTask X i)) (retry_report X)) db
        (Inr ()) (''requeued task '' @ TaskId_Value i @ '' status=pending'' @ nl) '''' db'"
      "list_at db' redis_kDead = remove1 t (list_at db redis_kDead)"
      "list_at db' redis_kPending = recode (codec X) revived_table t # list_at db redis_kPending"
      using external.runs_retry_some [OF assms(1,3) Some] by blast
    from after [OF db'(1)] obtain c where c: "connected X view c db'"
      "run_command X w help CmdFailedRetry opt p = (Inr (), \<lparr>p_out = p_out p @ ''requeued task '' @ TaskId_Value i @
        '' status=pending'' @ nl, p_err = p_err p, p_conn = c\<rparr>)"
      unfolding run by auto
    from cli_main_ok [OF c(2)] c(1) db' Some show ?thesis
      by (intro exI [of _ "\<lparr>p_out = p_out p @ ''requeued task '' @ TaskId_Value i @ '' status=pending'' @ nl,
          p_err = p_err p, p_conn = c\<rparr>"] exI [of _ db']) simp
  qed
qed

text \<open>The sample task in the dead-letter list is requeued; on an empty server there is nothing to requeue.\<close>

theorem failed_retry_command_witness:
  "let i = TaskId_Value (m_id sample_message); t = ser (TaskMessage_ToJson sample_message);
       retry = cli_main ref_ext sample_world '''' (Inr (CmdFailedRetry, sample_options\<lparr>retry_task_id := i\<rparr>))
   in (\<exists>p' db'. retry (sample_process\<lparr>p_conn := ref_conn (put_list redis_kDead [t] empty_db)\<rparr>) = (Inr 0, p') \<and>
         p_out p' = ''requeued task '' @ i @ '' status=pending'' @ nl \<and> connected ref_ext fst (p_conn p') db' \<and>
         list_at db' redis_kDead = [] \<and> list_at db' redis_kPending = [recode ref_text revived_table t]) \<and>
      (\<exists>p'. retry sample_process = (Inr 1, p') \<and> p_err p' = ''dead task not found: '' @ i @ nl)"
proof -
  let ?i = "TaskId_Value (m_id sample_message)" and ?t = "ser (TaskMessage_ToJson sample_message)"
  let ?opt = "sample_options\<lparr>retry_task_id := ?i\<rparr>" and ?db = "put_list redis_kDead [?t] empty_db"
  have "IsValidUuidFormat ?i" using wire_message_sample by (simp add: wire_message_def)
  then have i: "TaskId_Parse (retry_task_id ?opt) = PR_Ok (m_id sample_message)" by (cases "m_id sample_message") simp
  have opt: "redis_uri ?opt \<noteq> ''''" "cw_ping sample_world (redis_uri ?opt) = Inr ''PONG''"
    by (simp_all add: sample_options_def default_options_def DefaultRedisUriFromEnv_def sample_world_def)
  note retry = failed_retry_command [OF refx.external_axioms _ _ opt i, of _ _ "''''"]
  have c: "connected ref_ext fst (p_conn sample_process) empty_db"
    "connected ref_ext fst (p_conn (sample_process\<lparr>p_conn := ref_conn ?db\<rparr>)) ?db" by (simp_all add: sample_process_def)
  have id: "text_id ref_text ?t = ?i" by (rule good_text_id [OF ref_sample_text])
  have wf: "wf_db (codec ref_ext) empty_db" "wf_db (codec ref_ext) ?db"
    using good_sound [OF ref_sample_text] by (simp_all add: wf_empty wf_db_def filed_def key_simps)
  show ?thesis
    unfolding Let_def using retry [OF c(2) wf(2)] retry [OF c(1) wf(1)] by (auto simp: id key_simps)
qed

end
