(* ===== verification/Worker_Start.thy ===== *)
theory Worker_Start
  imports Worker_Safety Cli_Properties
begin

text \<open>
  The process of \<^verbatim>\<open>taskq worker start\<close> (cli/main.cc) from the end of its preparations on: it
  publishes the worker in \<^verbatim>\<open>g_worker\<close>, installs the two signal handlers and calls \<open>Run\<close>. Signals
  may arrive at any time. Every step of the process is a step of the worker or leaves it alone
  (\<open>start_run_worker\<close>), so that what is shown of \<open>Run\<close> carries over.
\<close>

section \<open>The process\<close>

datatype stop_signal = SIGINT | SIGTERM

datatype start_pc = AtPointer | AtSigint | AtSigterm | InRun | AtClear | Finished | Left exn | Killed

record ('w, 's) start_state =
  st_run :: "('w, 's) run_state"
  st_pc :: start_pc
  g_worker :: bool
  installed :: "stop_signal list"

definition start_init :: "'w Worker \<Rightarrow> 'w \<Rightarrow> 's \<Rightarrow> ('w, 's) start_state" where
  "start_init worker app c =
     \<lparr>st_run = \<lparr>run_sys = \<lparr>sys_worker = worker, sys_app = app, sys_broker = c\<rparr>, run_pc = AtBegin\<rparr>,
      st_pc = AtPointer, g_worker = False, installed = []\<rparr>"

text \<open>A signal runs its handler on the worker \<^verbatim>\<open>g_worker\<close> points to; without a handler it ends the process.\<close>

definition deliver :: "stop_signal \<Rightarrow> ('w, 's) start_state \<Rightarrow> ('w, 's) start_state" where
  "deliver sig z =
     (if sig \<in> set (installed z)
      then let s = run_sys (st_run z)
           in (case HandleStopSignal (if g_worker z then Some (sys_worker s) else None) of
                 None \<Rightarrow> z
               | Some w \<Rightarrow> z\<lparr>st_run := (st_run z)\<lparr>run_sys := s\<lparr>sys_worker := w\<rparr>\<rparr>\<rparr>)
      else z\<lparr>st_pc := Killed\<rparr>)"

definition alive :: "('w, 's) start_state \<Rightarrow> bool" where
  "alive z \<longleftrightarrow> st_pc z \<in> {AtPointer, AtSigint, AtSigterm, InRun, AtClear} \<and> run_pc (st_run z) \<noteq> Aborted"

text \<open>
  The pool threads run since the construction of the worker, before and while \<open>Run\<close> is executed.
  An exception that leaves \<open>Run\<close> leaves the callback and \<^verbatim>\<open>main\<close>.
\<close>

inductive start_step ::
    "(nat \<Rightarrow> 's Broker) \<Rightarrow> (int \<Rightarrow> bool) \<Rightarrow> ('s \<Rightarrow> 's \<Rightarrow> bool) \<Rightarrow> run_actor \<Rightarrow>
     ('w, 's) start_state \<Rightarrow> run_event list \<Rightarrow> ('w, 's) start_state \<Rightarrow> bool" for B clock env where
  set_pointer: "st_pc z = AtPointer \<Longrightarrow>
    start_step B clock env Own z [] (z\<lparr>g_worker := True, st_pc := AtSigint\<rparr>)"
| set_sigint: "st_pc z = AtSigint \<Longrightarrow>
    start_step B clock env Own z [] (z\<lparr>installed := SIGINT # installed z, st_pc := AtSigterm\<rparr>)"
| set_sigterm: "st_pc z = AtSigterm \<Longrightarrow>
    start_step B clock env Own z [] (z\<lparr>installed := SIGTERM # installed z, st_pc := InRun\<rparr>)"
| in_run: "st_pc z = InRun \<Longrightarrow> run_step B clock env Own (st_run z) es y \<Longrightarrow>
    start_step B clock env Own z es (z\<lparr>st_run := y\<rparr>)"
| returned: "st_pc z = InRun \<Longrightarrow> run_pc (st_run z) = Returned \<Longrightarrow>
    start_step B clock env Own z [] (z\<lparr>st_pc := AtClear\<rparr>)"
| left: "st_pc z = InRun \<Longrightarrow> run_pc (st_run z) = Threw e \<Longrightarrow>
    start_step B clock env Own z [] (z\<lparr>st_pc := Left e\<rparr>)"
| aborted: "st_pc z = InRun \<Longrightarrow> run_pc (st_run z) = Aborted \<Longrightarrow>
    start_step B clock env Own z [] (z\<lparr>st_pc := Killed\<rparr>)"
| clear_pointer: "st_pc z = AtClear \<Longrightarrow>
    start_step B clock env Own z [] (z\<lparr>g_worker := False, st_pc := Finished\<rparr>)"
| pool: "alive z \<Longrightarrow> a \<noteq> Client \<Longrightarrow> pool_step a (pool_of (st_run z)) es p \<Longrightarrow> completed es = [] \<Longrightarrow>
    start_step B clock env (if a = Internal then Own else Outside) z []
      (z\<lparr>st_run := (st_run z)\<lparr>run_sys := put_pool p (run_sys (st_run z))\<rparr>\<rparr>)"
| other: "alive z \<Longrightarrow> env (sys_broker (run_sys (st_run z))) b \<Longrightarrow>
    start_step B clock env Outside z []
      (z\<lparr>st_run := (st_run z)\<lparr>run_sys := (run_sys (st_run z))\<lparr>sys_broker := b\<rparr>\<rparr>\<rparr>)"
| signal: "alive z \<Longrightarrow> start_step B clock env Outside z [] (deliver sig z)"

inductive start_run ::
    "(nat \<Rightarrow> 's Broker) \<Rightarrow> (int \<Rightarrow> bool) \<Rightarrow> ('s \<Rightarrow> 's \<Rightarrow> bool) \<Rightarrow>
     ('w, 's) start_state \<Rightarrow> run_event list \<Rightarrow> ('w, 's) start_state \<Rightarrow> bool" for B clock env z0 where
  start_here: "start_run B clock env z0 [] z0"
| start_next: "start_run B clock env z0 es z \<Longrightarrow> start_step B clock env a z fs z' \<Longrightarrow>
    start_run B clock env z0 (es @ fs) z'"

section \<open>Projection to the worker\<close>

lemma deliver_cases:
  "deliver sig z = z \<or> deliver sig z = z\<lparr>st_pc := Killed\<rparr> \<or>
   sig \<in> set (installed z) \<and> g_worker z \<and> deliver sig z =
     z\<lparr>st_run := (st_run z)\<lparr>run_sys := (run_sys (st_run z))\<lparr>sys_worker := Worker_Stop (sys_worker (run_sys (st_run z)))\<rparr>\<rparr>\<rparr>"
  by (auto simp: deliver_def HandleStopSignal_def Let_def)

fun pc_rank :: "start_pc \<Rightarrow> nat" where
  "pc_rank AtPointer = 5"
| "pc_rank AtSigint = 4"
| "pc_rank AtSigterm = 3"
| "pc_rank InRun = 2"
| "pc_rank AtClear = 1"
| "pc_rank _ = 0"

text \<open>
  Every step is a step of the worker with the same events by the same actor, or leaves it alone
  and brings the process closer to its end.
\<close>

lemma start_step_worker:
  "start_step B clock env a z es z' \<Longrightarrow>
     es = [] \<and> st_run z' = st_run z \<and> (a = Own \<longrightarrow> pc_rank (st_pc z') < pc_rank (st_pc z)) \<or>
     run_step B clock env a (st_run z) es (st_run z') \<and> st_pc z' = st_pc z"
proof (induction rule: start_step.induct)
  case (pool z a es p)
  then show ?case using pool_move [of "st_run z" a es p] by (auto simp: alive_def)
next
  case (other z b)
  then show ?case using others [of "st_run z" env b] by (auto simp: alive_def)
next
  case (signal z sig)
  then show ?case using run_stop [of "st_run z"] deliver_cases [of sig z] by (auto simp: alive_def)
qed auto

lemma start_run_worker:
  "start_run B clock env z0 es z \<Longrightarrow> worker_run B clock env (st_run z0) es (st_run z)"
proof (induction rule: start_run.induct)
  case start_here
  then show ?case by (rule run_start)
next
  case (start_next es z a fs z')
  then show ?case using start_step_worker [OF start_next(2)] by (auto intro: run_next)
qed

text \<open>In \<open>Run\<close> and after it the handlers are installed; \<open>g_worker\<close> is set before and cleared after.\<close>

definition start_inv :: "('w, 's) start_state \<Rightarrow> bool" where
  "start_inv z \<longleftrightarrow>
     (st_pc z \<in> {InRun, AtClear} \<longrightarrow> g_worker z \<and> set (installed z) = {SIGINT, SIGTERM}) \<and>
     (st_pc z = AtSigterm \<longrightarrow> g_worker z \<and> set (installed z) = {SIGINT}) \<and>
     (st_pc z = AtSigint \<longrightarrow> g_worker z) \<and> (st_pc z \<in> {AtPointer, AtSigint} \<longrightarrow> installed z = []) \<and>
     (st_pc z \<in> {AtPointer, AtSigint, AtSigterm} \<longrightarrow> run_pc (st_run z) = AtBegin) \<and>
     (st_pc z \<in> {AtClear, Finished} \<longrightarrow> run_pc (st_run z) = Returned)"

lemma start_step_inv: "start_step B clock env a z es z' \<Longrightarrow> start_inv z \<Longrightarrow> start_inv z'"
proof (induction rule: start_step.induct)
  case (signal z sig)
  from deliver_cases [of sig z] signal(2) show ?case by (elim disjE conjE) (simp_all add: start_inv_def)
qed (auto simp: start_inv_def)

lemma start_run_inv: "start_run B clock env z0 es z \<Longrightarrow> start_inv z0 \<Longrightarrow> start_inv z"
  by (induction rule: start_run.induct) (blast intro: start_step_inv)+

lemma start_run_append:
  "start_run B clock env z fs y \<Longrightarrow> start_run B clock env z0 es z \<Longrightarrow> start_run B clock env z0 (es @ fs) y"
proof (induction rule: start_run.induct)
  case (start_next fs y a gs y')
  then show ?case using start_run.start_next [of B clock env z0 "es @ fs" y a gs y'] by simp
qed simp

lemma start_init_inv: "start_inv (start_init worker app c)"
  by (simp add: start_inv_def start_init_def)

lemma begin_sets_running:
  "run_step B clock env a z es z' \<Longrightarrow> run_pc z = AtBegin \<Longrightarrow> run_pc z' \<notin> {AtBegin, Aborted} \<Longrightarrow>
     Worker_IsRunning (sys_worker (run_sys z'))"
proof (induction rule: run_step.induct)
  case (run_begin z now_ms beat_ms fuel steady_now)
  then show ?case
    by (auto simp: after_cases run_prologue_def Worker_IsRunning_def dest!: heartbeat_pool split: prod.splits sum.splits)
qed auto

section \<open>After a signal\<close>

definition start_bound :: "nat \<Rightarrow> ('w, 's) start_state \<Rightarrow> nat" where
  "start_bound n z = run_bound n (st_run z) + pc_rank (st_pc z)"

definition stop_seen :: "('w, 's) start_state \<Rightarrow> bool" where
  "stop_seen z \<longleftrightarrow> stopping (st_run z) \<and> st_pc z \<notin> {AtPointer, AtSigint, AtSigterm}"

lemma deliver_stops:
  assumes "start_inv z" and "st_pc z = InRun" and "run_pc (st_run z) \<noteq> AtBegin"
  shows "stop_seen (deliver sig z)" and "st_pc (deliver sig z) = InRun"
  using assms by (cases sig; auto simp: start_inv_def deliver_def HandleStopSignal_def Let_def stop_seen_def
      stopping_def Worker_Stop_def Worker_IsRunning_def)+

lemma outside_stopping: "run_step B clock env a z es z' \<Longrightarrow> a = Outside \<Longrightarrow> stopping z \<Longrightarrow> stopping z'"
  by (induction rule: run_step.induct)
    (auto simp: stopping_def Worker_Stop_def Worker_IsRunning_def put_pool_def split: if_splits)

lemma stop_seen_step:
  assumes "start_step B clock env a z es z'" and "stop_seen z" and "run_inv n (st_run z)"
    and "idle_waiters (pool_of (st_run z)) = []"
  shows "stop_seen z'" and "a = Own \<Longrightarrow> start_bound n z' < start_bound n z"
proof -
  have stop: "stopping (st_run z)" using assms(2) by (simp add: stop_seen_def)
  note run = start_step_worker [OF assms(1)] and own = own_step_decreases [OF _ _ stop assms(3,4)]
  have "stopping (st_run z')" if "run_step B clock env a (st_run z) es (st_run z')"
    using own [OF that] outside_stopping [OF that _ stop] by (cases a) simp_all
  with run stop have "stopping (st_run z')" by auto
  moreover have "st_pc z' \<notin> {AtPointer, AtSigint, AtSigterm}"
    using assms(1,2)
    by (induction rule: start_step.induct) (auto simp: stop_seen_def deliver_def Let_def split: option.splits)
  ultimately show "stop_seen z'" by (simp add: stop_seen_def)
  show "start_bound n z' < start_bound n z" if "a = Own"
    using run own that by (auto simp: start_bound_def)
qed

section \<open>Over the Redis broker\<close>

text \<open>The connection keeps the hashes of the loaded scripts, whatever it loses.\<close>

context external
begin

lemma any_request: "request_invariant X view (\<lambda>_. True) (\<lambda>_. True)"
  by unfold_locales simp_all

lemma loaded_contract:
  "broker_contract (RedisBroker_methods X) (conn_inv X view (\<lambda>_. True)) (\<lambda>_. True) clock"
  by (rule invariant_contract [OF any_request]) simp_all

lemma worker_stays_loaded:
  assumes "worker_run (RedisBroker_methods X) clock env z0 es z" and "fresh_run n z0"
    and "loaded X (sys_broker (run_sys z0))" and "\<forall>c c'. env c c' \<longrightarrow> shas c' = shas c"
  shows "loaded X (sys_broker (run_sys z))"
  using broker_contract.worker_run_safe [OF loaded_contract assms(1,2)] assms(3,4)
  by (simp add: conn_inv_def loaded_def)

end

lemma LoadScript_sets:
  "LoadScript X i c = (Inr (), c') \<Longrightarrow> shas c' = (shas c)(i := script_sha (rds X) i)"
  by (auto simp: LoadScript_def bind_io_def transmit_def split: list.splits net_event.splits)

lemma LoadScriptList_sets:
  "LoadScriptList X is c = (Inr (), c') \<Longrightarrow>
     shas c' = (\<lambda>i. if i \<in> set is then script_sha (rds X) i else shas c i)"
proof (induction "is" arbitrary: c)
  case Nil
  then show ?case by (simp add: ret_def)
next
  case (Cons i "is")
  then obtain c1 where "LoadScript X i c = (Inr (), c1)" "LoadScriptList X is c1 = (Inr (), c')"
    by (auto simp: then_io_def bind_io_def split: prod.splits sum.splits)
  then show ?case using Cons.IH LoadScript_sets by (fastforce simp: fun_eq_iff)
qed

lemma create_loaded:
  assumes "RedisBroker_create X c = (Inr (), c')"
  shows "loaded X c'"
proof -
  have "shas c' i = script_sha (rds X) i" for i
    using LoadScriptList_sets [OF assms [unfolded RedisBroker_create_def LoadScripts_def]] by (cases i) simp_all
  then show ?thesis by (simp add: loaded_def)
qed

text \<open>What the preparations of \<open>worker start\<close> leave, if they do not end the process.\<close>

lemma io_returns:
  "bind_io m f s = (Inr r, s') \<longleftrightarrow> (\<exists>a s1. m s = (Inr a, s1) \<and> f a s1 = (Inr r, s'))"
  "then_io m n s = (Inr r, s') \<longleftrightarrow> (\<exists>a s1. m s = (Inr a, s1) \<and> n s1 = (Inr r, s'))"
  "lift_io q s = (Inr r, s') \<longleftrightarrow> q = Inr r \<and> s' = s" "ret r' s = (Inr r, s') \<longleftrightarrow> r' = r \<and> s' = s"
  "on_conn k p = (Inr r, p') \<longleftrightarrow> (\<exists>c. k (p_conn p) = (Inr r, c) \<and> p' = p\<lparr>p_conn := c\<rparr>)"
  by (auto simp: bind_io_def then_io_def lift_io_def ret_def on_conn_def split: prod.splits sum.splits)

lemma worker_start_leaves:
  assumes "worker_start_callback X w opt p = (Inr worker, p')"
  shows "0 < opt_concurrency opt" and "w_thread_pool worker = ThreadPool_create (opt_concurrency opt)"
    and "loaded X (p_conn p')"
proof -
  obtain worker0 worker1 c where load: "RedisBroker_create X c = (Inr (), p_conn p')"
    and w0: "Worker_create (cw_create_bytes w) (cw_host w) (cw_pid w) (opt_concurrency opt) = Inr worker0"
    and w1: "Worker_SetVisibilityTimeout (visibility_timeout_ms opt) worker0 = Inr worker1"
    and worker: "worker = Worker_RegisterTask ''add'' (MakeAddHandler (cw_what w) (cw_undef w)) worker1"
    using assms unfolding worker_start_callback_def io_returns by force
  show "loaded X (p_conn p')" by (rule create_loaded [OF load])
  show "0 < opt_concurrency opt"
    using w0 by (auto simp: Worker_create_def ThrowIfInvalid_def ValidateWorkerConcurrency_def bind_sum_def
        split: sum.splits if_splits)
  have "w_thread_pool worker0 = ThreadPool_create (opt_concurrency opt)"
    using w0 by (auto simp: Worker_create_def bind_sum_def split: sum.splits)
  then show "w_thread_pool worker = ThreadPool_create (opt_concurrency opt)"
    using w1 worker
    by (auto simp: Worker_SetVisibilityTimeout_def Worker_RegisterTask_def bind_sum_def split: sum.splits)
qed

lemma start_fresh:
  assumes "worker_start_callback X w opt p = (Inr worker, p')"
  shows "fresh_run (opt_concurrency opt) (st_run (start_init worker app (p_conn p')))"
    and "loaded X (sys_broker (run_sys (st_run (start_init worker app (p_conn p')))))"
  using worker_start_leaves [OF assms] by (simp_all add: start_init_def fresh_run_def pool_of_def)

lemma stop_seen_run:
  assumes "start_run B clock env z fs y" and "stop_seen z" and "worker_run B clock env z0 es (st_run z)"
    and "fresh_run n z0"
  shows "stop_seen y"
  using assms(1)
proof (induction rule: start_run.induct)
  case start_here
  then show ?case using assms(2) .
next
  case (start_next fs y a gs y')
  have "worker_run B clock env z0 (es @ fs) (st_run y)"
    using start_run_worker [OF start_next(1)] assms(3)
  proof (induction rule: worker_run.induct)
    case (run_next fs y a gs y')
    then show ?case using worker_run.run_next [of B clock env z0 "es @ fs" y a gs y'] by simp
  qed simp
  then show ?case
    using stop_seen_step(1) [OF start_next(2) start_next.IH] worker_run_inv worker_run_waiters assms(4) by blast
qed

text \<open>An own step is possible until the process has ended.\<close>

lemma own_start_step:
  assumes "run_inv n (st_run z)" and "0 < n" and "clock t" and "poll_returns B clock (st_run z)"
    and "st_pc z \<in> {InRun, AtClear}"
  shows "\<exists>es z'. start_step B clock env Own z es z'"
proof (cases "st_pc z = InRun \<and> \<not> ended (st_run z)")
  case True
  then show ?thesis using own_step_enabled [OF assms(1-4)] in_run [of z] by blast
next
  case False
  then show ?thesis
    using assms(5) returned [of z] left [of z] aborted [of z] clear_pointer [of z] by (fastforce simp: ended_def)
qed

text \<open>
  C11: \<^verbatim>\<open>taskq worker start\<close> ends on a signal and leaves nothing half done. Once \<open>Run\<close> has begun, that is
  with the signal handlers installed and the first statement of \<open>Run\<close> behind it, and as long as no
  exception has terminated the process, a \<open>SIGINT\<close> or \<open>SIGTERM\<close> does not kill the process; whatever happens afterwards, more signals,
  other clients and lost messages included, the process has ended or one of its threads can move, and
  every step of its threads brings it closer to its end. When the callback has returned
  normally, every task the worker ever reserved has been processed exactly once.
\<close>

theorem signal_ends_worker_start:
  assumes "external X view" and "worker_start_callback X w opt p = (Inr worker, p')"
    and "start_run (RedisBroker_methods X) clock env (start_init worker app (p_conn p')) es z"
    and "\<forall>c c'. env c c' \<longrightarrow> shas c' = shas c" and "clock t"
    and "st_pc z = InRun" and "run_pc (st_run z) \<notin> {AtBegin, Aborted}"
    and "start_run (RedisBroker_methods X) clock env (deliver sig z) fs y"
  shows "st_pc (deliver sig z) = InRun \<and>
    (st_pc y \<in> {Finished, Killed} \<union> range Left \<or>
     (\<exists>gs y'. start_step (RedisBroker_methods X) clock env Own y gs y') \<and>
     (\<forall>gs y'. start_step (RedisBroker_methods X) clock env Own y gs y' \<longrightarrow>
        start_bound (opt_concurrency opt) y' < start_bound (opt_concurrency opt) y)) \<and>
    (st_pc y = Finished \<longrightarrow> mset (reserved (es @ fs)) = mset (processed (es @ fs)))"
proof -
  let ?B = "RedisBroker_methods X" and ?n = "opt_concurrency opt" and ?z0 = "start_init worker app (p_conn p')"
  note fresh = start_fresh [OF assms(2), of app]
  have inv: "start_inv z" by (rule start_run_inv [OF assms(3) start_init_inv])
  note stop = deliver_stops [OF inv assms(6), of sig]
  have "start_step ?B clock env Outside z [] (deliver sig z)"
    using assms(6,7) by (intro signal) (simp add: alive_def)
  from start_next [OF assms(3) this] have upto: "start_run ?B clock env ?z0 es (deliver sig z)" by simp
  have all: "start_run ?B clock env ?z0 (es @ fs) y" by (rule start_run_append [OF assms(8) upto])
  note run = start_run_worker [OF all]
  have y: "stop_seen y"
    using stop_seen_run [OF assms(8) _ start_run_worker [OF upto] fresh(1)] stop assms(7) by simp
  have ry: "run_inv ?n (st_run y)" "idle_waiters (pool_of (st_run y)) = []"
    "run_pc (st_run y) \<noteq> Aborted \<longrightarrow> mset (reserved (es @ fs)) = in_hand (st_run y) + mset (processed (es @ fs))"
    using worker_run_inv [OF run fresh(1)] worker_run_waiters [OF run fresh(1)] by auto
  have "poll_returns ?B clock (st_run y)"
    using external.worker_stays_loaded [OF assms(1) run fresh assms(4)] assms(1,5) by (intro redis_poll_returns)
  then have "st_pc y \<in> {InRun, AtClear} \<Longrightarrow> \<exists>gs y'. start_step ?B clock env Own y gs y'"
    using own_start_step [where t = t and clock = clock, OF ry(1) worker_start_leaves(1) [OF assms(2)] assms(5)] by blast
  moreover have "st_pc y \<in> {InRun, AtClear, Finished, Killed} \<union> range Left"
    using y by (cases "st_pc y") (auto simp: stop_seen_def)
  moreover have "mset (reserved (es @ fs)) = mset (processed (es @ fs))" if "st_pc y = Finished"
  proof -
    have "run_pc (st_run y) = Returned" using start_run_inv [OF all start_init_inv] that by (simp add: start_inv_def)
    then show ?thesis using ry(1,3) by (simp add: run_inv_def in_hand_def)
  qed
  ultimately show ?thesis using stop(2) assms(7) stop_seen_step(2) [OF _ y ry(1,2)] by blast
qed

text \<open>The process when it enters \<open>Run\<close>.\<close>

definition in_run_state :: "('w, 's) start_state \<Rightarrow> ('w, 's) start_state" where
  "in_run_state z = z\<lparr>g_worker := True, installed := [SIGTERM, SIGINT], st_pc := InRun\<rparr>"

lemma reach_run: "start_run B clock env (start_init worker app c) [] (in_run_state (start_init worker app c))"
proof -
  let ?z0 = "start_init worker app c"
  have "start_run B clock env ?z0 ([] @ []) (?z0\<lparr>g_worker := True, st_pc := AtSigint\<rparr>)"
    by (rule start_next [OF start_here set_pointer]) (simp add: start_init_def)
  from start_next [OF this set_sigint] have
    "start_run B clock env ?z0 [] (?z0\<lparr>g_worker := True, installed := [SIGINT], st_pc := AtSigterm\<rparr>)"
    by (simp add: start_init_def)
  from start_next [OF this set_sigterm] show ?thesis by (simp add: in_run_state_def start_init_def)
qed

text \<open>A worker that has just begun to run gets a \<open>SIGTERM\<close>.\<close>

theorem signal_ends_worker_start_witness:
  "\<exists>(worker :: unit Worker) p' z gs y'.
     worker_start_callback ref_ext sample_world sample_options sample_process = (Inr worker, p') \<and>
     start_run (RedisBroker_methods ref_ext) (\<lambda>_. True) (\<lambda>_ _. False) (start_init worker () (p_conn p')) [] z \<and>
     st_pc (deliver SIGTERM z) = InRun \<and>
     start_step (RedisBroker_methods ref_ext) (\<lambda>_. True) (\<lambda>_ _. False) Own (deliver SIGTERM z) gs y'"
proof -
  let ?B = "RedisBroker_methods ref_ext" and ?clock = "\<lambda>_ :: int. True"
    and ?env = "\<lambda>_ _ :: mem_server conn. False"
  obtain worker :: "unit Worker" and p' where cb:
    "worker_start_callback ref_ext sample_world sample_options sample_process = (Inr worker, p')"
    using worker_start_ready_witness by blast
  let ?z0 = "start_init worker () (p_conn p')"
  let ?z3 = "in_run_state ?z0"
  let ?y = "after (Worker_MaybePublishHeartbeat (?B 2) 1 1000 (run_prologue 1000 (run_sys (st_run ?z0)))) (\<lambda>_. AtLoop)"
  have "start_run ?B ?clock ?env ?z0 [] ?z3" by (rule reach_run)
  moreover have "run_step ?B ?clock ?env Own (st_run ?z3) [] ?y"
    using run_begin [of "st_run ?z3" ?clock 1000 1000 ?B ?env 2 1] by (simp add: in_run_state_def start_init_def)
  ultimately have run: "start_run ?B ?clock ?env ?z0 ([] @ []) (?z3\<lparr>st_run := ?y\<rparr>)"
    by (intro start_next [OF _ in_run]) (simp_all add: in_run_state_def)
  let ?z = "?z3\<lparr>st_run := ?y\<rparr>"
  have pc: "st_pc ?z = InRun" "run_pc (st_run ?z) \<notin> {AtBegin, Aborted}"
    by (auto simp: in_run_state_def after_cases split: prod.splits sum.splits)
  have "start_run ?B ?clock ?env (deliver SIGTERM ?z) [] (deliver SIGTERM ?z)" by (rule start_here)
  from signal_ends_worker_start [OF refx.external_axioms cb run _ _ pc this] show ?thesis using cb run by fastforce
qed

text \<open>
  C37: a signal can be lost. When it arrives after the handlers were installed but before \<open>Run\<close> has set
  \<open>running_\<close>, the handler clears \<open>running_\<close> and the first step of \<open>Run\<close> sets it again: the worker
  goes on as if nothing had happened.
\<close>

theorem early_signal_lost:
  assumes "start_run B clock env (start_init worker app c) es z" and "st_pc z = InRun"
    and "run_pc (st_run z) = AtBegin" and "start_step B clock env Own (deliver sig z) fs y"
    and "run_pc (st_run y) \<notin> {AtBegin, Aborted}"
  shows "\<not> Worker_IsRunning (sys_worker (run_sys (st_run (deliver sig z)))) \<and>
    Worker_IsRunning (sys_worker (run_sys (st_run y)))"
proof -
  have "start_inv z" by (rule start_run_inv [OF assms(1) start_init_inv])
  then have d: "run_pc (st_run (deliver sig z)) = AtBegin"
    "\<not> Worker_IsRunning (sys_worker (run_sys (st_run (deliver sig z))))"
    using assms(2,3) by (cases sig; simp add: start_inv_def deliver_def HandleStopSignal_def Let_def Worker_Stop_def
      Worker_IsRunning_def)+
  have "run_step B clock env Own (st_run (deliver sig z)) fs (st_run y)"
    using start_step_worker [OF assms(4)] d(1) assms(5) by auto
  from begin_sets_running [OF this d(1) assms(5)] show ?thesis using d(2) by simp
qed

theorem early_signal_lost_witness:
  "\<exists>z fs y. start_run (RedisBroker_methods ref_ext) (\<lambda>_. True) (\<lambda>_ _. False)
      (start_init flaky_worker 0 (ref_conn pending_db)) [] z \<and>
    start_step (RedisBroker_methods ref_ext) (\<lambda>_. True) (\<lambda>_ _. False) Own (deliver SIGINT z) fs y \<and>
    \<not> Worker_IsRunning (sys_worker (run_sys (st_run (deliver SIGINT z)))) \<and>
    Worker_IsRunning (sys_worker (run_sys (st_run y)))"
proof -
  let ?B = "RedisBroker_methods ref_ext" and ?clock = "\<lambda>_ :: int. True"
    and ?env = "\<lambda>_ _ :: mem_server conn. False"
  let ?z = "in_run_state (start_init flaky_worker 0 (ref_conn pending_db))"
  let ?d = "deliver SIGINT ?z"
  let ?y = "after (Worker_MaybePublishHeartbeat (?B 2) 1 1000 (run_prologue 1000 (run_sys (st_run ?d)))) (\<lambda>_. AtLoop)"
  have pc: "st_pc ?z = InRun" "run_pc (st_run ?z) = AtBegin" by (simp_all add: in_run_state_def start_init_def)
  have d: "st_pc ?d = InRun" "run_pc (st_run ?d) = AtBegin"
    by (simp_all add: deliver_def in_run_state_def start_init_def HandleStopSignal_def)
  have "run_step ?B ?clock ?env Own (st_run ?d) [] ?y"
    using run_begin [of "st_run ?d" ?clock 1000 1000 ?B ?env 2 1] d(2) by simp
  from in_run [OF d(1) this] have step: "start_step ?B ?clock ?env Own ?d [] (?d\<lparr>st_run := ?y\<rparr>)" .
  have "run_pc (st_run (?d\<lparr>st_run := ?y\<rparr>)) \<notin> {AtBegin, Aborted}"
    by (auto simp: after_cases split: prod.splits sum.splits)
  from early_signal_lost [OF reach_run pc step this] show ?thesis
    by (intro exI [of _ ?z] exI [of _ "[]"] exI [of _ "?d\<lparr>st_run := ?y\<rparr>"] conjI reach_run step) simp_all
qed

end
