(* ===== verification/Recovery.thy ===== *)
theory Recovery
  imports Worker_Outcomes
begin

text \<open>
  What happens to the task of a worker that dies. Until the visibility timeout nobody touches it;
  the first worker that polls after it takes the task back from the running table and runs it.
  If the first worker was not dead but slow, its late report meets a task that is not its own
  any more: a late retry adds a second copy.
\<close>

section \<open>Stale tasks\<close>

lemma table_of_reserved:
  assumes "table_of m v" and "m_reserved_at_ms m = Some r" and "small r"
  shows "lget v ''reserved_at_ms'' = LNum (DFin (of_int r))"
proof -
  obtain fs where v: "v = LTable fs []" using assms(1) by (auto simp: table_of_def object_table_def)
  have "json_find (json_of_lua v) ''reserved_at_ms'' = Some (JInt r)"
    using assms by (simp add: table_of_def find_TaskMessage_ToJson small_numbers)
  then obtain x where "map_of fs ''reserved_at_ms'' = Some x" and x: "json_of_lua x = JInt r"
    by (auto simp: v json_find_def map_of_map split: option.splits)
  moreover have "x = LNum (DFin (of_int r))"
    using x by (cases x rule: json_of_lua.cases) (auto split: if_splits)
  ultimately show ?thesis by (simp add: v lget_def)
qed

lemma taken_again [simp]: "reserved_message r (reclaimed_message (taken t0 m)) = taken r m"
  by (simp add: taken_def move_defs)

lemma taken_reserved [simp]: "m_reserved_at_ms (taken t0 m) = Some t0"
  by (simp add: taken_def move_defs)

context external
begin

lemma carries_stale:
  assumes "carries T t m" and "m_reserved_at_ms m = Some r" and "small r" and "small now" and "small timeout"
  shows "reserved_at T (the (cj_decode T t)) \<noteq> None" and "is_stale T now timeout t \<longleftrightarrow> now - r > timeout"
  using assms(1) table_of_reserved [OF _ assms(2,3)] late_double [OF assms(4,3,5)]
  by (auto simp: carries_def is_stale_def reserved_at_def)

lemma tick_running:
  assumes "running_alone T db m" and "m_reserved_at_ms m = Some t0"
    and "small t0" and "small now" and "small timeout"
  shows "\<exists>db'. yields X view (RunSchedulerTick (RedisBroker_methods X (Suc fuel)) now timeout) db (Inr (Some ())) db' \<and>
    (if now - t0 > timeout then offered T db' (reclaimed_message m)
     else running_alone T db' m \<and> hash_at db' redis_kRunning = hash_at db redis_kRunning)"
proof -
  obtain t where t: "carries T t m" "hash_at db redis_kRunning = [(TaskId_Value (m_id m), t)]"
    and db: "wf_db T db" "metrics_ok db" "list_at db redis_kPending = []" "zset_at db redis_kDelayed = []"
      "list_at db redis_kDead = []"
    using assms(1) by (auto simp: running_alone_def)
  note stale = carries_stale [OF t(1) assms(2-5)]
  have "timed T db" using stale(1) by (simp add: timed_def t(2))
  with db(1) obtain db' where db': "yields X view (RedisBroker_ReclaimStaleTasks X now timeout) db
      (Inr (if now - t0 > timeout then 1 else 0)) db'" "wf_db T db'"
    "reclaims T (if now - t0 > timeout then hash_at db redis_kRunning else []) db db'"
    "hash_at db' redis_kRunning = (if now - t0 > timeout then [] else hash_at db redis_kRunning)"
    using yields_ReclaimStaleTasks [of db now timeout] by (auto simp: t(2) stale(2) split: if_splits)
  have "due now db = []" by (simp add: due_def db(4))
  note p = promote_loop_none [OF db(1) this, of fuel]
  have r: "yields X view (then_io (RedisBroker_ReclaimStaleTasks X now timeout) (ret (Some ()))) db (Inr (Some ())) db'"
    by (rule yields_then [OF db'(1) yields_pure(1)])
  have "yields X view (RunSchedulerTick (RedisBroker_methods X (Suc fuel)) now timeout) db (Inr (Some ())) db'"
    unfolding RunSchedulerTick_def RedisBroker_methods_simps RedisBroker_PromoteDueTasks_def
    by (rule yields_bind [OF p]) (simp add: r)
  moreover have "metrics_ok db'"
    using db'(3) db(2) by (simp add: reclaims_def metrics_ok_def key_simps)
  ultimately show ?thesis
    using db' db t carries_moves(3) [OF t(1)]
    by (auto simp: offered_def running_alone_def reclaims_def split: if_splits)
qed

text \<open>A poll before the timeout finds nothing, one after it takes the task over.\<close>

lemma poll_fresh:
  assumes "running_alone T db m" and "m_reserved_at_ms m = Some t0" and "small t0" and "small tick_ms"
    and "small (w_visibility_timeout (sys_worker s))" and "tick_ms - t0 \<le> w_visibility_timeout (sys_worker s)"
    and "0 < fuel" and "connected X view (sys_broker s) db"
  shows "\<exists>b db'. Worker_poll (RedisBroker_methods X fuel) tick_ms reserve_ms s =
      (Inr (Some None), s\<lparr>sys_broker := b\<rparr>) \<and> connected X view b db' \<and> running_alone T db' m"
proof -
  obtain n where n: "fuel = Suc n" using assms(7) gr0_conv_Suc by blast
  obtain db' where tick: "yields X view (RunSchedulerTick (RedisBroker_methods X fuel) tick_ms
      (w_visibility_timeout (sys_worker s))) db (Inr (Some ())) db'" and db': "running_alone T db' m"
    using tick_running [OF assms(1-5), of n] assms(6) by (auto simp: n split: if_splits)
  have res: "yields X view (RedisBroker_Reserve X reserve_ms) db' (Inr None) db'"
    by (rule yields_Reserve_empty) (use db' in \<open>simp add: running_alone_def\<close>)
  have "yields X view (bind_io (RunSchedulerTick (RedisBroker_methods X fuel) tick_ms
      (w_visibility_timeout (sys_worker s))) (\<lambda>ticked. case ticked of None \<Rightarrow> ret None
      | Some _ \<Rightarrow> bind_io (RedisBroker_Reserve X reserve_ms) (\<lambda>task. ret (Some task)))) db (Inr (Some None)) db'"
    by (rule yields_bind [OF tick]) (simp only: option.case, rule yields_bind [OF res yields_pure(1)])
  from on_broker_yields [OF this assms(8)] show ?thesis
    using db' by (auto simp: Worker_poll_def cong: option.case_cong)
qed

lemma poll_stale:
  assumes "running_alone T db m" and "m_reserved_at_ms m = Some t0" and "small t0" and "small tick_ms"
    and "small (w_visibility_timeout (sys_worker s))" and "tick_ms - t0 > w_visibility_timeout (sys_worker s)"
    and "0 < fuel" and "connected X view (sys_broker s) db" and "small reserve_ms"
  shows "\<exists>s' db'. Worker_poll (RedisBroker_methods X fuel) tick_ms reserve_ms s =
      (Inr (Some (Some (reserved_message reserve_ms (reclaimed_message m)))), s') \<and>
    s' = s\<lparr>sys_broker := sys_broker s'\<rparr> \<and> connected X view (sys_broker s') db' \<and>
    running_alone T db' (reserved_message reserve_ms (reclaimed_message m))"
proof -
  obtain n where n: "fuel = Suc n" using assms(7) gr0_conv_Suc by blast
  show ?thesis
    using tick_running [OF assms(1-5), of n] assms(6) poll_offered [OF _ _ assms(9,8)]
    by (auto simp: n split: if_splits)
qed

lemma recovering_round:
  assumes "running_alone T db (taken t0 m)" and "small t0" and "timely r" and "0 < fuel"
    and "connected X view (sys_broker z) db" and "\<not> stop (w_thread_pool (sys_worker z))"
    and "small (w_visibility_timeout (sys_worker z))" and "at_tick r - t0 > w_visibility_timeout (sys_worker z)"
    and "TaskRegistry_HasTask (w_registry (sys_worker z)) (m_name m)"
    and "TaskRegistry_Execute (w_registry (sys_worker z)) (m_name m) (m_payload m) (sys_app z) = (result, a)"
    and "can_settle T (at_retry r) (taken (at_reserve r) m) result"
  shows "\<exists>z' db'. round_of (RedisBroker_methods X fuel) r z = (Inr (Some True), z') \<and>
    settled_as X view r z (taken (at_reserve r) m) result a z' db'"
proof -
  have "small (at_tick r)" "small (at_reserve r)" using assms(3) by (simp_all add: timely_def)
  with poll_stale [OF assms(1) _ assms(2) _ assms(7,8,4,5)] show ?thesis
    using RunOnce_reserved [OF _ _ _ _ assms(3,6) _ _ assms(11)] assms(9,10)
    by (metis taken_again taken_reserved taken_simps(4,5))
qed

lemma idle_round:
  assumes "running_alone T db m" and "m_reserved_at_ms m = Some t0" and "small t0" and "timely r" and "0 < fuel"
    and "connected X view (sys_broker z) db" and "small (w_visibility_timeout (sys_worker z))"
    and "at_tick r - t0 \<le> w_visibility_timeout (sys_worker z)"
  shows "\<exists>z' db'. round_of (RedisBroker_methods X fuel) r z = (Inr (Some False), z') \<and>
    connected X view (sys_broker z') db' \<and> sys_worker z' = sys_worker z \<and> sys_app z' = sys_app z \<and>
    running_alone T db' m"
proof -
  have "small (at_tick r)" using assms(4) by (simp add: timely_def)
  from poll_fresh [OF assms(1-3) this assms(7,8,5,6), of "at_reserve r"] show ?thesis
    by (auto simp: round_of_def Worker_RunOnce_def bind_io_def ret_def)
qed

end

text \<open>
  How a task stands after the call of \<open>RunOnce\<close> that ran it: succeeded, waiting for its next
  attempt, or dead.
\<close>

definition settled_or_waiting ::
    "text_ops \<Rightarrow> redis_db \<Rightarrow> TaskMessage \<Rightarrow> TaskResult \<Rightarrow> int \<Rightarrow> bool" where
  "settled_or_waiting T db m result now \<longleftrightarrow>
     (if tr_success result then succeeded_alone db m
      else if ShouldRetry m
      then (\<exists>d. ComputeRetryDelayMs (m_retry_policy m) (m_retry_count m + 1) = Inr d \<and>
                waiting T db (retry_of m (tr_error_message result) (now + d)))
      else dead_alone T db m (tr_error_message result))"

text \<open>
  C6: crash recovery. A worker reserves the one task \<open>m\<close> of the queue at time \<open>t0\<close> and is never
  heard of again. Another worker on the same server calls \<open>RunOnce\<close>. As long as no more than
  its visibility timeout has passed since \<open>t0\<close>, the call finds nothing and leaves the task in the
  running table; from the first millisecond after that, it takes the task back, runs its handler
  with the payload that was enqueued, and settles it: it succeeds, waits for its next attempt, or
  is dead. The death of the first worker does not count as an attempt.
\<close>

theorem crash_recovery:
  assumes "external X view" and "waiting (codec X) db m" and "ready m tick" and "1 < fuel" and "small t0"
    and "connected X view (sys_broker s) db"
    and "Worker_poll (RedisBroker_methods X fuel) tick t0 s = (Inr (Some (Some task)), s')"
    and "connected X view (sys_broker z) (view (srv (sys_broker s')))" and "timely r"
    and "small (w_visibility_timeout (sys_worker z))" and "\<not> stop (w_thread_pool (sys_worker z))"
    and "TaskRegistry_HasTask (w_registry (sys_worker z)) (m_name m)"
    and "TaskRegistry_Execute (w_registry (sys_worker z)) (m_name m) (m_payload m) (sys_app z) = (result, a)"
    and "m_retry_count m \<le> max_retries (m_retry_policy m)" and "printable (codec X) m [result]"
    and "ComputeRetryDelayMs (m_retry_policy m) (m_retry_count m + 1) = Inr d" and "small (at_retry r + d)"
  shows "\<exists>z' db'. connected X view (sys_broker z') db' \<and> sys_worker z' = sys_worker z \<and>
    (if at_tick r - t0 \<le> w_visibility_timeout (sys_worker z)
     then round_of (RedisBroker_methods X fuel) r z = (Inr (Some False), z') \<and> sys_app z' = sys_app z \<and>
       running_alone (codec X) db' task
     else round_of (RedisBroker_methods X fuel) r z = (Inr (Some True), z') \<and> sys_app z' = a \<and>
       settled_or_waiting (codec X) db' m result (at_retry r))"
proof -
  have task: "task = taken t0 m" and run: "running_alone (codec X) (view (srv (sys_broker s'))) (taken t0 m)"
    using external.poll_waiting [OF assms(1-6)] assms(7) by (auto simp: connected_def)
  have del: "deliverable m" using assms(2) by (auto simp: waiting_def carries_def)
  have fuel: "0 < fuel" using assms(4) by simp
  show ?thesis
  proof (cases "at_tick r - t0 \<le> w_visibility_timeout (sys_worker z)")
    case True
    then show ?thesis
      using external.idle_round [OF assms(1) run _ assms(5,9) fuel assms(8,10)] by (auto simp: task)
  next
    case False
    have settle: "can_settle (codec X) (at_retry r) (taken (at_reserve r) m) result"
      by (rule external.can_settle_taken [OF assms(1,15)]) (use del assms(16,17) in auto)
    obtain z' db' where z': "round_of (RedisBroker_methods X fuel) r z = (Inr (Some True), z')"
      "settled_as X view r z (taken (at_reserve r) m) result a z' db'"
      using external.recovering_round [OF assms(1) run assms(5,9) fuel assms(8,11,10) _ assms(12,13) settle] False by auto
    have "settled_or_waiting (codec X) db' m result (at_retry r)"
      using external.settled_last [OF assms(1) z'(2)] external.settled_retry [OF assms(1) z'(2) _ _ del assms(16,17)]
        assms(14,16) by (auto simp: settled_or_waiting_def ShouldRetry_def)
    then show ?thesis
      using z' False by (intro exI [of _ z'] exI [of _ db']) (simp add: settled_as_def)
  qed
qed

lemma default_first_delay: "ComputeRetryDelayMs RetryPolicy_default 1 = Inr 1000"
  using delay_doubling [of RetryPolicy_default 1] by (simp add: RetryPolicy_default_def)

lemma sample_policy:
  "m_retry_policy sample_message = RetryPolicy_default" "m_retry_count sample_message = 0"
  "m_run_at_ms sample_message = None"
  by (simp_all add: sample_message_def TaskMessage_Create_def TaskMessage_default_def)

text \<open>Reserved at time 0, still running at time 30000, taken over at time 30001.\<close>

theorem crash_recovery_witness:
  "\<exists>s' z' db'. Worker_poll (RedisBroker_methods ref_ext 2) 0 0
      \<lparr>sys_worker = flaky_worker, sys_app = 0, sys_broker = ref_conn pending_db\<rparr> =
      (Inr (Some (Some (taken 0 sample_message))), s') \<and>
    round_of (RedisBroker_methods ref_ext 2) (reading_at 30001)
      \<lparr>sys_worker = flaky_worker, sys_app = 1, sys_broker = ref_conn (fst (srv (sys_broker s')))\<rparr> =
      (Inr (Some True), z') \<and>
    connected ref_ext fst (sys_broker z') db' \<and> sys_app z' = 2 \<and> succeeded_alone db' sample_message"
proof -
  let ?s = "\<lparr>sys_worker = flaky_worker, sys_app = 0, sys_broker = ref_conn pending_db\<rparr> :: (nat, mem_server conn) system"
  have ready: "ready sample_message 0" by (simp add: ready_def sample_policy)
  obtain s' where s': "Worker_poll (RedisBroker_methods ref_ext 2) 0 0 ?s = (Inr (Some (Some (taken 0 sample_message))), s')"
    using refx.poll_waiting [OF waiting_sample ready, of 2 0 ?s] by (auto simp: small_def)
  let ?z = "\<lparr>sys_worker = flaky_worker, sys_app = 1, sys_broker = ref_conn (fst (srv (sys_broker s')))\<rparr>
    :: (nat, mem_server conn) system"
  have ex: "TaskRegistry_Execute (w_registry (sys_worker ?z)) (m_name sample_message) (m_payload sample_message)
      (sys_app ?z) = (TaskResult_Success empty_object, 2)"
    by (simp add: flaky_worker_def Execute_registered flaky_handler_def)
  have d: "ComputeRetryDelayMs (m_retry_policy sample_message) (m_retry_count sample_message + 1) = Inr 1000"
    by (simp add: sample_policy default_first_delay)
  have "\<exists>z' db'. connected ref_ext fst (sys_broker z') db' \<and> sys_worker z' = sys_worker ?z \<and>
    (if at_tick (reading_at 30001) - 0 \<le> w_visibility_timeout (sys_worker ?z)
     then round_of (RedisBroker_methods ref_ext 2) (reading_at 30001) ?z = (Inr (Some False), z') \<and>
       sys_app z' = sys_app ?z \<and> running_alone (codec ref_ext) db' (taken 0 sample_message)
     else round_of (RedisBroker_methods ref_ext 2) (reading_at 30001) ?z = (Inr (Some True), z') \<and> sys_app z' = 2 \<and>
       settled_or_waiting (codec ref_ext) db' sample_message (TaskResult_Success empty_object) (at_retry (reading_at 30001)))"
    by (rule crash_recovery [OF refx.external_axioms waiting_sample ready _ _ _ s' _ _ _ _ _ ex _ _ d])
      (simp_all add: small_def timely_def reading_at_def elapsed_ms_def in_i64_def flaky_worker_def
        ThreadPool_create_def sample_policy RetryPolicy_default_def printable_def)
  then show ?thesis
    using s' by (auto simp: reading_at_def flaky_worker_def settled_or_waiting_def TaskResult_Success_def)
qed

section \<open>The late report of a slow worker\<close>

text \<open>
  C36: a worker that was only slow. \<open>Retry\<close> of a task that is not running any more, because it was
  reclaimed and is pending, running elsewhere or finished, schedules it all the same: the queues
  hold one copy more than before, and the status is \<open>retrying\<close> whatever the other copy does.
\<close>

theorem late_retry_adds_copy:
  assumes "external X view" and "connected X view c db" and "wf_db (codec X) db"
    and "map_of (hash_at db redis_kRunning) (TaskId_Value (m_id task)) = None"
    and "retry_message now task reason = Inr m'" and "storable m'"
    and "dump (codec X) (TaskMessage_ToJson m') = Inr t" and "t \<notin> fst ` set (zset_at db redis_kDelayed)"
  shows "\<exists>c' db'. RedisBroker_Retry X now task reason c = (Inr (), c') \<and> connected X view c' db' \<and>
    copies (abs_queue (codec X) db') (TaskId_Value (m_id task)) =
      Suc (copies (abs_queue (codec X) db) (TaskId_Value (m_id task))) \<and>
    fst (RedisBroker_GetStatus X (m_id task) c') = Inr (PR_Ok kRetrying)"
proof -
  let ?i = "TaskId_Value (m_id task)" and ?T = "codec X"
  let ?db1 = "exec ?T (RunRetry ?i t (the (m_run_at_ms m')) reason) db"
  note wt = external_wire [OF assms(1)]
  obtain db' where y: "yields X view (RedisBroker_Retry X now task reason) db (Inr ()) db'"
    and mo: "metrics_only ?db1 db'"
    using external.yields_Retry [OF assms(1,5,7)] by blast
  obtain c' where c': "RedisBroker_Retry X now task reason c = (Inr (), c')" "connected X view c' db'"
    using yieldsD [OF y assms(2)] by blast
  have "m_id m' = m_id task" using assms(5) by (auto simp: retry_message_def Let_def bind_sum_def split: sum.splits)
  then have good: "good_text ?T ?i t" using wire_text.storable_text [OF wt assms(6,7)] by simp
  have "?i \<notin> q_running (abs_queue ?T db)" using assms(4) by (simp add: abs_queue_def map_of_eq_None_iff)
  then have "copies (abs_queue ?T ?db1) ?i = Suc (copies (abs_queue ?T db) ?i)"
    unfolding wire_text.abs_RunRetry [OF wt assms(3) good] using assms(8) by (simp add: copies_def)
  moreover have "abs_queue ?T db' = abs_queue ?T ?db1"
    using mo by (simp add: metrics_only_def abs_queue_def key_simps del: exec.simps)
  moreover have "map_of (hash_at db' redis_kStatus) ?i = Some ''retrying''"
    using mo by (simp add: metrics_only_def wire_text.retry_db [OF wt] key_simps)
  then have "fst (RedisBroker_GetStatus X (m_id task) c') = Inr (PR_Ok kRetrying)"
    using yields_fst [OF external.yields_GetStatus [OF assms(1)] c'(2)] by (simp add: TaskStatusFromString_def)
  ultimately show ?thesis using c' by auto
qed

text \<open>The task is pending, and then it is both pending and delayed.\<close>

theorem late_retry_adds_copy_witness:
  "\<exists>c' db'. RedisBroker_Retry ref_ext 1000 (taken 0 sample_message) ''boom'' (ref_conn pending_db) = (Inr (), c') \<and>
    connected ref_ext fst c' db' \<and> copies (abs_queue ref_text db') (TaskId_Value (m_id sample_message)) = 2"
proof -
  let ?m = "retry_of sample_message ''boom'' 2000"
  have should: "ShouldRetry sample_message"
    by (simp add: ShouldRetry_def sample_policy RetryPolicy_default_def)
  have d: "ComputeRetryDelayMs (m_retry_policy sample_message) (m_retry_count sample_message + 1) = Inr 1000"
    by (simp add: sample_policy default_first_delay)
  have r: "retry_message 1000 (taken 0 sample_message) ''boom'' = Inr ?m" "deliverable ?m"
    using retry_taken [OF deliverable_sample should d, of 1000] by (simp_all add: small_def)
  have wf: "wf_db (codec ref_ext) pending_db" using waiting_sample by (simp add: waiting_def)
  have empty: "zset_at pending_db redis_kDelayed = []" "hash_at pending_db redis_kRunning = []"
    "list_at pending_db redis_kDead = []"
    using waiting_sample by (auto simp: waiting_def queued_alone_def sample_policy)
  have "copies (abs_queue ref_text pending_db) (TaskId_Value (m_id sample_message)) = 1"
    using good_text_id [OF ref_sample_text] by (simp add: copies_def abs_queue_def pending_db_def push_db key_simps)
  moreover have "dump (codec ref_ext) (TaskMessage_ToJson ?m) = Inr (ser (TaskMessage_ToJson ?m))" by simp
  ultimately show ?thesis
    using late_retry_adds_copy [OF refx.external_axioms ref_conn_connected wf _ r(1) deliverable_storable [OF r(2)]]
    by (auto simp: empty numeral_2_eq_2)
qed

end
