(* ===== verification/Schema_Version.thy ===== *)
theory Schema_Version
  imports Recovery Worker_Safety
begin

text \<open>
  Messages of another schema version, as a newer producer on the same server would write them. The
  scripts do not look at the version and reserve such a task; the parser then rejects it, and
  nothing settles it: whatever else is queued, no worker ever gets it, and it is never acknowledged
  or failed. When it is alone in the queues it goes back and forth between the pending list and the
  running table.
\<close>

text \<open>\<open>versioned T n i t\<close>: the text \<open>t\<close> is a task with identifier \<open>i\<close> and schema version \<open>n\<close>.\<close>

definition versioned_table :: "int \<Rightarrow> string \<Rightarrow> lua \<Rightarrow> bool" where
  "versioned_table n i v \<longleftrightarrow>
     object_table v \<and> wire_exact v \<and> lget v ''id'' = LStr i \<and>
     lget v ''schema_version'' = LNum (DFin (of_int n))"

definition versioned :: "text_ops \<Rightarrow> int \<Rightarrow> string \<Rightarrow> string \<Rightarrow> bool" where
  "versioned T n i t \<longleftrightarrow> (case cj_decode T t of Some v \<Rightarrow> versioned_table n i v | None \<Rightarrow> False)"

lemma versionedE:
  assumes "versioned T n i t"
  obtains v where "cj_decode T t = Some v" "versioned_table n i v"
  using assms by (auto simp: versioned_def split: option.splits)

lemma versioned_lset:
  assumes "versioned_table n i v" and "exact_scalar x" and "k \<notin> {''id'', ''schema_version''}"
  shows "versioned_table n i (lset k x v)"
proof -
  obtain fs where v: "v = LTable fs []" using assms(1) by (auto simp: versioned_table_def object_table_def)
  have all: "lua_all exact_num v" using assms(1) by (simp add: versioned_table_def wire_exact_def)
  have "lget (lset k x v) k' = (if k' = k then x else lget v k')" for k'
    using lget_lset [OF all] by (simp add: v)
  then show ?thesis
    using assms wire_exact_lset [of v x k] object_table_lset [of v k x] by (auto simp: versioned_table_def)
qed

lemma versioned_moves:
  assumes "versioned_table n i v"
  shows "small now \<Longrightarrow> versioned_table n i (running_table now v)" "versioned_table n i (reclaimed_table v)"
    "versioned_table n i (promoted_table v)" "versioned_table n i (dead_table reason v)"
    "versioned_table n i (revived_table v)"
  using assms by (auto simp: table_defs intro!: versioned_lset)

lemma versioned_task: "versioned_table n i v \<Longrightarrow> task_table i v"
  by (auto simp: versioned_table_def task_table_def object_table_def encodable_def wire_exact_def dest: lua_all_any)

lemma versioned_good: "versioned T n i t \<Longrightarrow> good_text T i t"
  by (auto simp: versioned_def good_text_def versioned_task split: option.splits)

text \<open>The parser's answer depends on the version alone.\<close>

lemma versioned_rejected:
  assumes "versioned_table n i v" and "to_i32 n \<noteq> kTaskSchemaVersion"
  shows "\<not> pr_Ok (TaskMessageFromJson (json_of_lua v))"
proof -
  obtain fs where v: "v = LTable fs []" using assms(1) by (auto simp: versioned_table_def object_table_def)
  have "json_find (json_of_lua v) ''schema_version'' = Some (JInt n)"
    using assms(1) by (auto simp: v versioned_table_def lget_def json_find_def map_of_fields split: option.splits)
  then have "\<not> pr_Ok (ParseTaskSchemaVersion (json_of_lua v))"
    using assms(2) by (auto simp: ParseTaskSchemaVersion_def contains_def Let_def)
  then show ?thesis by (simp add: TaskMessageFromJson_def Let_def pr_Ok_def)
qed

context wire_text
begin

lemma versioned_recode:
  assumes "cj_decode T t = Some v" and "versioned_table n i (f v)"
  shows "cj_decode T (recode T f t) = Some (f v)" "versioned T n i (recode T f t)"
    "parse T (recode T f t) = Inr (json_of_lua (f v))"
  using encode_exact [of "f v"] assms by (auto simp: recode_def versioned_def versioned_table_def)

end

text \<open>The one task of the queues has schema version \<open>n\<close>; it is pending, or running with a reservation time.\<close>

definition version_alone :: "text_ops \<Rightarrow> int \<Rightarrow> string \<Rightarrow> redis_db \<Rightarrow> bool" where
  "version_alone T n i db \<longleftrightarrow>
     wf_db T db \<and> zset_at db redis_kDelayed = [] \<and> list_at db redis_kDead = [] \<and> timed T db \<and>
     (\<exists>t. versioned T n i t \<and>
        (list_at db redis_kPending = [t] \<and> hash_at db redis_kRunning = [] \<or>
         list_at db redis_kPending = [] \<and> hash_at db redis_kRunning = [(i, t)]))"

context external
begin

lemma tick_version:
  assumes "version_alone T n i db"
  shows "\<exists>db'. yields X view (RunSchedulerTick (RedisBroker_methods X (Suc fuel)) now timeout) db (Inr (Some ())) db' \<and>
    version_alone T n i db'"
proof -
  obtain t where t: "versioned T n i t" and wf: "wf_db T db" "timed T db"
    and q: "zset_at db redis_kDelayed = []" "list_at db redis_kDead = []"
      "list_at db redis_kPending = [t] \<and> hash_at db redis_kRunning = [] \<or>
       list_at db redis_kPending = [] \<and> hash_at db redis_kRunning = [(i, t)]"
    using assms by (auto simp: version_alone_def)
  obtain v where v: "cj_decode T t = Some v" "versioned_table n i v" by (rule versionedE [OF t])
  note again = versioned_recode(2) [OF v(1), of n i reclaimed_table, OF versioned_moves(2) [OF v(2)]]
  obtain k db' where db': "yields X view (RedisBroker_ReclaimStaleTasks X now timeout) db (Inr k) db'" "wf_db T db'"
    "reclaims T (filter (\<lambda>p. is_stale T now timeout (snd p)) (umap_order X (hash_at db redis_kRunning))) db db'"
    "hash_at db' redis_kRunning = filter (\<lambda>p. \<not> is_stale T now timeout (snd p)) (hash_at db redis_kRunning)"
    using yields_ReclaimStaleTasks [OF wf] by blast
  have "due now db = []" by (simp add: due_def q(1))
  note p = promote_loop_none [OF wf(1) this, of fuel]
  have r: "yields X view (then_io (RedisBroker_ReclaimStaleTasks X now timeout) (ret (Some ()))) db (Inr (Some ())) db'"
    by (rule yields_then [OF db'(1) yields_pure(1)])
  have "yields X view (RunSchedulerTick (RedisBroker_methods X (Suc fuel)) now timeout) db (Inr (Some ())) db'"
    unfolding RunSchedulerTick_def RedisBroker_methods_simps RedisBroker_PromoteDueTasks_def
    by (rule yields_bind [OF p]) (simp add: r)
  moreover have "timed T db'" using wf(2) db'(4) by (auto simp: timed_def)
  ultimately show ?thesis
    using db' q t again by (intro exI [of _ db']) (auto simp: version_alone_def reclaims_def split: if_splits)
qed

lemma reserve_version:
  assumes "version_alone T n i db" and "to_i32 n \<noteq> kTaskSchemaVersion" and "small now"
  shows "\<exists>db'. yields X view (RedisBroker_Reserve X now) db (Inr None) db' \<and> version_alone T n i db'"
proof (cases "list_at db redis_kPending = []")
  case True
  then show ?thesis using assms(1) yields_Reserve_empty by blast
next
  case False
  then obtain t where t: "versioned T n i t" "list_at db redis_kPending = [t]" "hash_at db redis_kRunning = []"
    and wf: "wf_db T db" "zset_at db redis_kDelayed = []" "list_at db redis_kDead = []"
    using assms(1) by (auto simp: version_alone_def)
  obtain v where v: "cj_decode T t = Some v" "versioned_table n i v" by (rule versionedE [OF t(1)])
  let ?u = "recode T (running_table now) t"
  note u = versioned_recode [OF v(1), of n i "running_table now", OF versioned_moves(1) [OF v(2) assms(3)]]
  obtain res where res: "TaskMessageFromJsonString T ?u = Inr res" "\<not> pr_Ok res"
    using u(3) versioned_rejected [OF versioned_moves(1) [OF v(2) assms(3)] assms(2)]
    by (simp add: TaskMessageFromJsonString_def)
  note good = versioned_good [OF t(1)] and now = small_i64 [OF assms(3)]
  have pend: "list_at db redis_kPending = [] @ [t]" by (simp add: t(2))
  have "yields X view (RedisBroker_Reserve X now) db (Inr None) (exec T (RunReserve now) db)"
    using yields_Reserve [OF pend good now res(1)] res(2) by simp
  moreover have "wf_db T (exec T (RunReserve now) db)"
    using server_step_sim [OF step_request wf(1), of "RunReserve now"] now by (simp add: simulates_def)
  moreover have "timed T (exec T (RunReserve now) db)"
    using running_text_time [OF good assms(3)]
    by (auto simp: timed_def reserve_db [OF pend good now] t(3) key_simps reserved_at_def)
  ultimately show ?thesis
    using u(2) wf t(3)
    by (intro exI [of _ "exec T (RunReserve now) db"])
      (auto simp: version_alone_def reserve_db [OF pend good now] key_simps)
qed

lemma version_round:
  assumes "version_alone T n i db" and "to_i32 n \<noteq> kTaskSchemaVersion" and "timely r" and "0 < fuel"
    and "connected X view (sys_broker z) db"
  shows "\<exists>b db'. round_of (RedisBroker_methods X fuel) r z = (Inr (Some False), z\<lparr>sys_broker := b\<rparr>) \<and>
    connected X view b db' \<and> version_alone T n i db'"
proof -
  obtain k where k: "fuel = Suc k" using assms(4) gr0_conv_Suc by blast
  let ?tick = "RunSchedulerTick (RedisBroker_methods X fuel) (at_tick r) (w_visibility_timeout (sys_worker z))"
  obtain db1 where db1: "yields X view ?tick db (Inr (Some ())) db1" "version_alone T n i db1"
    using tick_version [OF assms(1)] k by blast
  obtain db2 where db2: "yields X view (RedisBroker_Reserve X (at_reserve r)) db1 (Inr None) db2" "version_alone T n i db2"
    using reserve_version [OF db1(2) assms(2)] assms(3) by (auto simp: timely_def)
  have "yields X view (bind_io ?tick (\<lambda>ticked. case ticked of None \<Rightarrow> ret None
      | Some _ \<Rightarrow> bind_io (RedisBroker_Reserve X (at_reserve r)) (\<lambda>task. ret (Some task)))) db (Inr (Some None)) db2"
    by (rule yields_bind [OF db1(1)]) (simp only: option.case, rule yields_bind [OF db2(1) yields_pure(1)])
  from on_broker_yields [OF this assms(5)] show ?thesis
    using db2(2)
    by (auto simp: round_of_def Worker_RunOnce_def Worker_poll_def bind_io_def ret_def cong: option.case_cong)
qed

end

text \<open>
  A task of another schema version that is alone in the queues: however often \<open>RunOnce\<close> is called,
  with whatever clock readings and visibility timeout, every call returns false and runs no
  handler.
\<close>

theorem other_version_alone:
  assumes "external X view" and "connected X view (sys_broker s) db" and "version_alone (codec X) n i db"
    and "to_i32 n \<noteq> kTaskSchemaVersion" and "list_all timely rs" and "0 < fuel"
  shows "\<exists>s' db'. rounds (RedisBroker_methods X fuel) rs s = (Inr (replicate (length rs) (Some False)), s') \<and>
    connected X view (sys_broker s') db' \<and> sys_app s' = sys_app s \<and> version_alone (codec X) n i db'"
  using assms(2,3,5)
proof (induction rs arbitrary: s db)
  case Nil
  then show ?case by (auto simp: ret_def)
next
  case (Cons r rs)
  then have r: "timely r" "list_all timely rs" by simp_all
  obtain b db1 where b: "round_of (RedisBroker_methods X fuel) r s = (Inr (Some False), s\<lparr>sys_broker := b\<rparr>)"
    "connected X view b db1" "version_alone (codec X) n i db1"
    using external.version_round [OF assms(1) Cons.prems(2) assms(4) r(1) assms(6) Cons.prems(1)] by blast
  from Cons.IH [of "s\<lparr>sys_broker := b\<rparr>" db1] b r(2) show ?case by (auto simp: bind_io_def ret_def)
qed

text \<open>Version 2: reserved at time 1000, left alone at 2000, reclaimed and reserved again at 40000.\<close>

definition version2_text :: string where
  "version2_text = ser (JObject [(''id'', JString ''x''), (''schema_version'', JInt 2)])"

lemma smap_pair: "smap [(''id'', x), (''schema_version'', y)]"
  by code_simp

lemma version2_versioned: "versioned ref_text 2 ''x'' version2_text"
proof -
  let ?j = "JObject [(''id'', JString ''x''), (''schema_version'', JInt 2)]"
  have "cj_decode ref_text version2_text = Some (lua_of_json ?j)"
    unfolding version2_text_def by (rule ref.decode_dump) (simp_all add: lua_depth_1000 smap_pair)
  moreover have "double_of_int 2 = DFin 2" using double_of_int_exact [of 2] by simp
  moreover have "exact_num 2" using exact_small [of 2] by (simp add: small_def)
  moreover have "rnd 2 = DFin 2" using rnd_int [of 2] by simp
  ultimately show ?thesis
    by (simp add: versioned_def versioned_table_def object_table_def wire_exact_def lua_depth_1000 lget_def smap_pair)
qed

theorem other_version_alone_witness:
  "\<exists>s' db'. rounds (RedisBroker_methods ref_ext 2) [reading_at 1000, reading_at 2000, reading_at 40000]
      \<lparr>sys_worker = flaky_worker, sys_app = 0,
       sys_broker = ref_conn (put_list redis_kPending [version2_text] empty_db)\<rparr> =
      (Inr [Some False, Some False, Some False], s') \<and>
    connected ref_ext fst (sys_broker s') db' \<and> version_alone ref_text 2 ''x'' db'"
proof -
  let ?db = "put_list redis_kPending [version2_text] empty_db"
  have "version_alone (codec ref_ext) 2 ''x'' ?db"
    using version2_versioned good_sound [OF versioned_good [OF version2_versioned]]
    by (auto simp: version_alone_def wf_db_def filed_def timed_def key_simps)
  then show ?thesis
    using other_version_alone [OF refx.external_axioms, of
      "\<lparr>sys_worker = flaky_worker, sys_app = 0, sys_broker = ref_conn ?db\<rparr>" ?db 2 "''x''"
      "[reading_at 1000, reading_at 2000, reading_at 40000]" 2]
    by (auto simp: ref_conn_connected timely_def reading_at_def small_def elapsed_ms_def in_i64_def
        kTaskSchemaVersion_def in_i32_def numeral_3_eq_3 simp del: rounds.simps)
qed

section \<open>Among other tasks\<close>

text \<open>
  \<open>foreign T O1 n i db\<close>: the queues hold tasks of \<open>O1\<close>, which the parser accepts, and texts of the task
  \<open>i\<close> of schema version \<open>n\<close>; that task is pending, delayed or running, not dead and without a result.
\<close>

definition foreign :: "text_ops \<Rightarrow> task_origins \<Rightarrow> int \<Rightarrow> string \<Rightarrow> redis_db \<Rightarrow> bool" where
  "foreign T O1 n i db \<longleftrightarrow>
     wf_db T db \<and> (\<forall>t \<in> queue_texts db. text_from T O1 t \<or> versioned T n i t) \<and>
     unsettled i (abs_queue T db)"

text \<open>Requests that do not settle \<open>i\<close> and bring only such texts.\<close>

fun settles :: "string \<Rightarrow> request \<Rightarrow> bool" where
  "settles i (RunAck j t) = (j = i)"
| "settles i (RunFail j reason) = (j = i)"
| "settles i _ = False"

definition bystander :: "text_ops \<Rightarrow> task_origins \<Rightarrow> int \<Rightarrow> string \<Rightarrow> request \<Rightarrow> bool" where
  "bystander T O1 n i r \<longleftrightarrow>
     valid_request T r \<and> request_time r \<and>
     (\<forall>t \<in> request_texts r. text_from T O1 t \<or> versioned T n i t) \<and> \<not> settles i r"

lemma carrying_bystander: "carrying T O1 r \<Longrightarrow> \<not> settles i r \<Longrightarrow> bystander T O1 n i r"
  by (simp add: carrying_def bystander_def)

text \<open>
  The other clients and workers: they use the broker as before, with the tasks of \<open>O1\<close>; producers of
  the other version may push the task \<open>i\<close> again; nobody acknowledges or fails a task he was never given.
\<close>

fun call_settles :: "string \<Rightarrow> broker_call \<Rightarrow> bool" where
  "call_settles i (CallAck j) = (TaskId_Value j = i)"
| "call_settles i (CallFail j reason) = (TaskId_Value j = i)"
| "call_settles i _ = False"

inductive bystander_step ::
    "'s ext \<Rightarrow> ('s \<Rightarrow> redis_db) \<Rightarrow> task_origins \<Rightarrow> int \<Rightarrow> string \<Rightarrow> 's \<Rightarrow> 's \<Rightarrow> bool" for X view O1 n i where
  by_call: "carrying_call O1 cl \<Longrightarrow> \<not> call_settles i cl \<Longrightarrow> loaded X c \<Longrightarrow>
    bystander_step X view O1 n i (srv c) (srv (snd (run_call X cl c)))"
| by_other: "bystander (codec X) O1 n i r \<Longrightarrow> view s' = exec (codec X) r (view s) \<Longrightarrow>
    bystander_step X view O1 n i s s'"
| by_cache: "view s' = view s \<Longrightarrow> bystander_step X view O1 n i s s'"

definition bystanders ::
    "'s ext \<Rightarrow> ('s \<Rightarrow> redis_db) \<Rightarrow> task_origins \<Rightarrow> int \<Rightarrow> string \<Rightarrow> 's conn \<Rightarrow> 's conn \<Rightarrow> bool" where
  "bystanders X view O1 n i c c' \<longleftrightarrow> shas c' = shas c \<and> bystander_step X view O1 n i (srv c) (srv c')"

lemma settles_op: "\<not> settles i r \<Longrightarrow> qop_of T db r \<noteq> QAck i \<and> qop_of T db r \<noteq> QFail i"
  by (cases r) (auto split: list.splits option.splits)

context wire_text
begin

lemma kept_disj: "kept T P \<Longrightarrow> kept T Q \<Longrightarrow> kept T (\<lambda>t. P t \<or> Q t)"
  by (auto simp: kept_def)

lemma versioned_kept: "kept T (versioned T n i)"
  unfolding kept_def
proof (intro allI impI)
  fix t assume "versioned T n i t"
  then obtain v where v: "cj_decode T t = Some v" "versioned_table n i v" by (rule versionedE)
  show "(\<forall>now. small now \<longrightarrow> versioned T n i (recode T (running_table now) t)) \<and>
      versioned T n i (recode T promoted_table t) \<and> versioned T n i (recode T reclaimed_table t) \<and>
      (\<forall>reason. versioned T n i (recode T (dead_table reason) t)) \<and> versioned T n i (recode T revived_table t)"
    using versioned_moves [OF v(2)] by (intro conjI allI impI versioned_recode(2) [OF v(1)])
qed

lemma exec_foreign:
  assumes "bystander T O1 n i r" and "foreign T O1 n i db"
  shows "foreign T O1 n i (exec T r db)"
proof -
  have db: "wf_db T db" "\<forall>t \<in> queue_texts db. text_from T O1 t \<or> versioned T n i t"
    "unsettled i (abs_queue T db)" and r: "valid_request T r" "\<not> settles i r"
    using assms by (simp_all add: foreign_def bystander_def)
  have impl: "wf_db T (exec T r db)" "abs_queue T (exec T r db) = qapply (qop_of T db r) (abs_queue T db)"
    using exec_implements [OF r(1) db(1)] by (simp_all add: implements_def)
  moreover have "\<forall>t \<in> queue_texts (exec T r db). text_from T O1 t \<or> versioned T n i t"
    using exec_texts [OF kept_disj [OF text_from_kept versioned_kept] db(1,2) r(1)] assms(1)
    by (simp add: bystander_def)
  ultimately show ?thesis
    using qapply_unsettled [OF db(3)] settles_op [OF r(2)] unfolding foreign_def by metis
qed

lemma versioned_reserve:
  assumes "list_at db redis_kPending = ts @ [u]" and "versioned T n i u" and "to_i32 n \<noteq> kTaskSchemaVersion"
    and "small now"
    and "kReserveScript (dbx T) redis_kPending redis_kRunning redis_kStatus now db = (Inr (RBulk t), db')"
  shows "TaskMessageFromJsonString T t \<noteq> Inr (PR_Ok m)"
proof -
  obtain v where v: "cj_decode T u = Some v" "versioned_table n i v" by (rule versionedE [OF assms(2)])
  note run = versioned_moves(1) [OF v(2) assms(4)]
  have "t = recode T (running_table now) u"
    using assms(5) reserve_db [OF assms(1) versioned_good [OF assms(2)] small_i64 [OF assms(4)]] by simp
  then show ?thesis
    using versioned_recode(3) [OF v(1), of n i "running_table now", OF run] versioned_rejected [OF run assms(3)]
    by (auto simp: TaskMessageFromJsonString_def pr_Ok_iff)
qed

end

context external
begin

lemma foreign_invariant: "request_invariant X view (foreign T O1 n i) (bystander T O1 n i)"
proof unfold_locales
  show "foreign T O1 n i (exec T r db)" if "bystander T O1 n i r" "foreign T O1 n i db" for r db
    using exec_foreign that .
  show "bystander T O1 n i r" if "request_free r" for r using that by (cases r) (simp_all add: bystander_def)
qed

text \<open>What \<open>Reserve\<close> hands out is one of the other tasks.\<close>

lemma Reserve_foreign:
  assumes "conn_inv X view (foreign T O1 n i) c" and "to_i32 n \<noteq> kTaskSchemaVersion" and "small now"
    and "RedisBroker_Reserve X now c = (Inr (Some m), c')"
  shows "genuine O1 m"
proof -
  have "bystander T O1 n i (RunReserve now)" using assms(3) small_i64 by (simp add: bystander_def)
  from Reserve_reads [OF foreign_invariant this assms(1,4)] obtain db ts u t db' where
    db: "foreign T O1 n i db" and u: "list_at db redis_kPending = ts @ [u]"
    and run: "kReserveScript (dbx T) redis_kPending redis_kRunning redis_kStatus now db = (Inr (RBulk t), db')"
    and parsed: "TaskMessageFromJsonString T t = Inr (PR_Ok m)" .
  have "text_from T O1 u"
    using db u versioned_reserve [OF u _ assms(2,3) run] parsed by (auto simp: foreign_def queue_texts_def)
  from reserve_from [OF u this assms(3) run] show ?thesis
    using parsed by (fastforce simp: carries_def genuine_def)
qed

lemma foreign_contract:
  assumes "timed_origins clock O1" and "\<forall>origin \<in> O1. TaskId_Value (fst origin) \<noteq> i"
    and "to_i32 n \<noteq> kTaskSchemaVersion"
  shows "broker_contract (RedisBroker_methods X) (conn_inv X view (foreign T O1 n i)) (genuine O1) clock"
proof (rule invariant_contract [OF foreign_invariant])
  fix m assume "genuine O1 m"
  then have "TaskId_Value (m_id m) \<noteq> i" using assms(2) by (auto simp: genuine_def task_origin_def)
  then show "bystander T O1 n i (RunAck (TaskId_Value (m_id m)) t)"
    "bystander T O1 n i (RunFail (TaskId_Value (m_id m)) reason)" for t reason
    by (simp_all add: carrying_bystander carrying_settle)
next
  fix now c m c'
  assume "clock now" "conn_inv X view (foreign T O1 n i) c" "RedisBroker_Reserve X now c = (Inr (Some m), c')"
  then show "genuine O1 m" using Reserve_foreign [OF _ assms(3)] assms(1) by (auto simp: timed_origins_def)
qed (use assms(1) in \<open>auto intro: carrying_bystander carrying_reserve carrying_retry\<close>)

lemma bystander_call_ok:
  assumes "carrying_call O1 cl" and "\<not> call_settles i cl"
  shows "call_ok T (bystander T O1 n i) cl"
  using carrying_call_ok [OF assms(1)] assms(2)
  by (cases cl) (auto intro!: carrying_bystander simp: enqueue_request_def)

lemma bystander_foreign:
  assumes "bystander_step X view O1 n i s s'" and "foreign T O1 n i (view s)"
  shows "foreign T O1 n i (view s')"
  using assms keepsD [OF request_invariant.keeps_call [OF foreign_invariant bystander_call_ok]] exec_foreign
  by (induction rule: bystander_step.induct) (auto simp: conn_inv_def)

end

text \<open>
  C34: a task of another schema version is never handed out and never settled. It is queued among
  tasks of the version the code knows; a worker runs, other workers and clients work on the same
  server, connections lose messages, \<open>Stop\<close> may be called. At every moment the task is pending, delayed
  or running, it is not among the dead tasks and has no result, and it is none of the tasks the
  worker has reserved.
\<close>

theorem other_version_never_settled:
  assumes "external X view" and "timed_origins clock O1" and "\<forall>origin \<in> O1. TaskId_Value (fst origin) \<noteq> i"
    and "to_i32 n \<noteq> kTaskSchemaVersion" and "fresh_run k z0" and "loaded X (sys_broker (run_sys z0))"
    and "foreign (codec X) O1 n i (view (srv (sys_broker (run_sys z0))))"
    and "worker_run (RedisBroker_methods X) clock (bystanders X view O1 n i) z0 es z"
  shows "foreign (codec X) O1 n i (view (srv (sys_broker (run_sys z)))) \<and>
    (\<forall>m \<in> set (reserved es). TaskId_Value (m_id m) \<noteq> i)"
proof -
  let ?J = "conn_inv X view (foreign (codec X) O1 n i)"
  have "?J c'" if "bystanders X view O1 n i c c'" "?J c" for c c'
    using that external.bystander_foreign [OF assms(1)] by (auto simp: bystanders_def conn_inv_def loaded_def)
  then have "?J (sys_broker (run_sys z)) \<and> (\<forall>m \<in> set (reserved es). genuine O1 m)"
    using broker_contract.worker_run_safe [OF external.foreign_contract [OF assms(1-4)] assms(8,5)] assms(6,7)
    by (auto simp: conn_inv_def)
  then show ?thesis using assms(3) by (fastforce simp: conn_inv_def genuine_def task_origin_def)
qed

text \<open>
  A worker that has not begun, a task of version 2 and a task of version 1. Another worker reserves the
  former at time 1000, a third one reclaims it at 40000, and it is reserved again.
\<close>

definition mixed_db :: redis_db where
  "mixed_db = put_list redis_kPending [ser (TaskMessage_ToJson sample_message), version2_text] empty_db"

definition mixed_start :: "redis_db \<Rightarrow> (nat, mem_server conn) run_state" where
  "mixed_start db =
     \<lparr>run_sys = \<lparr>sys_worker = flaky_worker, sys_app = 0, sys_broker = ref_conn db\<rparr>, run_pc = AtBegin\<rparr>"

lemma mixed_start_simps:
  "fresh_run 1 (mixed_start db)" "loaded ref_ext (sys_broker (run_sys (mixed_start db)))"
  "fst (srv (sys_broker (run_sys (mixed_start db)))) = db"
  using fresh_sample loaded_ref_conn [of db] ref_conn_connected [of db]
  by (simp_all add: mixed_start_def sample_start_def fresh_run_def pool_of_def connected_def)

lemma mixed_foreign: "foreign (codec ref_ext) {task_origin sample_message} 2 ''x'' mixed_db"
proof -
  let ?t = "ser (TaskMessage_ToJson sample_message)"
  have t: "text_from (codec ref_ext) {task_origin sample_message} ?t \<and>
      good_text (codec ref_ext) (TaskId_Value (m_id sample_message)) ?t"
    by (rule refx.carrying_text [OF deliverable_sample]) simp_all
  have "text_id ref_text version2_text = ''x''"
    by (rule good_text_id [OF versioned_good [OF version2_versioned]])
  then show ?thesis
    using t good_sound [OF versioned_good [OF version2_versioned]] version2_versioned good_sound
    by (auto simp: foreign_def mixed_db_def wf_db_def filed_def queue_texts_def unsettled_def live_def
        abs_queue_def key_simps)
qed

lemma bystander_run:
  "list_all (bystander ref_text O1 n i) rs \<Longrightarrow>
   worker_run B clock (bystanders ref_ext fst O1 n i) (mixed_start db) [] (mixed_start (fold (exec ref_text) rs db))"
proof (induction rs rule: rev_induct)
  case Nil
  then show ?case by (simp add: run_start)
next
  case (snoc r rs)
  let ?z = "\<lambda>rs. mixed_start (fold (exec ref_text) rs db)"
  have "bystanders ref_ext fst O1 n i (sys_broker (run_sys (?z rs))) (sys_broker (run_sys (?z (rs @ [r]))))"
    using snoc.prems mixed_start_simps(3) by_other [of ref_ext O1 n i r fst]
    by (simp add: bystanders_def mixed_start_def ref_conn_def del: exec.simps)
  then have "run_step B clock (bystanders ref_ext fst O1 n i) Outside (?z rs) []
      ((?z rs)\<lparr>run_sys := (run_sys (?z rs))\<lparr>sys_broker := sys_broker (run_sys (?z (rs @ [r])))\<rparr>\<rparr>)"
    by (intro others) (simp add: mixed_start_def)
  then have "run_step B clock (bystanders ref_ext fst O1 n i) Outside (?z rs) [] (?z (rs @ [r]))"
    by (simp add: mixed_start_def del: exec.simps)
  from run_next [OF _ this] snoc show ?case by simp
qed

theorem other_version_never_settled_witness:
  "unsettled ''x'' (abs_queue ref_text
     (fold (exec ref_text) [RunReserve 1000, RunReclaimOne ''x'' 40000 30000, RunReserve 50000] mixed_db))"
proof -
  let ?rs = "[RunReserve 1000, RunReclaimOne ''x'' 40000 30000, RunReserve 50000]"
  let ?O = "{task_origin sample_message}"
  have "list_all (bystander ref_text ?O 2 ''x'') ?rs" by (simp add: bystander_def in_i64_def small_def)
  from bystander_run [OF this, of "RedisBroker_methods ref_ext" sample_clock mixed_db]
  have run: "worker_run (RedisBroker_methods ref_ext) sample_clock (bystanders ref_ext fst ?O 2 ''x'')
      (mixed_start mixed_db) [] (mixed_start (fold (exec ref_text) ?rs mixed_db))" .
  have id: "\<forall>origin \<in> ?O. TaskId_Value (fst origin) \<noteq> ''x''"
    by (simp add: task_origin_def sample_message_def TaskMessage_Create_def) code_simp
  have other: "to_i32 2 \<noteq> kTaskSchemaVersion" by (simp add: kTaskSchemaVersion_def in_i32_def)
  have start: "foreign (codec ref_ext) ?O 2 ''x'' (fst (srv (sys_broker (run_sys (mixed_start mixed_db)))))"
    unfolding mixed_start_simps(3) by (rule mixed_foreign)
  from other_version_never_settled [OF refx.external_axioms timed_sample id other mixed_start_simps(1,2) start run]
  show ?thesis by (simp add: foreign_def mixed_start_simps(3) del: exec.simps)
qed

end
