(* ===== verification/Malformed.thy ===== *)
theory Malformed
  imports Outcomes
begin

text \<open>
  Texts in the queues that the scripts cannot read. The operations of this program never store one
  (theories Queue_Refine and Message_Flow); another client of the server may. Reserving such a
  text and promoting it both remove it for good, and the promotion loop stops there.
\<close>

definition unreadable :: "text_ops \<Rightarrow> string \<Rightarrow> bool" where
  "unreadable T t \<longleftrightarrow>
     (case cj_decode T t of None \<Rightarrow> True | Some msg \<Rightarrow> \<not> is_table msg \<or> \<not> truthy (lget msg ''id''))"

context external
begin

lemma reserve_unreadable:
  assumes "list_at db redis_kPending = ts @ [t]" and "unreadable T t"
  shows "kReserveScript (dbx T) redis_kPending redis_kRunning redis_kStatus now db =
    (Inr RNil, put_list redis_kPending ts db)"
  using assms
  by (auto simp: kReserveScript_def on_db unreadable_def split: option.splits)

lemma promote_unreadable:
  assumes "due now db = (t, sc) # rest" and "unreadable T t"
  shows "kPromoteOneScript (dbx T) redis_kDelayed redis_kPending redis_kStatus now st db =
    (Inr (RInt 0), put_zset redis_kDelayed (filter (\<lambda>p. fst p \<noteq> t) (zset_at db redis_kDelayed)) db)"
proof -
  have "(t, sc) \<in> set (zset_at db redis_kDelayed)" using arg_cong [OF assms(1), of set] by (auto simp: due_def)
  then have "map_of (zset_at db redis_kDelayed) t \<noteq> None" using weak_map_of_SomeI by fastforce
  then show ?thesis
    using assms
    by (auto simp: kPromoteOneScript_def on_db unreadable_def due_def split: option.splits)
qed

lemma yields_Reserve_unreadable:
  assumes "list_at db redis_kPending = ts @ [t]" and "unreadable T t"
  shows "yields X view (RedisBroker_Reserve X now) db (Inr None) (put_list redis_kPending ts db)"
proof -
  have "yields X view (RedisScripts_Reserve X now) db (Inr None) (put_list redis_kPending ts db)"
    unfolding RedisScripts_Reserve_def
    using reserve_unreadable [OF assms]
    by (intro yields_script [where r = RNil
          and n = "kReserveScript (dbx T) redis_kPending redis_kRunning redis_kStatus now"])
      (simp_all add: sim_kReserve key_simps)
  then show ?thesis unfolding RedisBroker_Reserve_def by (rule yields_bind) (simp add: yields_pure(1))
qed

lemma yields_Promote_unreadable:
  assumes "due now db = (t, sc) # rest" and "unreadable T t" and "0 < fuel"
  shows "yields X view (RedisBroker_PromoteDueTasks X fuel now) db (Inr (Some ()))
    (put_zset redis_kDelayed (filter (\<lambda>p. fst p \<noteq> t) (zset_at db redis_kDelayed)) db)"
proof -
  obtain n where n: "fuel = Suc n" using assms(3) by (cases fuel) auto
  let ?n = "kPromoteOneScript (dbx T) redis_kDelayed redis_kPending redis_kStatus now (TaskStatusToString kPending)"
  have "yields X view (RedisScripts_PromoteOneDueTask X now) db (Inr 0)
      (put_zset redis_kDelayed (filter (\<lambda>p. fst p \<noteq> t) (zset_at db redis_kDelayed)) db)"
    unfolding RedisScripts_PromoteOneDueTask_def
    using promote_unreadable [OF assms(1,2), of "TaskStatusToString kPending"]
    by (intro yields_script [where r = "RInt 0" and n = ?n]) (simp_all add: sim_kPromoteOne key_simps to_i32_def)
  then show ?thesis
    unfolding RedisBroker_PromoteDueTasks_def n promote_loop.simps by (rule yields_bind) (simp add: yields_pure(1))
qed

end

text \<open>
  C39: a text that the scripts cannot read is dropped. When the next pending text is no JSON table
  with an identifier, \<open>Reserve\<close> returns nothing although further tasks may be waiting, and the
  text is gone from every queue.
\<close>

theorem Reserve_drops_unreadable:
  assumes "external X view" and "connected X view c db" and "list_at db redis_kPending = ts @ [t]"
    and "unreadable (codec X) t"
  shows "\<exists>c' db'. RedisBroker_Reserve X now c = (Inr None, c') \<and> connected X view c' db' \<and>
    list_at db' redis_kPending = ts \<and> list_at db' redis_kDead = list_at db redis_kDead \<and>
    zset_at db' = zset_at db \<and> hash_at db' = hash_at db"
  using yieldsD [OF external.yields_Reserve_unreadable [OF assms(1,3,4)] assms(2)]
  by (fastforce simp: key_simps)

theorem Reserve_drops_unreadable_witness:
  "\<exists>c' db'. RedisBroker_Reserve ref_ext 5 (ref_conn (put_list redis_kPending [''bad''] empty_db)) = (Inr None, c') \<and>
     connected ref_ext fst c' db' \<and> list_at db' redis_kPending = []"
proof -
  have "deser ''bad'' = None" by code_simp
  then have "unreadable (codec ref_ext) ''bad''" by (simp add: unreadable_def ref_text_def)
  from Reserve_drops_unreadable [OF refx.external_axioms ref_conn_connected _ this,
      of "put_list redis_kPending [''bad''] empty_db" "[]" 5]
  show ?thesis by auto
qed

text \<open>
  C40: the scheduler stops at such a text. When the earliest due member of the delayed set cannot be
  read, \<open>PromoteDueTasks\<close> removes it and returns: the tasks that are due after it stay in the
  delayed set until the next tick.
\<close>

theorem Promote_stops_at_unreadable:
  assumes "external X view" and "connected X view c db" and "due now db = (t, sc) # rest"
    and "unreadable (codec X) t" and "distinct (map fst (zset_at db redis_kDelayed))" and "0 < fuel"
  shows "\<exists>c' db'. RedisBroker_PromoteDueTasks X fuel now c = (Inr (Some ()), c') \<and> connected X view c' db' \<and>
    due now db' = rest \<and> list_at db' = list_at db \<and> hash_at db' = hash_at db"
proof -
  let ?db = "put_zset redis_kDelayed (filter (\<lambda>p. fst p \<noteq> t) (zset_at db redis_kDelayed)) db"
  have "due now ?db = rest"
    using drop_key_due(1) [OF assms(5) assms(3) [unfolded due_def]] by (simp add: due_def)
  then show ?thesis
    using yieldsD [OF external.yields_Promote_unreadable [OF assms(1,3,4,6)] assms(2)] by fastforce
qed

theorem Promote_stops_at_unreadable_witness:
  "\<exists>c' db'. RedisBroker_PromoteDueTasks ref_ext 3 9
       (ref_conn (put_zset redis_kDelayed [(''bad'', 1), (''later'', 2)] empty_db)) = (Inr (Some ()), c') \<and>
     connected ref_ext fst c' db' \<and> due 9 db' = [(''later'', 2)]"
proof -
  let ?db = "put_zset redis_kDelayed [(''bad'', 1), (''later'', 2)] empty_db"
  have "deser ''bad'' = None" by code_simp
  then have "unreadable (codec ref_ext) ''bad''" by (simp add: unreadable_def ref_text_def)
  moreover have "due 9 ?db = [(''bad'', 1), (''later'', 2)]"
    by (simp add: due_def score_of_def double_of_int_exact)
  ultimately show ?thesis
    using Promote_stops_at_unreadable [OF refx.external_axioms ref_conn_connected, of 9 ?db "''bad''" 1 "[(''later'', 2)]" 3]
    by fastforce
qed

end
