(* ===== verification/Metrics_Equiv.thy ===== *)
theory Metrics_Equiv
  imports Broker_Effects
begin

text \<open>
  Two ways to keep metrics: the collector in memory (src/metrics.cc) and the hash in Redis
  (\<open>RecordCounter\<close>, \<open>RecordDurationMs\<close> and \<open>CollectMetrics\<close> of src/redis_broker.cc). Read back, the hash
  changes as the collector does.
\<close>

text \<open>The metrics stored in a keyspace, as \<open>CollectMetrics\<close> reads them before it adds the live gauges.\<close>

definition metrics_of :: "'s ext \<Rightarrow> redis_db \<Rightarrow> exn + MetricsSnapshot" where
  "metrics_of X db = collect_entries MetricsSnapshot_empty (umap_order X (hash_at db redis_kMetrics))"

definition field_value :: "int \<Rightarrow> (string \<times> string) list \<Rightarrow> string \<Rightarrow> int" where
  "field_value d es f =
     (case map_of es f of None \<Rightarrow> d | Some t \<Rightarrow> (case stoll t of Inr v \<Rightarrow> v | Inl _ \<Rightarrow> d))"

definition histogram_in :: "MetricsSnapshot \<Rightarrow> string \<Rightarrow> DurationHistogram" where
  "histogram_in m n = map_ref DurationHistogram_default (histograms m) n"

definition counted :: "string \<Rightarrow> bool" where
  "counted f \<longleftrightarrow>
     StartsWith f kCounterPrefix \<or>
     StartsWith f kHistogramPrefix \<and> split_last_colon (drop (length kHistogramPrefix) f) \<noteq> None"

section \<open>Field names\<close>

lemma split_last_colon_append:
  assumes "CHR '':'' \<notin> set suffix"
  shows "split_last_colon (n @ CHR '':'' # suffix) = Some (n, suffix)"
proof -
  have "takeWhile (\<lambda>c. c \<noteq> CHR '':'') (rev (n @ CHR '':'' # suffix)) = rev suffix"
    using assms by (auto simp: takeWhile_tail takeWhile_eq_all_conv)
  then show ?thesis by (simp add: split_last_colon_def Let_def)
qed

lemma split_last_colon_Some:
  assumes "split_last_colon s = Some (n, suffix)"
  shows "s = n @ CHR '':'' # suffix"
proof -
  have "CHR '':'' \<in> set s" using assms by (auto simp: split_last_colon_def split: if_splits)
  then obtain xs ys where s: "s = xs @ CHR '':'' # ys" "CHR '':'' \<notin> set ys"
    using split_list_last by fastforce
  then show ?thesis using assms split_last_colon_append [OF s(2), of xs] by simp
qed

lemma field_shapes:
  "StartsWith (CounterField n) kCounterPrefix" "drop (length kCounterPrefix) (CounterField n) = n"
  "\<not> StartsWith (kHistogramPrefix @ s) kCounterPrefix" "StartsWith (kHistogramPrefix @ s) kHistogramPrefix"
  "drop (length kHistogramPrefix) (kHistogramPrefix @ s) = s"
  by (simp_all add: StartsWith_def CounterField_def kCounterPrefix_def kHistogramPrefix_def)

lemma StartsWith_append: "StartsWith f p \<longleftrightarrow> (\<exists>s. f = p @ s)"
  by (auto simp: StartsWith_def) (metis append_take_drop_id)

definition hist_field :: "string \<Rightarrow> string \<Rightarrow> string" where
  "hist_field n suffix = kHistogramPrefix @ n @ CHR '':'' # suffix"

lemma hist_fields:
  "HistogramCountField n = hist_field n ''count''" "HistogramSumField n = hist_field n ''sum''"
  "HistogramMaxField n = hist_field n ''max''"
  by (simp_all add: HistogramCountField_def HistogramSumField_def HistogramMaxField_def hist_field_def)

lemma hist_field_inject:
  assumes "CHR '':'' \<notin> set s" and "CHR '':'' \<notin> set s'"
  shows "hist_field n s = hist_field n' s' \<longleftrightarrow> n = n' \<and> s = s'"
proof
  assume "hist_field n s = hist_field n' s'"
  then have "split_last_colon (n @ CHR '':'' # s) = split_last_colon (n' @ CHR '':'' # s')" by (simp add: hist_field_def)
  then show "n = n' \<and> s = s'" using assms by (simp add: split_last_colon_append)
qed simp

lemma collect_counter_field:
  "collect_entry m (CounterField n, t) =
     bind_sum (stoll t) (\<lambda>v. Inr (m\<lparr>counters := AList.update n v (counters m)\<rparr>))"
  by (simp add: collect_entry_def field_shapes)

lemma collect_hist_field:
  "CHR '':'' \<notin> set suffix \<Longrightarrow> collect_entry m (hist_field n suffix, t) =
     bind_sum (stoll t) (\<lambda>v.
       let h = histogram_in m n;
           h = (if suffix = ''count'' then h\<lparr>h_count := v\<rparr> else if suffix = ''sum'' then h\<lparr>h_sum_ms := v\<rparr>
                else if suffix = ''max'' then h\<lparr>h_max_ms := v\<rparr> else h)
       in Inr (m\<lparr>histograms := AList.update n h (histograms m)\<rparr>))"
  by (simp add: collect_entry_def hist_field_def field_shapes split_last_colon_append histogram_in_def)

lemma entry_cases:
  obtains (counter) n where "f = CounterField n"
  | (hist) n suffix where "f = hist_field n suffix" "CHR '':'' \<notin> set suffix"
  | (other) "\<And>m t. collect_entry m (f, t) = Inr m" "\<not> counted f"
proof (cases "counted f")
  case False
  then have "collect_entry m (f, t) = Inr m" for m t
    by (auto simp: counted_def collect_entry_def split: option.splits)
  then show thesis using False by (rule other)
next
  case True
  then consider n where "f = kCounterPrefix @ n" | s where "f = kHistogramPrefix @ s" "split_last_colon s \<noteq> None"
    by (auto simp: counted_def StartsWith_append field_shapes)
  then show thesis
  proof cases
    case 1
    then show thesis using counter by (simp add: CounterField_def)
  next
    case 2
    then have "CHR '':'' \<in> set s" by (auto simp: split_last_colon_def split: if_splits)
    then obtain xs ys where "s = xs @ CHR '':'' # ys" "CHR '':'' \<notin> set ys" using split_list_last by fastforce
    then show thesis using hist 2(1) by (simp add: hist_field_def)
  qed
qed

section \<open>Reading the hash\<close>

lemma histogram_in_update:
  "histogram_in (m\<lparr>histograms := AList.update n h (histograms m)\<rparr>) k = (if k = n then h else histogram_in m k)"
  by (simp add: histogram_in_def map_ref_def)

lemma field_value_Cons:
  "field_value d ((f, t) # es) g =
     (if g = f then (case stoll t of Inr v \<Rightarrow> v | Inl _ \<Rightarrow> d) else field_value d es g)"
  by (simp add: field_value_def)

lemma field_value_absent: "f \<notin> fst ` set es \<Longrightarrow> field_value d es f = d"
  by (simp add: field_value_def map_of_eq_None_iff [symmetric])

definition reads_as :: "MetricsSnapshot \<Rightarrow> (string \<times> string) list \<Rightarrow> MetricsSnapshot \<Rightarrow> bool" where
  "reads_as m0 es m \<longleftrightarrow>
     (\<forall>n. map_ref 0 (counters m) n = field_value (map_ref 0 (counters m0) n) es (CounterField n) \<and>
          h_count (histogram_in m n) = field_value (h_count (histogram_in m0 n)) es (hist_field n ''count'') \<and>
          h_sum_ms (histogram_in m n) = field_value (h_sum_ms (histogram_in m0 n)) es (hist_field n ''sum'') \<and>
          h_max_ms (histogram_in m n) = field_value (h_max_ms (histogram_in m0 n)) es (hist_field n ''max''))"

lemma counter_not_hist [simp]: "CounterField n \<noteq> hist_field k s" "hist_field k s \<noteq> CounterField n"
  by (simp_all add: CounterField_def hist_field_def kCounterPrefix_def kHistogramPrefix_def)

lemma CounterField_inject [simp]: "CounterField n = CounterField k \<longleftrightarrow> n = k"
  by (simp add: CounterField_def)

lemma counted_fields [simp]: "counted (CounterField n)" "CHR '':'' \<notin> set s \<Longrightarrow> counted (hist_field n s)"
  by (simp_all add: counted_def field_shapes hist_field_def split_last_colon_append)

lemma reads_as_Cons:
  assumes "collect_entry m0 (f, t) = Inr m1" and "reads_as m1 es m" and "f \<notin> fst ` set es"
  shows "reads_as m0 ((f, t) # es) m"
proof (cases f rule: entry_cases)
  case (counter k)
  then obtain v where "stoll t = Inr v" "m1 = m0\<lparr>counters := AList.update k v (counters m0)\<rparr>"
    using assms(1) by (auto simp: collect_counter_field bind_sum_def split: sum.splits)
  then show ?thesis
    using assms(2,3) counter field_value_absent [of f es]
    by (auto simp: reads_as_def field_value_Cons histogram_in_def map_ref_def)
next
  case (hist k s)
  then obtain v where v: "stoll t = Inr v" using assms(1) by (auto simp: collect_hist_field bind_sum_def split: sum.splits)
  define h where "h = (if s = ''count'' then (histogram_in m0 k)\<lparr>h_count := v\<rparr> else if s = ''sum'' then (histogram_in m0 k)\<lparr>h_sum_ms := v\<rparr>
      else if s = ''max'' then (histogram_in m0 k)\<lparr>h_max_ms := v\<rparr> else histogram_in m0 k)"
  have m1: "m1 = m0\<lparr>histograms := AList.update k h (histograms m0)\<rparr>"
    using assms(1) hist v by (simp add: collect_hist_field h_def Let_def)
  have inj: "hist_field n ''count'' = f \<longleftrightarrow> n = k \<and> s = ''count''" "hist_field n ''sum'' = f \<longleftrightarrow> n = k \<and> s = ''sum''"
    "hist_field n ''max'' = f \<longleftrightarrow> n = k \<and> s = ''max''" for n
    using hist by (auto simp: hist_field_inject)
  show ?thesis
    using assms(2,3) field_value_absent [of f es] v hist(1)
    unfolding reads_as_def field_value_Cons inj m1 histogram_in_update
    by (auto simp: h_def)
next
  case other
  have "f \<noteq> CounterField n" "f \<noteq> hist_field n ''count''" "f \<noteq> hist_field n ''sum''" "f \<noteq> hist_field n ''max''" for n
    using other(2) by auto
  then show ?thesis using assms(1,2) other(1) by (auto simp: reads_as_def field_value_Cons)
qed

lemma collect_reads:
  "collect_entries m0 es = Inr m \<Longrightarrow> distinct (map fst es) \<Longrightarrow> reads_as m0 es m"
proof (induction es arbitrary: m0)
  case Nil
  then show ?case by (simp add: reads_as_def field_value_def)
next
  case (Cons e es)
  obtain f t where e: "e = (f, t)" by (cases e)
  obtain m1 where m1: "collect_entry m0 (f, t) = Inr m1" "collect_entries m1 es = Inr m"
    using Cons.prems(1) e by (cases "collect_entry m0 e") auto
  then show ?case using reads_as_Cons [OF m1(1)] Cons.IH [OF m1(2)] Cons.prems(2) by (simp add: e)
qed

lemma collect_succeeds:
  "(\<exists>m. collect_entries m0 es = Inr m) \<longleftrightarrow> (\<forall>(f, t) \<in> set es. counted f \<longrightarrow> (\<exists>v. stoll t = Inr v))"
proof (induction es arbitrary: m0)
  case (Cons e es)
  obtain f t where e: "e = (f, t)" by (cases e)
  have "(\<exists>m1. collect_entry m0 (f, t) = Inr m1) \<longleftrightarrow> (counted f \<longrightarrow> (\<exists>v. stoll t = Inr v))"
    by (cases f rule: entry_cases; cases "stoll t") (auto simp: collect_counter_field collect_hist_field Let_def)
  then show ?case
    using Cons.IH by (cases "collect_entry m0 (f, t)") (auto simp: e bind_sum_def)
qed simp

section \<open>Recording a duration\<close>

lemma field_value_update:
  "in_i64 v \<Longrightarrow> field_value d (AList.update f (to_string v) es) g = (if g = f then v else field_value d es g)"
  by (simp add: field_value_def)

text \<open>
  Every counter and histogram field of the hash is an integer as \<^verbatim>\<open>HINCRBY\<close> and \<^verbatim>\<open>std::to_string\<close> write
  it; nothing else writes to this hash.
\<close>

definition readable_hash :: "(string \<times> string) list \<Rightarrow> bool" where
  "readable_hash es \<longleftrightarrow> distinct (map fst es) \<and> (\<forall>(f, t) \<in> set es. counted f \<longrightarrow> (\<exists>v. in_i64 v \<and> t = to_string v))"

lemma readable_update:
  assumes "readable_hash es" and "in_i64 v"
  shows "readable_hash (AList.update f (to_string v) es)"
  using assms set_AList_update_subset [of f "to_string v" es] distinct_update [of es f "to_string v"]
  by (auto simp: readable_hash_def)

lemma readable_old:
  assumes "readable_hash es" and "counted f"
  shows "(case map_of es f of Some t \<Rightarrow> redis_integer t | None \<Rightarrow> Some 0) = Some (field_value 0 es f)"
    and "map_of es f = Some t \<Longrightarrow> stoll t = Inr (field_value 0 es f)"
  using assms by (fastforce simp: readable_hash_def field_value_def split: option.splits dest!: map_of_SomeD)+

text \<open>The metrics hash after a duration was recorded.\<close>

definition duration_fields :: "string \<Rightarrow> int \<Rightarrow> (string \<times> string) list \<Rightarrow> (string \<times> string) list" where
  "duration_fields n d es =
     (let es = AList.update (hist_field n ''count'') (to_string (field_value 0 es (hist_field n ''count'') + 1)) es;
          es = AList.update (hist_field n ''sum'') (to_string (field_value 0 es (hist_field n ''sum'') + d)) es
      in if map_of es (hist_field n ''max'') = None \<or> field_value 0 es (hist_field n ''max'') < d
         then AList.update (hist_field n ''max'') (to_string d) es else es)"

text \<open>The last part of \<open>RecordDurationMs\<close>: the maximum.\<close>

definition update_max :: "'s ext \<Rightarrow> string \<Rightarrow> int \<Rightarrow> ('s conn, unit) io" where
  "update_max X f d =
     bind_io (redis_do (rds X) (HGET redis_kMetrics f)) (\<lambda>reply.
     bind_io (lift_io (as_optional_string reply)) (\<lambda>current_max.
     bind_io (case current_max of
                None \<Rightarrow> ret True
              | Some t \<Rightarrow> bind_io (lift_io (stoll t)) (\<lambda>v. ret (v < d))) (\<lambda>update.
     if update then then_io (redis_do (rds X) (HSET redis_kMetrics f (to_string d))) (ret ())
     else ret ())))"

context external
begin

lemma yields_hincrby:
  assumes "readable_hash (hash_at db redis_kMetrics)" and "counted f"
    and "in_i64 (field_value 0 (hash_at db redis_kMetrics) f + d)"
  shows "yields X view (redis_do (rds X) (HINCRBY redis_kMetrics f d)) db
    (Inr (RInt (field_value 0 (hash_at db redis_kMetrics) f + d)))
    (put_hash redis_kMetrics (AList.update f (to_string (field_value 0 (hash_at db redis_kMetrics) f + d))
       (hash_at db redis_kMetrics)) db)"
  by (rule yields_do) (use readable_old(1) [OF assms(1,2)] assms(3) in \<open>simp_all add: key_simps\<close>)

lemma yields_update_max:
  fixes f d
  defines "es db \<equiv> hash_at db redis_kMetrics"
  assumes "readable_hash (es db)" and "counted f"
  shows "yields X view (update_max X f d) db (Inr ())
      (if map_of (es db) f = None \<or> field_value 0 (es db) f < d
       then put_hash redis_kMetrics (AList.update f (to_string d) (es db)) db else db)"
proof -
  have get: "yields X view (redis_do (rds X) (HGET redis_kMetrics f)) db
      (Inr (case map_of (es db) f of Some v \<Rightarrow> RBulk v | None \<Rightarrow> RNil)) db"
    by (rule yields_do) (auto simp: key_simps es_def split: option.splits)
  have "yields X view (redis_do (rds X) (HSET redis_kMetrics f (to_string d))) db
      (Inr (RInt (if map_of (es db) f = None then 1 else 0)))
      (put_hash redis_kMetrics (AList.update f (to_string d) (es db)) db)"
    by (rule yields_do) (simp_all add: key_simps es_def)
  note put = yields_then [OF this yields_pure(1) [of X view "()"]]
  have "stoll t = Inr (field_value 0 (es db) f)" if "map_of (es db) f = Some t" for t
    using readable_old(2) [OF assms(2,3) that] .
  then show ?thesis
    unfolding update_max_def
    by (intro yields_bind [OF get]) (use put in \<open>auto simp: yields_pure(1) split: option.splits\<close>)
qed

lemma yields_duration_fields:
  fixes n d
  defines "es db \<equiv> hash_at db redis_kMetrics" and "f \<equiv> hist_field n"
  assumes "readable_hash (es db)" and "in_i64 d"
    and "in_i64 (field_value 0 (es db) (f ''count'') + 1)" and "in_i64 (field_value 0 (es db) (f ''sum'') + d)"
  shows "\<exists>db'. yields X view (RecordDurationMs X n d) db (Inr ()) db' \<and> es db' = duration_fields n d (es db) \<and>
    readable_hash (es db')"
proof -
  have f: "counted (f ''count'')" "counted (f ''sum'')" "counted (f ''max'')" "f ''sum'' \<noteq> f ''count''"
    by (simp_all add: f_def hist_field_inject)
  define db1 where "db1 = put_hash redis_kMetrics (AList.update (f ''count'')
      (to_string (field_value 0 (es db) (f ''count'') + 1)) (es db)) db"
  have es1: "es db1 = AList.update (f ''count'') (to_string (field_value 0 (es db) (f ''count'') + 1)) (es db)"
    by (simp add: db1_def es_def)
  have r1: "readable_hash (es db1)" and sum1: "field_value 0 (es db1) (f ''sum'') = field_value 0 (es db) (f ''sum'')"
    using readable_update assms(3,5) f(4) by (simp_all add: es1 field_value_update)
  define db2 where "db2 = put_hash redis_kMetrics (AList.update (f ''sum'')
      (to_string (field_value 0 (es db1) (f ''sum'') + d)) (es db1)) db1"
  have es2: "es db2 = AList.update (f ''sum'') (to_string (field_value 0 (es db1) (f ''sum'') + d)) (es db1)"
    by (simp add: db2_def es_def)
  then have r2: "readable_hash (es db2)" using readable_update [OF r1] assms(6) sum1 by simp
  define db3 where "db3 = (if map_of (es db2) (f ''max'') = None \<or> field_value 0 (es db2) (f ''max'') < d
      then put_hash redis_kMetrics (AList.update (f ''max'') (to_string d) (es db2)) db2 else db2)"
  have es3: "es db3 = duration_fields n d (es db)"
    by (simp add: db3_def duration_fields_def Let_def es1 es2 f_def) (simp add: es_def)
  have y1: "yields X view (redis_do (rds X) (HINCRBY redis_kMetrics (f ''count'') 1)) db
      (Inr (RInt (field_value 0 (es db) (f ''count'') + 1))) db1"
    unfolding db1_def es_def by (rule yields_hincrby) (use assms(3,5) f in \<open>simp_all add: es_def\<close>)
  have y2: "yields X view (redis_do (rds X) (HINCRBY redis_kMetrics (f ''sum'') d)) db1
      (Inr (RInt (field_value 0 (es db1) (f ''sum'') + d))) db2"
    unfolding db2_def es_def by (rule yields_hincrby) (use r1 assms(6) sum1 f in \<open>simp_all add: es_def\<close>)
  have y3: "yields X view (update_max X (f ''max'') d) db2 (Inr ()) db3"
    unfolding db3_def es_def by (rule yields_update_max [OF r2 [unfolded es_def] f(3)])
  have "yields X view (RecordDurationMs X n d) db (Inr ()) db3"
    unfolding RecordDurationMs_def hist_fields f_def [symmetric] update_max_def [symmetric]
    by (intro yields_catch_redis(1) yields_then [OF y1] yields_then [OF y2] y3)
  moreover have "readable_hash (es db3)" using r2 readable_update [OF r2 assms(4)] by (simp add: db3_def es_def)
  ultimately show ?thesis using es3 by blast
qed

end

context external
begin

lemma metrics_of_reads:
  assumes "readable_hash (hash_at db redis_kMetrics)"
  shows "\<exists>m. metrics_of X db = Inr m \<and> reads_as MetricsSnapshot_empty (hash_at db redis_kMetrics) m"
proof -
  let ?es = "hash_at db redis_kMetrics"
  have dist: "distinct (map fst ?es)" using assms by (simp add: readable_hash_def)
  then have same: "map_of (umap_order X ?es) = map_of ?es" by simp
  have "\<exists>m. collect_entries MetricsSnapshot_empty (umap_order X ?es) = Inr m"
    using assms unfolding collect_succeeds by (auto simp: readable_hash_def)
  then show ?thesis
    using collect_reads [of _ "umap_order X ?es"] dist same
    by (auto simp: metrics_of_def reads_as_def field_value_def)
qed

end

lemma empty_histogram [simp]: "histogram_in MetricsSnapshot_empty n = DurationHistogram_default"
  "map_ref 0 (counters MetricsSnapshot_empty) n = 0"
  by (simp_all add: histogram_in_def map_ref_def MetricsSnapshot_empty_def)

lemma duration_fields_values:
  assumes "readable_hash es" and "in_i64 d" and "0 \<le> d"
    and "in_i64 (field_value 0 es (hist_field n ''count'') + 1)" and "in_i64 (field_value 0 es (hist_field n ''sum'') + d)"
  shows "field_value 0 (duration_fields n d es) (CounterField k) = field_value 0 es (CounterField k)"
    "field_value 0 (duration_fields n d es) (hist_field k ''count'') =
       field_value 0 es (hist_field k ''count'') + (if k = n then 1 else 0)"
    "field_value 0 (duration_fields n d es) (hist_field k ''sum'') =
       field_value 0 es (hist_field k ''sum'') + (if k = n then d else 0)"
    "field_value 0 (duration_fields n d es) (hist_field k ''max'') =
       (if k = n then max (field_value 0 es (hist_field n ''max'')) d else field_value 0 es (hist_field k ''max''))"
proof -
  have absent: "map_of es (hist_field n ''max'') = None \<Longrightarrow> field_value 0 es (hist_field n ''max'') = 0"
    by (simp add: field_value_def)
  note simps = duration_fields_def Let_def field_value_update hist_field_inject
  show "field_value 0 (duration_fields n d es) (CounterField k) = field_value 0 es (CounterField k)"
    "field_value 0 (duration_fields n d es) (hist_field k ''count'') =
       field_value 0 es (hist_field k ''count'') + (if k = n then 1 else 0)"
    "field_value 0 (duration_fields n d es) (hist_field k ''sum'') =
       field_value 0 es (hist_field k ''sum'') + (if k = n then d else 0)"
    using assms by (simp_all add: simps)
  show "field_value 0 (duration_fields n d es) (hist_field k ''max'') =
       (if k = n then max (field_value 0 es (hist_field n ''max'')) d else field_value 0 es (hist_field k ''max''))"
    using assms absent by (auto simp: simps max_def)
qed

text \<open>
  C27: the metrics in Redis are those of the collector. When the fields of the hash are integers as
  Redis writes them, recording a duration, read back with \<open>CollectMetrics\<close>, has the effect of
  \<open>ObserveDurationMs\<close> on what was read before: the same histogram under every name, and the same
  counters. The fields are integers as Redis writes them again, whatever the order in which the
  \<^verbatim>\<open>unordered_map\<close> yields them.
\<close>

theorem RecordDurationMs_as_collector:
  assumes "external X view" and "connected X view c db" and "readable_hash (hash_at db redis_kMetrics)"
    and "metrics_of X db = Inr m" and "ObserveDurationMs m n d = Inr m'" and "0 \<le> d" and "in_i64 d"
  shows "\<exists>c' db' m''. RecordDurationMs X n d c = (Inr (), c') \<and> connected X view c' db' \<and>
    readable_hash (hash_at db' redis_kMetrics) \<and> metrics_of X db' = Inr m'' \<and>
    (\<forall>k. histogram_in m'' k = histogram_in m' k \<and> map_ref 0 (counters m'') k = map_ref 0 (counters m') k)"
proof -
  let ?es = "hash_at db redis_kMetrics"
  have r: "readable_hash ?es" "reads_as MetricsSnapshot_empty ?es m"
    using external.metrics_of_reads [OF assms(1,3)] assms(3,4) by auto
  have h: "h_count (histogram_in m k) = field_value 0 ?es (hist_field k ''count'')"
    "h_sum_ms (histogram_in m k) = field_value 0 ?es (hist_field k ''sum'')"
    "h_max_ms (histogram_in m k) = field_value 0 ?es (hist_field k ''max'')"
    "map_ref 0 (counters m) k = field_value 0 ?es (CounterField k)" for k
    using r(2) by (simp_all add: reads_as_def DurationHistogram_default_def)
  have range: "in_i64 (field_value 0 ?es (hist_field n ''count'') + 1)" "in_i64 (field_value 0 ?es (hist_field n ''sum'') + d)"
    and m': "m' = m\<lparr>histograms := AList.update n \<lparr>h_count = h_count (histogram_in m n) + 1,
        h_sum_ms = h_sum_ms (histogram_in m n) + d, h_max_ms = max (h_max_ms (histogram_in m n)) d\<rparr> (histograms m)\<rparr>"
    using assms(5) unfolding h [symmetric]
    by (auto simp: ObserveDurationMs_def Let_def add_i64_def bind_sum_def histogram_in_def [symmetric] split: if_splits)
  obtain db' where db': "yields X view (RecordDurationMs X n d) db (Inr ()) db'"
    "hash_at db' redis_kMetrics = duration_fields n d ?es" "readable_hash (hash_at db' redis_kMetrics)"
    using external.yields_duration_fields [OF assms(1) r(1) assms(7) range] by blast
  obtain m'' where m'': "metrics_of X db' = Inr m''"
    "reads_as MetricsSnapshot_empty (duration_fields n d ?es) m''"
    using external.metrics_of_reads [OF assms(1) db'(3)] db'(2) by auto
  have "histogram_in m'' k = histogram_in m' k \<and> map_ref 0 (counters m'') k = map_ref 0 (counters m') k" for k
    using m''(2) duration_fields_values [OF r(1) assms(7,6) range, of k]
    by (auto simp: reads_as_def m' histogram_in_update h DurationHistogram_default_def intro!: DurationHistogram.equality)
  then show ?thesis using yieldsD [OF db'(1) assms(2)] m''(1) db'(3) by blast
qed

theorem RecordDurationMs_as_collector_witness:
  "\<exists>c' db' m''. RecordDurationMs ref_ext ''run'' 7 (ref_conn empty_db) = (Inr (), c') \<and>
     connected ref_ext fst c' db' \<and> metrics_of ref_ext db' = Inr m'' \<and>
     histogram_in m'' ''run'' = \<lparr>h_count = 1, h_sum_ms = 7, h_max_ms = 7\<rparr>"
proof -
  let ?h = "\<lparr>h_count = 1, h_sum_ms = 7, h_max_ms = 7\<rparr>"
  let ?m' = "MetricsSnapshot_empty\<lparr>histograms := [(''run'', ?h)]\<rparr>"
  have "metrics_of ref_ext empty_db = Inr MetricsSnapshot_empty" by (simp add: metrics_of_def)
  moreover have "ObserveDurationMs MetricsSnapshot_empty ''run'' 7 = Inr ?m'"
    by (simp add: ObserveDurationMs_def map_ref_def MetricsSnapshot_empty_def DurationHistogram_default_def add_i64_def in_i64_def)
  ultimately obtain c' db' m'' where "RecordDurationMs ref_ext ''run'' 7 (ref_conn empty_db) = (Inr (), c')"
    "connected ref_ext fst c' db'" "metrics_of ref_ext db' = Inr m''" "histogram_in m'' ''run'' = histogram_in ?m' ''run''"
    using RecordDurationMs_as_collector [OF refx.external_axioms ref_conn_connected, of empty_db MetricsSnapshot_empty "''run''" 7 ?m']
    by (auto simp: in_i64_def readable_hash_def)
  moreover have "histogram_in ?m' ''run'' = ?h" by (simp add: histogram_in_def map_ref_def)
  ultimately show ?thesis by auto
qed

end
