(* ===== verification/Clock.thy ===== *)
theory Clock
  imports Delivery
begin

text \<open>
  The system clock (src/clock.cc). \<open>since_epoch\<close> is the count of nanoseconds
  \<^verbatim>\<open>system_clock::now().time_since_epoch()\<close> returns, a 64-bit integer. Operations take the reading in
  milliseconds as an argument; here is what makes such readings \<open>small\<close>, so that they survive the
  binary64 numbers of Lua and its encoder unchanged.
\<close>

definition duration_cast_ms :: "int \<Rightarrow> int" where
  "duration_cast_ms d = (if d < 0 then - (- d div 1000000) else d div 1000000)"

definition NowUnixMs :: "int \<Rightarrow> int" where
  "NowUnixMs since_epoch = duration_cast_ms since_epoch"

lemma NowUnixMs_small: "in_i64 since_epoch \<Longrightarrow> small (NowUnixMs since_epoch)"
  by (auto simp: NowUnixMs_def duration_cast_ms_def small_def in_i64_def)

lemma NowUnixMs_mono: "t \<le> t' \<Longrightarrow> NowUnixMs t \<le> NowUnixMs t'"
  by (auto simp: NowUnixMs_def duration_cast_ms_def zdiv_mono1 div_int_pos_iff
      intro: order_trans [of _ 0])

text \<open>A reading, as a Lua number and back through the encoder.\<close>

lemma NowUnixMs_exact:
  assumes "in_i64 since_epoch"
  shows "double_of_int (NowUnixMs since_epoch) = DFin (of_int (NowUnixMs since_epoch))"
    and "exact_num (of_int (NowUnixMs since_epoch))"
  using exact_small [OF NowUnixMs_small [OF assms]]
    double_of_int_exact [OF small_53 [OF NowUnixMs_small [OF assms]]] by simp_all

end
