(* ===== verification/Comparisons.thy ===== *)
theory Comparisons
  imports Task_Json Metrics
begin

text \<open>
  The comparison operators of the data types (headers, src/task_message.cc and
  src/worker_heartbeat.cc), as the code compares values in place of HOL equality. Payloads are
  compared by the operator of \<^verbatim>\<open>nlohmann::json\<close>, which is the argument \<open>json_eq\<close>; a binary64
  value that is no number differs from itself.
\<close>

fun double_eq :: "double \<Rightarrow> double \<Rightarrow> bool" where
  "double_eq DNaN _ = False"
| "double_eq a b = (a = b)"

definition TaskId_eq :: "TaskId \<Rightarrow> TaskId \<Rightarrow> bool" where
  "TaskId_eq a other \<longleftrightarrow> TaskId_Value a = TaskId_Value other"

definition TaskId_ne :: "TaskId \<Rightarrow> TaskId \<Rightarrow> bool" where
  "TaskId_ne a other \<longleftrightarrow> \<not> TaskId_eq a other"

definition RetryPolicy_eq :: "RetryPolicy \<Rightarrow> RetryPolicy \<Rightarrow> bool" where
  "RetryPolicy_eq a other \<longleftrightarrow>
     max_retries a = max_retries other \<and> base_delay_ms a = base_delay_ms other \<and>
     double_eq (multiplier a) (multiplier other)"

definition TaskResult_eq :: "(json \<Rightarrow> json \<Rightarrow> bool) \<Rightarrow> TaskResult \<Rightarrow> TaskResult \<Rightarrow> bool" where
  "TaskResult_eq json_eq a other \<longleftrightarrow>
     tr_success a = tr_success other \<and> json_eq (tr_payload a) (tr_payload other) \<and>
     tr_error_message a = tr_error_message other"

definition TaskMessage_eq :: "(json \<Rightarrow> json \<Rightarrow> bool) \<Rightarrow> TaskMessage \<Rightarrow> TaskMessage \<Rightarrow> bool" where
  "TaskMessage_eq json_eq a other \<longleftrightarrow>
     TaskId_eq (m_id a) (m_id other) \<and> m_name a = m_name other \<and>
     json_eq (m_payload a) (m_payload other) \<and> m_status a = m_status other \<and>
     m_retry_count a = m_retry_count other \<and>
     RetryPolicy_eq (m_retry_policy a) (m_retry_policy other) \<and>
     m_created_at_ms a = m_created_at_ms other \<and> m_run_at_ms a = m_run_at_ms other \<and>
     m_reserved_at_ms a = m_reserved_at_ms other \<and> m_last_error a = m_last_error other"

definition WorkerHeartbeat_eq :: "WorkerHeartbeat \<Rightarrow> WorkerHeartbeat \<Rightarrow> bool" where
  "WorkerHeartbeat_eq a other \<longleftrightarrow>
     worker_id a = worker_id other \<and> hostname a = hostname other \<and> pid a = pid other \<and>
     started_at_ms a = started_at_ms other \<and> last_seen_ms a = last_seen_ms other \<and>
     concurrency a = concurrency other \<and> currently_running a = currently_running other"

section \<open>No field is forgotten\<close>

lemma double_eq_iff: "double_eq a b \<longleftrightarrow> a = b \<and> a \<noteq> DNaN"
  by (cases a) auto

lemma TaskId_eq_iff: "TaskId_eq a b \<longleftrightarrow> a = b" "TaskId_ne a b \<longleftrightarrow> a \<noteq> b"
  by (cases a; cases b; simp add: TaskId_eq_def TaskId_ne_def)+

lemma RetryPolicy_eq_iff: "RetryPolicy_eq a b \<longleftrightarrow> a = b \<and> multiplier a \<noteq> DNaN"
  by (cases a; cases b) (auto simp: RetryPolicy_eq_def double_eq_iff)

lemma WorkerHeartbeat_eq_iff: "WorkerHeartbeat_eq a b \<longleftrightarrow> a = b"
  by (cases a; cases b) (auto simp: WorkerHeartbeat_eq_def)

lemma TaskResult_eq_iff:
  "TaskResult_eq json_eq a b \<longleftrightarrow> a = b\<lparr>tr_payload := tr_payload a\<rparr> \<and> json_eq (tr_payload a) (tr_payload b)"
  by (cases a; cases b) (auto simp: TaskResult_eq_def)

lemma TaskMessage_eq_iff:
  "TaskMessage_eq json_eq a b \<longleftrightarrow>
     a = b\<lparr>m_payload := m_payload a\<rparr> \<and> json_eq (m_payload a) (m_payload b) \<and>
     multiplier (m_retry_policy a) \<noteq> DNaN"
  by (cases a; cases b) (auto simp: TaskMessage_eq_def TaskId_eq_iff RetryPolicy_eq_iff)

text \<open>
  The comparison the tests make after a round trip through JSON. The validation of policies accepts
  a multiplier that is no number (it only rejects a negative one); such a message differs from itself.
\<close>

lemma roundtrip_eq:
  assumes "wire_message m" and "json_eq (m_payload m) (m_payload m)"
    and "multiplier (m_retry_policy m) \<noteq> DNaN"
  shows "TaskMessage_eq json_eq m (pr_value (TaskMessageFromJson (TaskMessage_ToJson m)))"
  using assms message_roundtrip [OF assms(1)]
  by (simp add: TaskMessage_eq_iff)

end
