(* ===== verification/Python_Wire.thy ===== *)
theory Python_Wire
  imports Task_Json
begin

text \<open>
  The wire schema of the Python producer: clients/python/crunchytask/wire.py, which is documented to
  match the C++ task JSON. Python's \<open>int\<close> is unbounded, its \<open>float\<close> is binary64, a raised
  exception is a value of \<open>py_error\<close>. The time stamp and the random bytes are arguments, and the
  values of a retry policy mapping are numbers. \<^verbatim>\<open>dict\<close>s are JSON objects; their text is the
  \<^verbatim>\<open>json\<close> module's business.
\<close>

datatype py_error = ValueError string | OverflowError string

datatype py_num = PyInt int | PyFloat double

section \<open>Conversions\<close>

definition py_bind :: "py_error + 'a \<Rightarrow> ('a \<Rightarrow> py_error + 'b) \<Rightarrow> py_error + 'b" where
  "py_bind r f = (case r of Inl e \<Rightarrow> Inl e | Inr a \<Rightarrow> f a)"

fun py_int :: "py_num \<Rightarrow> py_error + int" where
  "py_int (PyInt i) = Inr i"
| "py_int (PyFloat (DFin q)) = Inr (truncate_rat q)"
| "py_int (PyFloat DNaN) = Inl (ValueError ''cannot convert float NaN to integer'')"
| "py_int (PyFloat _) = Inl (OverflowError ''cannot convert float infinity to integer'')"

fun py_float :: "py_num \<Rightarrow> py_error + double" where
  "py_float (PyInt i) =
     (case double_of_int i of
        DFin q \<Rightarrow> Inr (DFin q)
      | _ \<Rightarrow> Inl (OverflowError ''int too large to convert to float''))"
| "py_float (PyFloat d) = Inr d"

section \<open>Identifiers\<close>

text \<open>The rest of the text after \<open>n\<close> hexadecimal digits, or after one hyphen.\<close>

fun match_hex :: "nat \<Rightarrow> string \<Rightarrow> string option" where
  "match_hex 0 s = Some s"
| "match_hex (Suc n) [] = None"
| "match_hex (Suc n) (c # s) = (if IsHexDigit c then match_hex n s else None)"

fun match_hyphen :: "string \<Rightarrow> string option" where
  "match_hyphen (c # s) = (if c = CHR ''-'' then Some s else None)"
| "match_hyphen [] = None"

text \<open>\<^verbatim>\<open>$\<close> matches at the end of the text and before a line feed that ends it.\<close>

definition match_end :: "string \<Rightarrow> bool" where
  "match_end s \<longleftrightarrow> s = '''' \<or> s = [CHR 0x0A]"

definition match_uuid :: "string \<Rightarrow> string option" where
  "match_uuid s =
     Option.bind (match_hex 8 s) (\<lambda>s. Option.bind (match_hyphen s) (\<lambda>s.
     Option.bind (match_hex 4 s) (\<lambda>s. Option.bind (match_hyphen s) (\<lambda>s.
     Option.bind (match_hex 4 s) (\<lambda>s. Option.bind (match_hyphen s) (\<lambda>s.
     Option.bind (match_hex 4 s) (\<lambda>s. Option.bind (match_hyphen s) (\<lambda>s.
     match_hex 12 s))))))))"

definition is_valid_task_id :: "string \<Rightarrow> bool" where
  "is_valid_task_id task_id =
     (case match_uuid task_id of None \<Rightarrow> False | Some rest \<Rightarrow> match_end rest)"

text \<open>\<^verbatim>\<open>uuid.uuid4\<close> sets the same version and variant bits and prints the same lower-case form.\<close>

definition generate_task_id :: "8 word list \<Rightarrow> string" where
  "generate_task_id bytes = format_uuid (set_version_bits bytes)"

section \<open>Retry policies\<close>

definition validate_retry_policy :: "RetryPolicy \<Rightarrow> py_error + unit" where
  "validate_retry_policy policy =
     (if max_retries policy < 0 then Inl (ValueError ''retry max_retries must be >= 0'')
      else if base_delay_ms policy < 0 then Inl (ValueError ''retry base_delay_ms must be >= 0'')
      else if dneg_p (multiplier policy) then Inl (ValueError ''retry multiplier must be >= 0'')
      else Inr ())"

definition DEFAULT_RETRY_POLICY :: "(string \<times> py_num) list" where
  "DEFAULT_RETRY_POLICY =
     [(''max_retries'', PyInt 3), (''base_delay_ms'', PyInt 1000), (''multiplier'', PyFloat (DFin 2))]"

text \<open>\<^verbatim>\<open>raw.get(key, DEFAULT_RETRY_POLICY[key])\<close>\<close>

definition policy_field :: "(string \<times> py_num) list \<Rightarrow> string \<Rightarrow> py_num" where
  "policy_field raw key =
     (case map_of raw key of Some v \<Rightarrow> v | None \<Rightarrow> the (map_of DEFAULT_RETRY_POLICY key))"

definition parse_retry_policy :: "(string \<times> py_num) list option \<Rightarrow> py_error + RetryPolicy" where
  "parse_retry_policy raw =
     (case raw of
        None \<Rightarrow> Inr RetryPolicy_default
      | Some raw \<Rightarrow>
          py_bind (py_int (policy_field raw ''max_retries'')) (\<lambda>mr.
          py_bind (py_int (policy_field raw ''base_delay_ms'')) (\<lambda>bd.
          py_bind (py_float (policy_field raw ''multiplier'')) (\<lambda>mu.
          let policy = \<lparr>max_retries = mr, base_delay_ms = bd, multiplier = mu\<rparr>
          in py_bind (validate_retry_policy policy) (\<lambda>_. Inr policy)))))"

definition to_wire :: "RetryPolicy \<Rightarrow> json" where
  "to_wire policy =
     json_object [(''max_retries'', JInt (max_retries policy)),
                  (''base_delay_ms'', JInt (base_delay_ms policy)),
                  (''multiplier'', JFloat (multiplier policy))]"

section \<open>Messages\<close>

definition now_unix_ms :: "double \<Rightarrow> py_error + int" where
  "now_unix_ms timestamp = py_int (PyFloat (dmul timestamp (DFin 1000)))"

datatype policy_arg = GivenPolicy RetryPolicy | PolicyMapping "(string \<times> py_num) list" | NoPolicy

definition resolve_policy :: "policy_arg \<Rightarrow> py_error + RetryPolicy" where
  "resolve_policy retry_policy =
     (case retry_policy of
        GivenPolicy policy \<Rightarrow> Inr policy
      | PolicyMapping raw \<Rightarrow> parse_retry_policy (Some raw)
      | NoPolicy \<Rightarrow> parse_retry_policy None)"

text \<open>\<^verbatim>\<open>task_id or generate_task_id()\<close>: the empty text counts as absent.\<close>

definition resolve_id :: "8 word list \<Rightarrow> string option \<Rightarrow> string" where
  "resolve_id bytes task_id =
     (case task_id of
        Some i \<Rightarrow> if i \<noteq> '''' then i else generate_task_id bytes
      | None \<Rightarrow> generate_task_id bytes)"

definition build_task_message ::
    "8 word list \<Rightarrow> double \<Rightarrow> string \<Rightarrow> (string \<times> json) list \<Rightarrow> string option \<Rightarrow> int option \<Rightarrow> double \<Rightarrow>
     policy_arg \<Rightarrow> py_error + json" where
  "build_task_message bytes timestamp task_name args task_id created_at_ms delay_seconds retry_policy =
     (if dneg_p delay_seconds then Inl (ValueError ''delay_seconds must be >= 0'')
      else py_bind (resolve_policy retry_policy) (\<lambda>policy.
           let resolved_id = resolve_id bytes task_id
           in if \<not> is_valid_task_id resolved_id then Inl (ValueError ''task id must be a UUID string'')
              else py_bind (case created_at_ms of Some t \<Rightarrow> Inr t | None \<Rightarrow> now_unix_ms timestamp) (\<lambda>created.
                   py_bind (py_int (PyFloat (dmul delay_seconds (DFin 1000)))) (\<lambda>delay_ms.
                   let message = json_object
                         [(''schema_version'', JInt 1),
                          (''id'', JString resolved_id),
                          (''name'', JString task_name),
                          (''payload'', json_object args),
                          (''status'', JString ''pending''),
                          (''retry_count'', JInt 0),
                          (''retry_policy'', to_wire policy),
                          (''created_at_ms'', JInt created)]
                   in Inr (if delay_ms > 0 then json_put ''run_at_ms'' (JInt (created + delay_ms)) message
                           else message)))))"

section \<open>Identifiers on both sides\<close>

lemma match_hex_drop:
  "match_hex k (drop n s) = Some r \<longleftrightarrow>
     k \<le> length s - n \<and> (\<forall>i<k. IsHexDigit (s ! (n + i))) \<and> r = drop (n + k) s"
proof (induction k arbitrary: n)
  case (Suc k)
  show ?case
  proof (cases "n < length s")
    case True
    then show ?thesis
      using Suc.IH [of "Suc n"] by (auto simp: Cons_nth_drop_Suc [symmetric] All_less_Suc2)
  qed simp
qed auto

lemma match_hyphen_drop:
  "match_hyphen (drop n s) = Some r \<longleftrightarrow> n < length s \<and> s ! n = CHR ''-'' \<and> r = drop (Suc n) s"
  by (cases "n < length s") (auto simp: Cons_nth_drop_Suc [symmetric])

lemma all_less_add: "(\<forall>i<k + n. P i) \<longleftrightarrow> (\<forall>i<k. P i) \<and> (\<forall>i<n. P (k + i :: nat))"
proof -
  have "P i" if "\<forall>i<k. P i" "\<forall>i<n. P (k + i)" "i < k + n" for i
    using that(1) that(2) [rule_format, of "i - k"] that(3) by (cases "i < k") auto
  then show ?thesis by auto
qed

lemma IsValidUuidFormat_ranges:
  "IsValidUuidFormat (take 36 s) \<longleftrightarrow>
     36 \<le> length s \<and> (\<forall>i<8. IsHexDigit (s ! i)) \<and> s ! 8 = CHR ''-'' \<and>
     (\<forall>i<4. IsHexDigit (s ! (9 + i))) \<and> s ! 13 = CHR ''-'' \<and>
     (\<forall>i<4. IsHexDigit (s ! (14 + i))) \<and> s ! 18 = CHR ''-'' \<and>
     (\<forall>i<4. IsHexDigit (s ! (19 + i))) \<and> s ! 23 = CHR ''-'' \<and>
     (\<forall>i<12. IsHexDigit (s ! (24 + i)))"
proof -
  let ?Q = "\<lambda>i. if i = 8 \<or> i = 13 \<or> i = 18 \<or> i = 23 then s ! i = CHR ''-'' else IsHexDigit (s ! i)"
  have "IsValidUuidFormat (take 36 s) \<longleftrightarrow> 36 \<le> length s \<and> (\<forall>i<36. ?Q i)"
  proof (cases "36 \<le> length s")
    case True
    then have len: "length (take 36 s) = 36" by simp
    show ?thesis
      unfolding IsValidUuidFormat_def len using True
      by (simp add: list_all_iff Ball_def split del: if_split cong: conj_cong imp_cong if_cong)
  qed (simp add: IsValidUuidFormat_def)
  moreover have "(\<forall>i<36. ?Q i) \<longleftrightarrow> (\<forall>i<8 + (1 + (4 + (1 + (4 + (1 + (4 + (1 + 12))))))). ?Q i)" by simp
  ultimately show ?thesis unfolding all_less_add by simp
qed

lemma match_uuid_iff: "match_uuid s = Some r \<longleftrightarrow> IsValidUuidFormat (take 36 s) \<and> r = drop 36 s"
proof -
  have "match_hex 8 s = Some r \<longleftrightarrow> 8 \<le> length s \<and> (\<forall>i<8. IsHexDigit (s ! i)) \<and> r = drop 8 s" for r
    using match_hex_drop [of 8 0 s r] by simp
  then show ?thesis
    unfolding match_uuid_def IsValidUuidFormat_ranges
    by (auto simp: Option.bind_eq_Some_conv match_hex_drop match_hyphen_drop)
qed

text \<open>The two sides agree on identifiers but for a line feed at the end.\<close>

definition ends_in_newline :: "string \<Rightarrow> bool" where
  "ends_in_newline s \<longleftrightarrow> s \<noteq> [] \<and> last s = CHR 0x0A"

lemma uuid_length: "IsValidUuidFormat s \<Longrightarrow> length s = 36"
  by (simp add: IsValidUuidFormat_def)

lemma valid_uuid_newline:
  assumes "IsValidUuidFormat s"
  shows "\<not> ends_in_newline s"
proof -
  have len: "length s = 36" using assms by (rule uuid_length)
  then have "\<forall>i<12. IsHexDigit (s ! (24 + i))" using assms IsValidUuidFormat_ranges [of s] by simp
  from this [rule_format, of 11] have "IsHexDigit (last s)"
    using len last_conv_nth [of s] by force
  moreover have "\<not> IsHexDigit (CHR 0x0A)" by code_simp
  ultimately show ?thesis by (auto simp: ends_in_newline_def)
qed

lemma is_valid_task_id_iff:
  "is_valid_task_id s \<longleftrightarrow> IsValidUuidFormat (if ends_in_newline s then butlast s else s)"
proof -
  have "is_valid_task_id s \<longleftrightarrow> IsValidUuidFormat (take 36 s) \<and> match_end (drop 36 s)"
    by (auto simp: is_valid_task_id_def match_uuid_iff split: option.splits)
       (metis match_uuid_iff option.distinct(1))
  also have "\<dots> \<longleftrightarrow> IsValidUuidFormat s \<or> (\<exists>u. s = u @ [CHR 0x0A] \<and> IsValidUuidFormat u)"
  proof
    assume *: "IsValidUuidFormat (take 36 s) \<and> match_end (drop 36 s)"
    then show "IsValidUuidFormat s \<or> (\<exists>u. s = u @ [CHR 0x0A] \<and> IsValidUuidFormat u)"
      using append_take_drop_id [of 36 s] unfolding match_end_def by (metis append_Nil2)
  next
    assume "IsValidUuidFormat s \<or> (\<exists>u. s = u @ [CHR 0x0A] \<and> IsValidUuidFormat u)"
    then show "IsValidUuidFormat (take 36 s) \<and> match_end (drop 36 s)"
      using uuid_length by (auto simp: match_end_def)
  qed
  also have "\<dots> \<longleftrightarrow> IsValidUuidFormat (if ends_in_newline s then butlast s else s)"
    using valid_uuid_newline [of s] by (auto simp: ends_in_newline_def) (metis append_butlast_last_id)
  finally show ?thesis .
qed

section \<open>Messages on both sides\<close>

text \<open>The C++ message that a Python message stands for.\<close>

definition python_message ::
    "string \<Rightarrow> string \<Rightarrow> (string \<times> json) list \<Rightarrow> int \<Rightarrow> int \<Rightarrow> RetryPolicy \<Rightarrow> TaskMessage" where
  "python_message i name args created delay_ms policy =
     TaskMessage_default\<lparr>m_id := TaskId i, m_name := name, m_payload := json_object args,
       m_retry_policy := policy, m_created_at_ms := created,
       m_run_at_ms := if delay_ms > 0 then Some (created + delay_ms) else None\<rparr>"

lemma python_message_json:
  "TaskMessage_ToJson (python_message i name args created delay_ms policy) =
     (let message = json_object
            [(''schema_version'', JInt 1), (''id'', JString i), (''name'', JString name),
             (''payload'', json_object args), (''status'', JString ''pending''), (''retry_count'', JInt 0),
             (''retry_policy'', to_wire policy), (''created_at_ms'', JInt created)]
      in if delay_ms > 0 then json_put ''run_at_ms'' (JInt (created + delay_ms)) message else message)"
  by (simp add: TaskMessage_ToJson_def python_message_def TaskMessage_default_def kTaskSchemaVersion_def
      to_wire_def RetryPolicy_ToJson_def Let_def)

text \<open>With the default policy it is what the C++ constructors build.\<close>

lemma python_message_Create:
  "python_message (generate_task_id bytes) name args created 0 RetryPolicy_default =
     TaskMessage_Create bytes created name (json_object args)"
  "0 < delay_ms \<Longrightarrow> in_i64 (created + delay_ms) \<Longrightarrow>
     TaskMessage_CreateWithDelay bytes created name (json_object args) delay_ms =
     Inr (python_message (generate_task_id bytes) name args created delay_ms RetryPolicy_default)"
  by (simp_all add: python_message_def generate_task_id_def TaskMessage_Create_def TaskId_Generate_def
      TaskMessage_CreateWithDelay_def TaskMessage_default_def ValidateDelayMs_def add_i64_def bind_sum_def)

lemma policy_accepted:
  assumes "in_i32 (max_retries p)" and "in_i64 (base_delay_ms p)"
  shows "pr_Ok (RetryPolicyFromJson (RetryPolicy_ToJson p)) \<longleftrightarrow> pr_Ok (ValidateRetryPolicy p)"
  using assms
  by (cases p) (simp add: RetryPolicyFromJson_def RetryPolicy_ToJson_def parse_field_simps Let_def pr_Ok_def)

lemma python_message_accepted:
  fixes i name args created delay_ms policy
  defines "m \<equiv> python_message i name args created delay_ms policy"
  assumes "in_range_message m"
  shows "if IsValidUuidFormat i \<and> pr_Ok (ValidateRetryPolicy policy)
    then TaskMessageFromJson (TaskMessage_ToJson m) = PR_Ok m
    else \<not> pr_Ok (TaskMessageFromJson (TaskMessage_ToJson m))"
proof (cases "IsValidUuidFormat i \<and> pr_Ok (ValidateRetryPolicy policy)")
  case True
  then show ?thesis using assms(2) message_roundtrip [of m] by (simp add: wire_message_def m_def python_message_def)
next
  case False
  have "\<not> pr_Ok (TaskMessageFromJson (TaskMessage_ToJson m))"
  proof
    assume "pr_Ok (TaskMessageFromJson (TaskMessage_ToJson m))"
    then obtain m' where "TaskMessageFromJson (TaskMessage_ToJson m) = PR_Ok m'" using pr_Ok_iff by blast
    note f = TaskMessageFromJson_fields [OF this]
    have "IsValidUuidFormat i"
      using f(5) by (simp add: parse_field_simps find_TaskMessage_ToJson TaskId_Parse_Ok_iff m_def python_message_def)
    moreover have "pr_Ok (ValidateRetryPolicy policy)"
      using f(7) assms(2) policy_accepted [of policy]
      by (simp add: json_at_def find_TaskMessage_ToJson m_def python_message_def in_range_message_def)
    ultimately show False using False by simp
  qed
  with False show ?thesis by auto
qed

lemma build_task_messageE:
  assumes "build_task_message bytes timestamp name args task_id created_at_ms delay retry_policy = Inr j"
  obtains policy created delay_ms where "resolve_policy retry_policy = Inr policy"
    "(case created_at_ms of Some t \<Rightarrow> Inr t | None \<Rightarrow> now_unix_ms timestamp) = Inr created"
    "py_int (PyFloat (dmul delay (DFin 1000))) = Inr delay_ms" "is_valid_task_id (resolve_id bytes task_id)"
    "j = TaskMessage_ToJson (python_message (resolve_id bytes task_id) name args created delay_ms policy)"
  using assms unfolding python_message_json build_task_message_def
  by (auto simp: py_bind_def Let_def split: if_splits sum.splits)

text \<open>
  C26: the Python producer writes the C++ wire format. Whatever \<open>build_task_message\<close> returns is the
  JSON that the C++ serialiser writes for the same name, payload, identifier, policy, creation time
  and delay. When the numbers fit their C++ types, the C++ parser gives exactly that message back,
  except in two cases that the Python side lets pass and the C++ side rejects: an identifier with a
  line feed at its end, and a \<open>RetryPolicy\<close> object with a negative field.
\<close>

theorem python_message_read_by_cpp:
  assumes "build_task_message bytes timestamp name args task_id created_at_ms delay retry_policy = Inr j"
  shows "\<exists>policy created delay_ms.
    resolve_policy retry_policy = Inr policy \<and> py_int (PyFloat (dmul delay (DFin 1000))) = Inr delay_ms \<and>
    (case created_at_ms of Some t \<Rightarrow> Inr t | None \<Rightarrow> now_unix_ms timestamp) = Inr created \<and>
    (let m = python_message (resolve_id bytes task_id) name args created delay_ms policy
     in j = TaskMessage_ToJson m \<and>
        (in_range_message m \<longrightarrow>
           (if ends_in_newline (resolve_id bytes task_id) \<or> \<not> pr_Ok (ValidateRetryPolicy policy)
            then \<not> pr_Ok (TaskMessageFromJson j) else TaskMessageFromJson j = PR_Ok m)))"
proof -
  let ?i = "resolve_id bytes task_id"
  obtain policy created delay_ms where *: "resolve_policy retry_policy = Inr policy"
    "(case created_at_ms of Some t \<Rightarrow> Inr t | None \<Rightarrow> now_unix_ms timestamp) = Inr created"
    "py_int (PyFloat (dmul delay (DFin 1000))) = Inr delay_ms" "is_valid_task_id ?i"
    "j = TaskMessage_ToJson (python_message ?i name args created delay_ms policy)"
    using build_task_messageE [OF assms] .
  have "IsValidUuidFormat ?i \<longleftrightarrow> \<not> ends_in_newline ?i"
    using *(4) valid_uuid_newline [of ?i] by (auto simp: is_valid_task_id_iff)
  then show ?thesis
    using * python_message_accepted [of ?i name args created delay_ms policy]
    by (intro exI [of _ policy] exI [of _ created] exI [of _ delay_ms]) (auto simp: Let_def split: if_splits)
qed

text \<open>The delayed message of the tests of both sides.\<close>

definition fixture_id :: string where
  "fixture_id = ''550e8400-e29b-41d4-a716-446655440000''"

lemma fixture_built:
  "\<exists>j. build_task_message [] DNaN ''add'' [(''a'', JInt 2), (''b'', JInt 3)] (Some fixture_id)
     (Some 1717000000000) (DFin 1) NoPolicy = Inr j"
  "is_valid_task_id fixture_id" "resolve_id [] (Some fixture_id) = fixture_id" "\<not> ends_in_newline fixture_id"
  "py_int (PyFloat (dmul (DFin 1) (DFin 1000))) = Inr 1000"
proof -
  show id: "is_valid_task_id fixture_id" unfolding fixture_id_def by code_simp
  show r: "resolve_id [] (Some fixture_id) = fixture_id" by (simp add: resolve_id_def fixture_id_def)
  show "\<not> ends_in_newline fixture_id" by (simp add: ends_in_newline_def fixture_id_def)
  show d: "py_int (PyFloat (dmul (DFin 1) (DFin 1000))) = Inr 1000"
    using rnd_int [of 1000] truncate_rat_int [of 1000] by simp
  show "\<exists>j. build_task_message [] DNaN ''add'' [(''a'', JInt 2), (''b'', JInt 3)] (Some fixture_id)
     (Some 1717000000000) (DFin 1) NoPolicy = Inr j"
    unfolding build_task_message_def r d
    by (simp add: id py_bind_def Let_def resolve_policy_def parse_retry_policy_def)
qed

theorem python_message_read_by_cpp_witness:
  "\<exists>j m. build_task_message [] DNaN ''add'' [(''a'', JInt 2), (''b'', JInt 3)] (Some fixture_id)
      (Some 1717000000000) (DFin 1) NoPolicy = Inr j \<and>
    TaskMessageFromJson j = PR_Ok m \<and> m_run_at_ms m = Some 1717000001000"
proof -
  obtain j where j: "build_task_message [] DNaN ''add'' [(''a'', JInt 2), (''b'', JInt 3)] (Some fixture_id)
      (Some 1717000000000) (DFin 1) NoPolicy = Inr j" using fixture_built(1) by blast
  let ?m = "python_message fixture_id ''add'' [(''a'', JInt 2), (''b'', JInt 3)] 1717000000000 1000 RetryPolicy_default"
  have range: "in_range_message ?m" "pr_Ok (ValidateRetryPolicy RetryPolicy_default)"
    by (simp_all add: in_range_message_def python_message_def TaskMessage_default_def RetryPolicy_default_def
        in_i32_def in_i64_def pr_Ok_ValidateRetryPolicy)
  have "TaskMessageFromJson j = PR_Ok ?m"
    using python_message_read_by_cpp [OF j] fixture_built(4) range
    unfolding fixture_built(3,5) resolve_policy_def parse_retry_policy_def by (auto simp: Let_def)
  then show ?thesis using j by (auto simp: python_message_def)
qed

end
