(* ===== verification/Spec2Isabelle.thy ===== *)
theory Spec2Isabelle
  imports Worker_Start Schema_Version Malformed Metrics_Equiv Clock Comparisons Python_Wire
begin

text \<open>
  \<^bold>\<open>CrunchyTask\<close> is a task queue: producers put messages into Redis, workers take them out, run
  the handler registered for the task's name and report how it ended. This development models
  the C++ program (src/src, src/include/taskqueue, src/cli, src/examples) and the wire format of
  its Python producer (src/clients/python); paths in the theories are relative to src/.

  \<^bold>\<open>The program and its interaction.\<close> A message (task_message.h) travels as JSON text
  (task_json.cc). The broker (redis_broker.cc) keeps it in one of four places of a Redis
  keyspace: the list \<^verbatim>\<open>pending\<close>, the sorted set \<^verbatim>\<open>delayed\<close>, the hash \<^verbatim>\<open>running\<close> and the list
  \<^verbatim>\<open>dead\<close>. Moves between them are Lua scripts (redis_scripts.cc), each atomic. The scheduler
  (scheduler.cc) promotes due tasks and reclaims stale ones. The worker (worker.cc) polls the
  broker, hands tasks to a thread pool (thread_pool.cc), looks up the handler in a registry
  (task_registry.cc) and acknowledges, retries (retry_policy.cc) or fails the task; it also
  publishes heartbeats and metrics (metrics.cc). The command line program (cli/main.cc) and the
  producer (examples/producer.cc) call the same operations.

  \<^bold>\<open>The theories of the model.\<close>
  \<^item> \<open>Prelude\<close>: exceptions, the state-and-exception monad \<open>io\<close>, \<^verbatim>\<open>ParseResult\<close>, sorted association
    lists. \<open>Cxx_Numbers\<close>: signed overflow, integer text, binary64 arithmetic.
  \<^item> \<open>Task_Status\<close>, \<open>Task_Id\<close>, \<open>Task_Policy\<close> (retry_policy.cc, runtime_config.cc), \<open>Json\<close>,
    \<open>Task_Message\<close>, \<open>Task_Json\<close>: the task model, a \<open>record\<close> or \<open>datatype\<close> for each class.
  \<^item> \<open>Wire\<close>: JSON text as C++ and Lua read and write it, with \<^verbatim>\<open>TaskMessageFromJsonString\<close>.
    \<open>Redis\<close>: key names, commands, the server's contract, the lossy connection.
  \<^item> \<open>Redis_Scripts\<close>: the seven scripts and the class that loads and calls them. \<open>Metrics\<close>:
    collector, text formats, statistics, heartbeat record. \<open>Redis_Broker\<close>: every method of
    \<^verbatim>\<open>RedisBroker\<close>. \<open>Broker\<close>: the interface as a record of methods, and the scheduler tick.
  \<^item> \<open>Task_Registry\<close>, \<open>Thread_Pool\<close>, \<open>Worker\<close>, \<open>Worker_Loop\<close>: the worker process. The pool and
    \<open>Run\<close> are step relations (\<open>pool_step\<close>, \<open>run_step\<close>) whose steps are the sections between two
    points where another thread can run; the other operations are functions.
  \<^item> \<open>Cli\<close>: every callback of the command line program, its \<^verbatim>\<open>main\<close>, and the producer. \<open>Worker_Start\<close>:
    the process of \<^verbatim>\<open>worker start\<close> with its signal handlers (\<open>start_step\<close>). \<open>Clock\<close>: \<^verbatim>\<open>NowUnixMs\<close>.
    \<open>Comparisons\<close>: the operators \<^verbatim>\<open>==\<close> of the data types. \<open>Python_Wire\<close>: crunchytask/wire.py.

  An operation is a function in \<open>io\<close>: from the state to a result or exception and the new state.
  Every throw and early return of the sources is a branch.

  \<^bold>\<open>The theories of the proofs.\<close>
  \<^item> \<open>Queue_Spec\<close>, \<open>Script_Sim\<close>, \<open>Queue_Refine\<close>: an abstract queue of identifiers with one operation per
    kind of request (\<open>qop\<close>, \<open>qapply\<close>, as steps \<open>qstep\<close>), how a client call acts on the keyspace, and the
    refinement: each request does to the abstract queue what its operation (\<open>qop_of\<close>) does.
  \<^item> \<open>Broker_Safety\<close>, \<open>Broker_Theorems\<close>: a task that \<open>Enqueue\<close> accepted is never lost, over lossy
    connections and with any number of clients; clients that keep to the protocol keep one copy of
    each task; messages come out in the order they went in.
  \<^item> \<open>Broker_Effects\<close>, \<open>Delivery\<close>, \<open>Scheduling\<close>, \<open>Outcomes\<close>, \<open>Heartbeats\<close>, \<open>Malformed\<close>,
    \<open>Metrics_Equiv\<close>: result and effect of the broker's operations on a connection without losses,
    the promotion and visibility times to the millisecond, the queries afterwards, texts no script
    can read, and the metrics hash against the collector in memory.
  \<^item> \<open>Message_Flow\<close>: what a worker reserves is what a producer enqueued, name, payload and policy
    unchanged through every script.
  \<^item> \<open>Thread_Pool\<close> (second half): counters, order of jobs, no lost wake-up, draining.
    \<open>Worker_Outcomes\<close>: \<open>ProcessTask\<close> for every outcome of a handler, and the life of a task through
    its retries. \<open>Worker_Loop\<close>, \<open>Termination\<close>: every reserved task is run once, \<open>Run\<close> ends after
    \<open>Stop\<close>, the promotion loop ends. \<open>Worker_Safety\<close>: a running worker loses no task.
  \<^item> \<open>Recovery\<close>: a task whose worker died is run by another one as soon as the visibility timeout has
    passed and not before, when it is the only one in the queues; what the late report of a slow
    worker does. \<open>Schema_Version\<close>: a task of another schema version, among whatever other tasks, is
    never handed to a worker and never settled.
  \<^item> \<open>Cli_Properties\<close>: output and exit codes of the commands, end to end over the broker.
    \<open>Worker_Start\<close> (second half): a signal ends the process with every reserved task processed,
    unless it comes before \<open>Run\<close> has set its flag. \<open>Clock\<close>: every reading of the system clock is
    below \<open>10^14\<close> ms in absolute value, which is the hypothesis \<open>small\<close> of the theorems on times.

  \<^item> \<open>Comparisons\<close> (second half): the operators compare every field. \<open>Python_Wire\<close> (second half): what
    Python builds is what C++ writes, and C++ reads it back, with two exceptions.

  \<^bold>\<open>Interfaces.\<close> Each is a locale, interpreted on the model. \<open>redis_server\<close> and \<open>wire_text\<close> are the
  contracts of external code, joined in \<open>external\<close>; the in-memory server \<open>mem_redis\<close> and the codec
  \<open>ref_text\<close> show that they can be met, and the witnesses run on them. \<open>request_invariant\<close> lifts a
  property of single requests to every broker operation and is used for reachability, for the
  flow of messages and for tasks of another version. \<open>broker_contract\<close> is what the worker relies on of a
  broker; the Redis broker meets it for every invariant its requests keep (\<open>invariant_contract\<close>): for
  the tasks in its queues, for tasks of another version and for the scripts its connection has loaded.

  \<^bold>\<open>External code\<close> is a parameter. The Redis server with the client redis++ is the record
  \<open>redis_ops\<close>; nlohmann JSON and Lua's cjson are the functions of \<open>text_ops\<close>; the outcome of the
  CLI11 parser, of \<^verbatim>\<open>gethostname\<close> and of \<^verbatim>\<open>getenv\<close>, clock readings and random bytes are arguments;
  task handlers are functions on a state of the application and may throw anything. The order in which
  a \<^verbatim>\<open>std::unordered_map\<close> is iterated is a parameter as well (\<open>umap_order\<close>), any permutation. Strings stand
  for UTF-8 text; \<^verbatim>\<open>std::pow\<close> is taken as correctly rounded. The \<^verbatim>\<open>PING\<close> of \<^verbatim>\<open>EnsureRedis\<close>, sent over a connection
  of its own, is the argument \<open>cw_ping\<close>.

  \<^bold>\<open>Bounds and fuel.\<close> The one loop that a definition cannot bound by its data is the promotion loop
  of \<^verbatim>\<open>PromoteDueTasks\<close> (the server could answer 1 for ever): it has fuel, and
  \<open>Termination\<close> shows that any fuel above the number of delayed members is enough
  whatever the connection loses. Integers of the C++ side are \<open>int\<close> with the range checks and the
  overflow written out, identifiers are built from \<open>8 word\<close> bytes, \<^verbatim>\<open>double\<close> is rounded binary64.

  \<^bold>\<open>Not modelled.\<close> Log lines; the option tables given to CLI11, since what the parser makes of
  them is an argument; \<^verbatim>\<open>std::terminate\<close> beyond the fact that the process ends; in Python the module
  client.py, which starts the command line program as a subprocess, and the text functions of
  \<^verbatim>\<open>json\<close>; tests and benchmarks. What remains of the C++ files are include lines, declarations
  without a body and the option tables.
\<close>

end
